(* ===== verification/UM_Prelude.thy ===== *)
theory UM_Prelude
  imports Complex_Main "HOL-Library.Word" "HOL-Library.Monad_Syntax"
begin

text \<open>
  Shared vocabulary of the development: the integer widths of the C code, wrap-around arithmetic
  on natural numbers, bit flags, singly linked chains through a \<open>next\<close> field, batches
  of nodes carved out of one \<open>malloc\<close>, and two interfaces (locales) that several components
  of the extension implement: a FIFO list and an intrusive free list.
\<close>

unbundle bit_operations_syntax

named_theorems um_flag_defs \<open>the definitions of the OP_F_ bits\<close>
named_theorems um_frame \<open>components that an operation leaves unchanged\<close>

type_synonym u32 = "32 word"
type_synonym u64 = "64 word"
type_synonym addr = nat
type_synonym fiber = nat

section \<open>Unsigned arithmetic with the wrap-around written out\<close>

text \<open>
  \<open>size_t\<close> and \<open>uint\<close> values that the code compares are natural numbers; the width
  is the first argument, and a subtraction below zero wraps as it does in C.
\<close>

definition wrap_add :: "nat \<Rightarrow> nat \<Rightarrow> nat \<Rightarrow> nat" where
  "wrap_add w a b = (a + b) mod 2 ^ w"

definition wrap_sub :: "nat \<Rightarrow> nat \<Rightarrow> nat \<Rightarrow> nat" where
  "wrap_sub w a b = (if b \<le> a then a - b else (a + 2 ^ w - b))"

definition wrap_mul :: "nat \<Rightarrow> nat \<Rightarrow> nat \<Rightarrow> nat" where
  "wrap_mul w a b = (a * b) mod 2 ^ w"

lemma wrap_sub_le [simp]: "b \<le> a \<Longrightarrow> wrap_sub w a b = a - b"
  by (simp add: wrap_sub_def)

lemma wrap_add_small [simp]: "a + b < 2 ^ w \<Longrightarrow> wrap_add w a b = a + b"
  by (simp add: wrap_add_def)

lemma wrap_mul_small: "a * b < 2 ^ w \<Longrightarrow> wrap_mul w a b = a * b"
  by (simp add: wrap_mul_def)

lemma of_nat_u32_eq_iff: "a < 2 ^ 32 \<Longrightarrow> b < 2 ^ 32 \<Longrightarrow> (of_nat a :: u32) = of_nat b \<longleftrightarrow> a = b"
  by (auto dest: arg_cong [where f = unat] simp: unat_of_nat)

section \<open>Flags\<close>

text \<open>\<open>has_flag w f\<close> is the C test \<open>w & f\<close>.\<close>

definition has_flag :: "u32 \<Rightarrow> u32 \<Rightarrow> bool" where
  "has_flag w f \<longleftrightarrow> w AND f \<noteq> 0"

definition flag_bit :: "nat \<Rightarrow> u32" where
  "flag_bit i = push_bit i 1"

lemma bit_flag_bit: "i < 32 \<Longrightarrow> bit (flag_bit i) k \<longleftrightarrow> k = i"
  by (auto simp: flag_bit_def bit_push_bit_iff bit_simps)

lemma has_flag_bit: "i < 32 \<Longrightarrow> has_flag w (flag_bit i) \<longleftrightarrow> bit w i"
  unfolding has_flag_def
proof -
  assume i: "i < 32"
  have "bit (w AND flag_bit i) k \<longleftrightarrow> k = i \<and> bit w i" for k
    using i by (auto simp: bit_and_iff bit_flag_bit)
  then show "(w AND flag_bit i \<noteq> 0) = bit w i"
    by (metis bit_0_eq bit_eqI bot_apply bot_bool_def)
qed

lemma has_flag_or_left [simp]: "has_flag (v OR w) f \<longleftrightarrow> has_flag v f \<or> has_flag w f"
  by (simp add: has_flag_def bit.conj_disj_distrib2 or_eq_0_iff)

lemma has_flag_clear_bit [simp]:
  "i < 32 \<Longrightarrow> j < 32 \<Longrightarrow>
    has_flag (w AND NOT (flag_bit i)) (flag_bit j) \<longleftrightarrow> i \<noteq> j \<and> has_flag w (flag_bit j)"
  by (auto simp: has_flag_bit bit_and_iff bit_not_iff bit_flag_bit)

lemma has_flag_zero [simp]: "\<not> has_flag 0 f"
  by (simp add: has_flag_def)

lemma has_flag_or: "has_flag w (f OR g) \<longleftrightarrow> has_flag w f \<or> has_flag w g"
  by (simp add: has_flag_def bit.conj_disj_distrib or_eq_0_iff)

lemma has_flag_single [simp]: "i < 32 \<Longrightarrow> j < 32 \<Longrightarrow> has_flag (flag_bit i) (flag_bit j) \<longleftrightarrow> i = j"
  by (auto simp: has_flag_bit bit_flag_bit)

section \<open>Chains: singly linked lists through a \<open>next\<close> field\<close>

text \<open>
  \<open>chain nx p as\<close>: starting at the pointer \<open>p\<close> (\<open>None\<close> is NULL) and following
  \<open>nx\<close>, exactly the nodes \<open>as\<close> are met, and the last one's \<open>next\<close> is NULL.
\<close>

fun chain :: "(addr \<Rightarrow> addr option) \<Rightarrow> addr option \<Rightarrow> addr list \<Rightarrow> bool" where
  "chain nx p [] \<longleftrightarrow> p = None"
| "chain nx p (a # as) \<longleftrightarrow> p = Some a \<and> chain nx (nx a) as"

lemma chain_None [simp]: "chain nx None as \<longleftrightarrow> as = []"
  by (cases as) auto

lemma chain_Some: "chain nx (Some a) as \<longleftrightarrow> (\<exists>bs. as = a # bs \<and> chain nx (nx a) bs)"
  by (cases as) auto

lemma chain_functional: "chain nx p as \<Longrightarrow> chain nx p bs \<Longrightarrow> as = bs"
proof (induction as arbitrary: p bs)
  case Nil
  then show ?case by simp
next
  case (Cons a as)
  then show ?case by (cases bs) auto
qed

lemma chain_cong: "(\<And>a. a \<in> set as \<Longrightarrow> nx a = nx' a) \<Longrightarrow> chain nx p as \<longleftrightarrow> chain nx' p as"
  by (induction as arbitrary: p) auto

lemma chain_upd [simp]: "a \<notin> set as \<Longrightarrow> chain (nx(a := q)) p as \<longleftrightarrow> chain nx p as"
  by (rule chain_cong) auto

lemma chain_append:
  "chain nx p (as @ b # bs) \<Longrightarrow> \<exists>q. q = Some b \<and> chain nx q (b # bs)"
  by (induction as arbitrary: p) auto

lemma chain_push_tail:
  "chain nx p as \<Longrightarrow> distinct as \<Longrightarrow> b \<notin> set as \<Longrightarrow> as \<noteq> [] \<Longrightarrow>
   chain (nx(last as := Some b, b := None)) p (as @ [b])"
proof (induction as arbitrary: p)
  case (Cons a as)
  show ?case
  proof (cases "as = []")
    case True
    with Cons.prems show ?thesis by auto
  next
    case False
    with Cons.prems have "a \<noteq> last as" "a \<noteq> b" by auto
    with False Cons.IH [of "nx a"] Cons.prems show ?thesis by simp
  qed
qed simp

lemma chain_distinct: "chain nx p as \<Longrightarrow> distinct as"
proof (induction as arbitrary: p)
  case (Cons a as)
  have "a \<notin> set as"
  proof
    assume "a \<in> set as"
    then obtain us vs where as: "as = us @ a # vs" by (auto simp: in_set_conv_decomp)
    from Cons.prems have 1: "chain nx (nx a) as" by simp
    then have "chain nx (nx a) vs" unfolding as using chain_append by fastforce
    then have "as = vs" using 1 chain_functional by blast
    then show False by (simp add: as)
  qed
  with Cons show ?case by auto
qed simp

text \<open>A batch of nodes \<open>b, b+1, \<dots>, e-1\<close>, each linked to the one after it.\<close>

lemma chain_batch:
  "b \<le> e \<Longrightarrow> (\<And>a. b \<le> a \<Longrightarrow> Suc a < e \<Longrightarrow> nx a = Some (Suc a)) \<Longrightarrow>
   (b < e \<Longrightarrow> nx (e - 1) = None) \<Longrightarrow>
   chain nx (if b < e then Some b else None) [b..<e]"
proof (induction "e - b" arbitrary: b)
  case 0
  then show ?case by simp
next
  case (Suc k)
  then have less: "b < e" by simp
  have tail: "chain nx (if Suc b < e then Some (Suc b) else None) [Suc b..<e]"
    using Suc.hyps(2) Suc.prems by (intro Suc.hyps(1)) auto
  have "nx b = (if Suc b < e then Some (Suc b) else None)"
    using Suc.prems(2) [of b] Suc.prems(3) less by (cases "Suc b < e") (auto dest: Suc_lessI)
  then show ?case using less tail by (simp add: upt_conv_Cons)
qed

section \<open>Interface: a FIFO list\<close>

text \<open>
  The operations are those of an intrusive list with a push at one end and a shift at the other;
  \<open>rel s xs\<close> says that the concrete state \<open>s\<close> holds exactly \<open>xs\<close>, and
  \<open>ok s xs x\<close> says when \<open>x\<close> may be pushed. The machine's run queue and the user-level
  queue (used in one direction) are instances.
\<close>

locale fifo =
  fixes push :: "'s \<Rightarrow> 'a \<Rightarrow> 's"
    and shift :: "'s \<Rightarrow> 'a option \<times> 's"
    and rel :: "'s \<Rightarrow> 'a list \<Rightarrow> bool"
    and ok :: "'a list \<Rightarrow> 'a \<Rightarrow> bool"
  assumes push_rel: "rel s xs \<Longrightarrow> ok xs x \<Longrightarrow> rel (push s x) (xs @ [x])"
    and shift_Nil: "rel s [] \<Longrightarrow> shift s = (None, s)"
    and shift_Cons: "rel s (x # xs) \<Longrightarrow> \<exists>s'. shift s = (Some x, s') \<and> rel s' xs"
begin

fun drain :: "nat \<Rightarrow> 's \<Rightarrow> 'a list \<times> 's" where
  "drain 0 s = ([], s)"
| "drain (Suc n) s =
     (case shift s of (None, s') \<Rightarrow> ([], s') | (Some x, s') \<Rightarrow> apfst (Cons x) (drain n s'))"

lemma drain_rel:
  "rel s xs \<Longrightarrow> fst (drain n s) = take n xs \<and> rel (snd (drain n s)) (drop n xs)"
proof (induction n arbitrary: s xs)
  case (Suc n)
  show ?case
  proof (cases xs)
    case Nil
    with Suc.prems show ?thesis by (simp add: shift_Nil)
  next
    case (Cons x ys)
    then obtain s' where "shift s = (Some x, s')" "rel s' ys"
      using shift_Cons Suc.prems by blast
    with Suc.IH [of s' ys] Cons show ?thesis by simp
  qed
qed simp

lemma foldl_push_rel:
  "rel s xs \<Longrightarrow> (\<And>us v vs. ys = us @ v # vs \<Longrightarrow> ok (xs @ us) v) \<Longrightarrow> rel (foldl push s ys) (xs @ ys)"
proof (induction ys arbitrary: s xs)
  case (Cons y ys)
  have "rel (push s y) (xs @ [y])"
    using Cons.prems(2) [of "[]" y ys] Cons.prems(1) by (simp add: push_rel)
  moreover have "ok ((xs @ [y]) @ us) v" if "ys = us @ v # vs" for us v vs
    using Cons.prems(2) [of "y # us" v vs] that by simp
  ultimately have "rel (foldl push (push s y) ys) ((xs @ [y]) @ ys)"
    by (rule Cons.IH)
  then show ?case by simp
qed simp

text \<open>Whatever is pushed comes out in the order in which it was pushed.\<close>

lemma fifo_order:
  assumes "rel s []" and "\<And>us v vs. ys = us @ v # vs \<Longrightarrow> ok us v"
  shows "fst (drain (length ys) (foldl push s ys)) = ys"
  using drain_rel [OF foldl_push_rel [OF assms(1)], of ys "length ys"] assms(2) by simp

end

section \<open>Interface: a pool of records allocated in batches\<close>

text \<open>
  Records are carved out of one \<open>malloc\<close> per batch and returned to a free list: operations,
  results and segments are three instances. \<open>rel s fl n\<close> says that \<open>fl\<close> is the free list of
  \<open>s\<close> and that the records below \<open>n\<close> have been allocated.
\<close>

locale batch_alloc =
  fixes alloc :: "'s \<Rightarrow> addr \<times> 's"
    and release :: "'s \<Rightarrow> addr \<Rightarrow> 's"
    and rel :: "'s \<Rightarrow> addr list \<Rightarrow> nat \<Rightarrow> bool"
  assumes alloc_Cons: "rel s (a # fl) n \<Longrightarrow> \<exists>s'. alloc s = (a, s') \<and> rel s' fl n"
    and alloc_Nil: "rel s [] n \<Longrightarrow> \<exists>s' n'. alloc s = (n, s') \<and> n < n' \<and> rel s' [Suc n..<n'] n'"
    and release_Cons: "rel s fl n \<Longrightarrow> a \<notin> set fl \<Longrightarrow> a < n \<Longrightarrow> rel (release s a) (a # fl) n"
begin

text \<open>\<open>live\<close> are the records handed out and not yet returned.\<close>

definition pool_ok :: "'s \<Rightarrow> addr set \<Rightarrow> addr list \<Rightarrow> nat \<Rightarrow> bool" where
  "pool_ok s live fl n \<longleftrightarrow>
     rel s fl n \<and> distinct fl \<and> live \<inter> set fl = {} \<and> live \<union> set fl = {..<n}"

lemma alloc_ok:
  assumes "pool_ok s live fl n"
  shows "\<exists>a s' fl' n'. alloc s = (a, s') \<and> a \<notin> live \<and> n \<le> n' \<and>
    pool_ok s' (insert a live) fl' n' \<and> (fl \<noteq> [] \<longrightarrow> a = hd fl \<and> fl' = tl fl \<and> n' = n)"
proof (cases fl)
  case Nil
  then have rel: "rel s [] n" and live: "live = {..<n}" using assms by (auto simp: pool_ok_def)
  obtain s' n' where s': "alloc s = (n, s')" "n < n'" "rel s' [Suc n..<n'] n'"
    using alloc_Nil [OF rel] by blast
  have "insert n live \<union> set [Suc n..<n'] = {..<n'}" "insert n live \<inter> set [Suc n..<n'] = {}"
    using live s'(2) by auto
  then have "pool_ok s' (insert n live) [Suc n..<n'] n'"
    using s'(3) unfolding pool_ok_def by simp
  moreover have "n \<notin> live" using live by simp
  ultimately show ?thesis using s'(1,2) Nil less_imp_le [of n n'] by blast
next
  case (Cons a fl')
  then have ok: "rel s (a # fl') n" "distinct (a # fl')" "live \<inter> set (a # fl') = {}"
    "live \<union> set (a # fl') = {..<n}" using assms by (simp_all only: pool_ok_def)
  obtain s' where s': "alloc s = (a, s')" "rel s' fl' n" using alloc_Cons [OF ok(1)] by blast
  have "pool_ok s' (insert a live) fl' n" using ok s' by (auto simp: pool_ok_def)
  moreover have "a \<notin> live" using ok(3) by simp
  ultimately show ?thesis using s' Cons by (intro exI [of _ a] exI [of _ s'] exI [of _ fl'] exI [of _ n]) simp
qed

lemma release_ok:
  assumes "pool_ok s live fl n" "a \<in> live"
  shows "pool_ok (release s a) (live - {a}) (a # fl) n"
  using assms release_Cons [of s fl n a] by (auto simp: pool_ok_def)

text \<open>The last record returned is the first handed out again.\<close>

lemma alloc_release:
  assumes "pool_ok s live fl n" "a \<in> live"
  shows "\<exists>s'. alloc (release s a) = (a, s') \<and> pool_ok s' live fl n"
proof -
  have "rel (release s a) (a # fl) n" using release_ok [OF assms] by (simp add: pool_ok_def)
  then obtain s' where "alloc (release s a) = (a, s')" "rel s' fl n" using alloc_Cons by blast
  with assms show ?thesis by (auto simp: pool_ok_def)
qed

end

lemma chain_upt:
  "n < e \<Longrightarrow> (\<And>a. n < a \<Longrightarrow> a < e \<Longrightarrow> nx a = (if Suc a < e then Some (Suc a) else None)) \<Longrightarrow>
   Suc n < e \<Longrightarrow> chain nx (Some (Suc n)) [Suc n..<e]"
  using chain_batch [of "Suc n" e nx] by auto

end
