(* ===== verification/UM_Machine.thy ===== *)
theory UM_Machine
  imports UM_Prelude
begin

text \<open>
  The data of \<^verbatim>\<open>ext/um/um.h\<close>: operation kinds, I/O modes, OP_F_ flags, the buffer-pool
  constants, and one record per struct. A pointer is an \<^typ>\<open>addr option\<close> (\<open>None\<close> is
  NULL) into a store of the machine: \<open>ops\<close>, \<open>results\<close> and \<open>segments\<close> hold memory that
  is allocated in batches and never returned to the allocator, \<open>buffers\<close> holds memory that is
  freed (a freed or never allocated buffer is \<open>None\<close>). The \<open>_fresh\<close> counters stand for
  \<open>malloc\<close>, which returns memory disjoint from everything allocated before.
\<close>

section \<open>Ruby values and errors\<close>

text \<open>
  The values the C code handles: \<open>VALUE\<close>s are immediates, exception instances and references to
  other objects. Raising is a value of the sum type \<open>um_error + 'a\<close>.
\<close>

datatype um_error =
    UMError string
  | SysErr int
  | ArgError string
  | RubyExn nat

datatype rvalue =
    Qnil
  | Qtrue
  | Qfalse
  | Fixnum int
  | Flonum rat
  | Exn um_error
  | Fiber fiber
  | Obj nat
  | Ary "rvalue list"

fun um_value_is_exception_p :: "rvalue \<Rightarrow> bool" where
  "um_value_is_exception_p (Exn _) = True"
| "um_value_is_exception_p _ = False"

text \<open>The macro \<open>RAISE_IF_EXCEPTION\<close>: raise the value, or go on with \<open>k\<close>.\<close>

fun raise_if_exception :: "rvalue \<Rightarrow> um_error + 'a \<Rightarrow> um_error + 'a" where
  "raise_if_exception (Exn e) k = Inl e"
| "raise_if_exception _ k = k"

lemma raise_if_exception_other [simp]:
  "\<not> um_value_is_exception_p v \<Longrightarrow> raise_if_exception v k = k"
  by (cases v) auto

text \<open>
  The Ruby objects used as buffers of I/O calls: a string with its length and capacity, an
  \<open>IO::Buffer\<close> with its size, or something else. Their bytes are not modelled.
\<close>

datatype rbuf = RString nat nat | RIOBuffer nat | ROther

section \<open>Operation kinds, I/O modes and flags\<close>

datatype um_op_kind =
    OP_UNDEFINED | OP_TIMEOUT | OP_SCHEDULE
  | OP_SLEEP | OP_OPEN | OP_READ | OP_WRITE | OP_WRITEV | OP_WRITE_ASYNC | OP_CLOSE
  | OP_CLOSE_ASYNC | OP_STATX | OP_SPLICE | OP_TEE | OP_FSYNC
  | OP_ACCEPT | OP_RECV | OP_RECVMSG | OP_SEND | OP_SENDMSG | OP_SENDV | OP_SOCKET | OP_CONNECT
  | OP_BIND | OP_LISTEN | OP_GETSOCKOPT | OP_SETSOCKOPT | OP_SHUTDOWN | OP_SHUTDOWN_ASYNC
  | OP_POLL | OP_WAITID
  | OP_FUTEX_WAIT | OP_FUTEX_WAKE
  | OP_ACCEPT_MULTISHOT | OP_READ_MULTISHOT | OP_RECV_MULTISHOT | OP_TIMEOUT_MULTISHOT

datatype um_io_mode = IO_FD | IO_SOCKET | IO_SSL | IO_FILE | IO_STRING | IO_IO_BUFFER

definition OP_F_CQE_SEEN :: u32 where [um_flag_defs]: "OP_F_CQE_SEEN = flag_bit 0"

definition OP_F_CQE_DONE :: u32 where [um_flag_defs]: "OP_F_CQE_DONE = flag_bit 1"

definition OP_F_SCHEDULED :: u32 where [um_flag_defs]: "OP_F_SCHEDULED = flag_bit 2"

definition OP_F_CANCELED :: u32 where [um_flag_defs]: "OP_F_CANCELED = flag_bit 3"

definition OP_F_MULTISHOT :: u32 where [um_flag_defs]: "OP_F_MULTISHOT = flag_bit 4"

definition OP_F_ASYNC :: u32 where [um_flag_defs]: "OP_F_ASYNC = flag_bit 5"

definition OP_F_TRANSIENT :: u32 where [um_flag_defs]: "OP_F_TRANSIENT = flag_bit 6"

definition OP_F_FREE_IOVECS :: u32 where [um_flag_defs]: "OP_F_FREE_IOVECS = flag_bit 7"

definition OP_F_SKIP :: u32 where [um_flag_defs]: "OP_F_SKIP = flag_bit 8"

definition OP_F_BUFFER_POOL :: u32 where [um_flag_defs]: "OP_F_BUFFER_POOL = flag_bit 9"

definition OP_F_SELECT_POLLIN :: u32 where [um_flag_defs]: "OP_F_SELECT_POLLIN = flag_bit 13"

definition OP_F_SELECT_POLLOUT :: u32 where [um_flag_defs]: "OP_F_SELECT_POLLOUT = flag_bit 14"

definition OP_F_SELECT_POLLPRI :: u32 where [um_flag_defs]: "OP_F_SELECT_POLLPRI = flag_bit 15"

text \<open>Flags of io_uring completions that the code reads (\<open>linux/io_uring.h\<close>).\<close>

definition IORING_CQE_F_BUFFER :: u32 where [um_flag_defs]: "IORING_CQE_F_BUFFER = flag_bit 0"

definition IORING_CQE_F_MORE :: u32 where [um_flag_defs]: "IORING_CQE_F_MORE = flag_bit 1"

definition IORING_CQE_F_BUF_MORE :: u32 where [um_flag_defs]: "IORING_CQE_F_BUF_MORE = flag_bit 4"

definition IORING_CQE_BUFFER_SHIFT :: nat where "IORING_CQE_BUFFER_SHIFT = 16"

text \<open>Error numbers of Linux that the code compares with.\<close>

definition EINTR :: int where "EINTR = 4"

definition EAGAIN :: int where "EAGAIN = 11"

definition EINVAL :: int where "EINVAL = 22"

definition ETIME :: int where "ETIME = 62"

definition ENOBUFS :: int where "ENOBUFS = 105"

definition ECANCELED :: int where "ECANCELED = 125"

lemmas errno_defs = EINTR_def EAGAIN_def EINVAL_def ETIME_def ENOBUFS_def ECANCELED_def

section \<open>Buffer-pool constants\<close>

definition BP_BR_ENTRIES :: nat where "BP_BR_ENTRIES = 1024"

definition BP_INITIAL_BUFFER_SIZE :: nat where "BP_INITIAL_BUFFER_SIZE = 2 ^ 14"

definition BP_INITIAL_COMMIT_LEVEL :: nat where
  "BP_INITIAL_COMMIT_LEVEL = BP_INITIAL_BUFFER_SIZE * 16"

definition BP_MAX_BUFFER_SIZE :: nat where "BP_MAX_BUFFER_SIZE = 2 ^ 20"

definition BP_MAX_COMMIT_LEVEL :: nat where
  "BP_MAX_COMMIT_LEVEL = BP_MAX_BUFFER_SIZE * BP_BR_ENTRIES"

definition BP_AVAIL_BID_BITMAP_WORDS :: nat where
  "BP_AVAIL_BID_BITMAP_WORDS = BP_BR_ENTRIES div 64"

lemmas bp_const_defs = BP_BR_ENTRIES_def BP_INITIAL_BUFFER_SIZE_def BP_INITIAL_COMMIT_LEVEL_def
  BP_MAX_BUFFER_SIZE_def BP_MAX_COMMIT_LEVEL_def BP_AVAIL_BID_BITMAP_WORDS_def

section \<open>Structs\<close>

text \<open>A buffer's bytes are not modelled; its length, cursor, reference count and link are.\<close>

record um_buffer =
  buf_len :: nat
  buf_pos :: nat
  buf_ref_count :: u32
  buf_next :: "addr option"

text \<open>The pointer of a segment is an offset into the buffer it was cut from.\<close>

record um_segment =
  seg_ptr :: nat
  seg_len :: nat
  seg_buffer :: "addr option"
  seg_next :: "addr option"

record um_op_result =
  res :: int
  res_flags :: u32
  res_segment :: "addr option"
  res_next :: "addr option"

text \<open>The tail of an operation's result list is its inline result or one from the store.\<close>

datatype result_ref = Inline | Heap addr

record um_op =
  op_prev :: "addr option"
  op_next :: "addr option"
  op_kind :: um_op_kind
  op_flags :: u32
  op_ref_count :: u32
  op_fiber :: rvalue
  op_value :: rvalue
  op_async_op :: rvalue
  op_result :: um_op_result
  op_result_tail :: "result_ref option"
  op_result_count :: u32
  op_ts :: rat
  op_iovecs :: "nat option"
  op_siginfo :: "int \<times> int \<times> int"
  op_int_value :: int
  op_bp_commit_level :: nat

record um_metrics =
  total_ops :: u64
  total_switches :: u64
  total_waits :: u64
  ops_pending :: u32
  ops_unsubmitted :: u32
  ops_runqueue :: u32
  ops_free :: u32
  ops_transient :: u32
  buffers_allocated :: u32
  buffers_free :: u32
  segments_free :: u32
  buffer_space_allocated :: u64
  buffer_space_commited :: u64
  time_total_wait :: rat
  time_last_cpu :: rat
  time_first_cpu :: rat

section \<open>The structs behind Ruby objects\<close>

text \<open>
  Mutexes, queues, handles of asynchronous operations and buffered streams. The entries of a queue
  are allocated one by one (\<open>entries_live\<close> are those allocated) and freed with the queue. A stream's \<open>fd\<close> and \<open>target\<close>
  share a union; its flag \<open>eof\<close> is a truth value.
\<close>

record um_mutex =
  mutex_state :: u32
  mutex_waiters :: u32

record um_queue_entry =
  entry_prev :: "addr option"
  entry_next :: "addr option"
  entry_value :: rvalue

record um_queue =
  queue_self :: rvalue
  queue_head :: "addr option"
  queue_tail :: "addr option"
  queue_free_head :: "addr option"
  queue_waiters :: u32
  queue_state :: u32
  queue_count :: u32

record um_async_op =
  async_op_op :: "addr option"

record um_io =
  io_self :: rvalue
  io_machine :: bool
  io_mode :: um_io_mode
  io_fd :: int
  io_target :: nat
  io_working_buffer :: "addr option"
  io_op :: "addr option"
  io_head :: "addr option"
  io_tail :: "addr option"
  io_consumed_bytes :: nat
  io_pending_bytes :: nat
  io_pos :: nat
  io_eof :: bool

text \<open>
  The calls made to OpenSSL while a connection is set up, in order; a connection and a BIO are given by
  their numbers. \<open>ssl_bio_ivar\<close> is the instance variable \<open>@__um_bio__\<close> of a connection.
\<close>

datatype ex_data = Machine_ptr | Word_data int

datatype ssl_call =
    BIO_meth_new
  | BIO_new nat
  | BIO_set_ex_data nat nat ex_data
  | BIO_up_ref nat
  | SSL_set0_rbio nat nat
  | SSL_set0_wbio nat nat

record um_heap =
  mutexes :: "nat \<Rightarrow> um_mutex"
  queues :: "nat \<Rightarrow> um_queue"
  entries :: "addr \<Rightarrow> um_queue_entry"
  entries_live :: "addr set"
  entry_fresh :: addr
  async_ops :: "nat \<Rightarrow> um_async_op"
  async_fresh :: nat
  ios :: "nat \<Rightarrow> um_io"
  bio_method_set :: bool
  ssl_bio_ivar :: "nat \<Rightarrow> bool"
  ssl_calls :: "ssl_call list"

section \<open>Submission queue entries\<close>

text \<open>
  What the code asks io_uring to do: one constructor per \<open>io_uring_prep_\<close> call it makes, with
  the arguments in the call's order. Memory the kernel is given is an opaque \<^typ>\<open>nat\<close>, with the offset
  where the code computes one; the iovec array of a vectored write is its contents, and the control
  message of \<open>sendmsg\<close> the file descriptor it carries, if it was filled in.
\<close>

datatype sqe_op =
    Prep_unset
  | Prep_nop
  | Prep_cancel addr
  | Prep_timeout rat bool
  | Prep_read int nat int nat int
  | Prep_write int nat nat int
  | Prep_writev int "(nat \<times> nat) list" int
  | Prep_close int
  | Prep_accept int bool
  | Prep_socket int int int nat
  | Prep_connect int nat nat
  | Prep_send int nat nat int
  | Prep_sendv int "(nat \<times> nat) list"
  | Prep_recv int nat nat int
  | Prep_bind int nat nat
  | Prep_listen int int
  | Prep_cmd_sock bool int int int
  | Prep_shutdown int int
  | Prep_sendmsg int "int option" int
  | Prep_recvmsg int "int option" int
  | Prep_open nat int int
  | Prep_poll_add int nat
  | Prep_waitid int int int
  | Prep_statx int nat int nat
  | Prep_splice int int nat
  | Prep_tee int int nat
  | Prep_fsync int
  | Prep_futex_wait nat nat
  | Prep_futex_wake nat nat
  | Prep_read_multishot int nat
  | Prep_recv_multishot int nat

record sqe =
  user_data :: "addr option"
  sqe_op :: sqe_op
  sqe_skip_success :: bool

section \<open>The machine\<close>

text \<open>
  \<open>struct um\<close>. The ring itself belongs to liburing and the kernel: \<open>sqes\<close> records, in order,
  the submission entries the code has filled and the kernel has not taken, and \<open>sqe_slots\<close> is how
  many more entries \<open>io_uring_get_sqe\<close> will hand out before it answers NULL. \<open>br_staged\<close> and \<open>br_published\<close> are the buffer ring as liburing documents it: an added
  buffer sits at an offset from the tail and becomes visible to the kernel when the tail advances.
  \<open>iovecs_live\<close> names the iovec arrays that are allocated (the next one is \<open>iovecs_fresh\<close>), \<open>rbufs\<close> the Ruby buffers by object, \<open>heap\<close> the structs of the other objects.
  The union at the end of \<open>struct um_op\<close> is a field per member: an operation uses only one of them.
\<close>

record um =
  metrics :: um_metrics
  ring_initialized :: bool
  test_mode :: bool
  sidecar_mode :: bool
  sidecar_thread :: bool
  profile_mode :: bool
  um_mark :: nat
  um_size :: nat
  sqpoll_mode :: bool
  ops :: "addr \<Rightarrow> um_op"
  op_fresh :: addr
  transient_head :: "addr option"
  pending_fibers :: "fiber set"
  runqueue_head :: "addr option"
  runqueue_tail :: "addr option"
  op_freelist :: "addr option"
  results :: "addr \<Rightarrow> um_op_result"
  result_fresh :: addr
  result_freelist :: "addr option"
  segments :: "addr \<Rightarrow> um_segment"
  segment_fresh :: addr
  segment_freelist :: "addr option"
  buffers :: "addr \<Rightarrow> um_buffer option"
  buffer_fresh :: addr
  bp_buffer_size :: nat
  bp_commit_level :: nat
  bp_commited_buffers :: "nat \<Rightarrow> addr option"
  bp_avail_bid_bitmap :: "u64 list"
  bp_buffer_freelist :: "addr option"
  bp_buffer_count :: nat
  bp_total_commited :: nat
  br_staged :: "nat \<Rightarrow> (addr \<times> nat \<times> nat) option"
  br_published :: "(addr \<times> nat \<times> nat) list"
  iovecs_live :: "nat set"
  iovecs_fresh :: nat
  rbufs :: "nat \<Rightarrow> rbuf"
  heap :: um_heap
  sqes :: "sqe list"
  sqe_slots :: nat
  current_fiber :: fiber

section \<open>Zeroed structs\<close>

text \<open>
  What \<open>memset(p, 0, sizeof *p)\<close> leaves: the enum constant 0 is \<open>OP_UNDEFINED\<close>, a zeroed
  \<open>VALUE\<close> is \<open>false\<close>, which no operation reads before it is set and which is written
  \<open>Qnil\<close> here. \<open>um_zero\<close> is a machine with nothing allocated.
\<close>

definition result_zero :: um_op_result where
  "result_zero = \<lparr>res = 0, res_flags = 0, res_segment = None, res_next = None\<rparr>"

definition op_zero :: um_op where
  "op_zero = \<lparr>op_prev = None, op_next = None, op_kind = OP_UNDEFINED, op_flags = 0, op_ref_count = 0,
     op_fiber = Qnil, op_value = Qnil, op_async_op = Qnil, op_result = result_zero,
     op_result_tail = None, op_result_count = 0, op_ts = 0, op_iovecs = None,
     op_siginfo = (0, 0, 0), op_int_value = 0,
     op_bp_commit_level = 0\<rparr>"

definition segment_zero :: um_segment where
  "segment_zero = \<lparr>seg_ptr = 0, seg_len = 0, seg_buffer = None, seg_next = None\<rparr>"

definition metrics_zero :: um_metrics where
  "metrics_zero = \<lparr>total_ops = 0, total_switches = 0, total_waits = 0, ops_pending = 0,
     ops_unsubmitted = 0, ops_runqueue = 0, ops_free = 0, ops_transient = 0, buffers_allocated = 0,
     buffers_free = 0, segments_free = 0, buffer_space_allocated = 0, buffer_space_commited = 0,
     time_total_wait = 0, time_last_cpu = 0, time_first_cpu = 0\<rparr>"

definition heap_zero :: um_heap where
  "heap_zero = \<lparr>
     mutexes = (\<lambda>_. \<lparr>mutex_state = 0, mutex_waiters = 0\<rparr>),
     queues = (\<lambda>_. \<lparr>queue_self = Qnil, queue_head = None, queue_tail = None, queue_free_head = None,
                      queue_waiters = 0, queue_state = 0, queue_count = 0\<rparr>),
     entries = (\<lambda>_. \<lparr>entry_prev = None, entry_next = None, entry_value = Qnil\<rparr>),
     entries_live = {}, entry_fresh = 0,
     async_ops = (\<lambda>_. \<lparr>async_op_op = None\<rparr>), async_fresh = 0,
     ios = (\<lambda>_. \<lparr>io_self = Qnil, io_machine = False, io_mode = IO_FD, io_fd = 0, io_target = 0, io_working_buffer = None,
                   io_op = None, io_head = None, io_tail = None, io_consumed_bytes = 0,
                   io_pending_bytes = 0, io_pos = 0, io_eof = False\<rparr>),
     bio_method_set = False, ssl_bio_ivar = (\<lambda>_. False), ssl_calls = []\<rparr>"

definition um_zero :: um where
  "um_zero = \<lparr>metrics = metrics_zero, ring_initialized = False, test_mode = False,
     sidecar_mode = False, sidecar_thread = False, profile_mode = False, um_mark = 0,
     um_size = 0, sqpoll_mode = False, ops = (\<lambda>_. op_zero), op_fresh = 0,
     transient_head = None, pending_fibers = {}, runqueue_head = None, runqueue_tail = None,
     op_freelist = None, results = (\<lambda>_. result_zero), result_fresh = 0, result_freelist = None,
     segments = (\<lambda>_. segment_zero), segment_fresh = 0, segment_freelist = None,
     buffers = (\<lambda>_. None), buffer_fresh = 0, bp_buffer_size = 0, bp_commit_level = 0,
     bp_commited_buffers = (\<lambda>_. None), bp_avail_bid_bitmap = [], bp_buffer_freelist = None,
     bp_buffer_count = 0, bp_total_commited = 0, br_staged = (\<lambda>_. None), br_published = [],
     iovecs_live = {}, iovecs_fresh = 0, rbufs = (\<lambda>_. ROther), heap = heap_zero,
     sqes = [], sqe_slots = 0, current_fiber = 0\<rparr>"

text \<open>
  What \<open>memset\<close> of the machine's struct leaves of the whole state: the memory the struct pointed to, the
  other objects and the current fiber are as they were, and its pointers into that memory are gone.
\<close>

definition um_memset :: "um \<Rightarrow> um" where
  "um_memset m = um_zero\<lparr>ops := ops m, op_fresh := op_fresh m, results := results m, result_fresh := result_fresh m,
     segments := segments m, segment_fresh := segment_fresh m, buffers := buffers m, buffer_fresh := buffer_fresh m,
     iovecs_live := iovecs_live m, iovecs_fresh := iovecs_fresh m, rbufs := rbufs m, heap := heap m,
     current_fiber := current_fiber m\<rparr>"

section \<open>Field updates used throughout\<close>

definition upd_op :: "addr \<Rightarrow> (um_op \<Rightarrow> um_op) \<Rightarrow> um \<Rightarrow> um" where
  "upd_op a f m = m\<lparr>ops := (ops m)(a := f (ops m a))\<rparr>"

definition upd_metrics :: "(um_metrics \<Rightarrow> um_metrics) \<Rightarrow> um \<Rightarrow> um" where
  "upd_metrics f m = m\<lparr>metrics := f (metrics m)\<rparr>"

definition set_flags :: "addr \<Rightarrow> u32 \<Rightarrow> um \<Rightarrow> um" where
  "set_flags a f = upd_op a (\<lambda>o'. o'\<lparr>op_flags := op_flags o' OR f\<rparr>)"

definition clear_flags :: "addr \<Rightarrow> u32 \<Rightarrow> um \<Rightarrow> um" where
  "clear_flags a f = upd_op a (\<lambda>o'. o'\<lparr>op_flags := op_flags o' AND NOT f\<rparr>)"

definition op_has :: "um \<Rightarrow> addr \<Rightarrow> u32 \<Rightarrow> bool" where
  "op_has m a f \<longleftrightarrow> has_flag (op_flags (ops m a)) f"

lemmas um_upd_defs = upd_op_def upd_metrics_def set_flags_def clear_flags_def op_has_def

text \<open>Reading a field through an update of another.\<close>

lemma upd_op_simps [simp]:
  "ops (upd_op a f m) = (ops m)(a := f (ops m a))"
  "metrics (upd_op a f m) = metrics m"
  "ring_initialized (upd_op a f m) = ring_initialized m"
  "test_mode (upd_op a f m) = test_mode m"
  "sidecar_mode (upd_op a f m) = sidecar_mode m"
  "sidecar_thread (upd_op a f m) = sidecar_thread m"
  "profile_mode (upd_op a f m) = profile_mode m"
  "um_mark (upd_op a f m) = um_mark m"
  "um_size (upd_op a f m) = um_size m"
  "sqpoll_mode (upd_op a f m) = sqpoll_mode m"
  "op_fresh (upd_op a f m) = op_fresh m"
  "transient_head (upd_op a f m) = transient_head m"
  "pending_fibers (upd_op a f m) = pending_fibers m"
  "runqueue_head (upd_op a f m) = runqueue_head m"
  "runqueue_tail (upd_op a f m) = runqueue_tail m"
  "op_freelist (upd_op a f m) = op_freelist m"
  "results (upd_op a f m) = results m"
  "result_fresh (upd_op a f m) = result_fresh m"
  "result_freelist (upd_op a f m) = result_freelist m"
  "segments (upd_op a f m) = segments m"
  "segment_fresh (upd_op a f m) = segment_fresh m"
  "segment_freelist (upd_op a f m) = segment_freelist m"
  "buffers (upd_op a f m) = buffers m"
  "buffer_fresh (upd_op a f m) = buffer_fresh m"
  "bp_buffer_size (upd_op a f m) = bp_buffer_size m"
  "bp_commit_level (upd_op a f m) = bp_commit_level m"
  "bp_commited_buffers (upd_op a f m) = bp_commited_buffers m"
  "bp_avail_bid_bitmap (upd_op a f m) = bp_avail_bid_bitmap m"
  "bp_buffer_freelist (upd_op a f m) = bp_buffer_freelist m"
  "bp_buffer_count (upd_op a f m) = bp_buffer_count m"
  "bp_total_commited (upd_op a f m) = bp_total_commited m"
  "br_staged (upd_op a f m) = br_staged m"
  "br_published (upd_op a f m) = br_published m"
  "iovecs_live (upd_op a f m) = iovecs_live m"
  "iovecs_fresh (upd_op a f m) = iovecs_fresh m"
  "rbufs (upd_op a f m) = rbufs m"
  "heap (upd_op a f m) = heap m"
  "sqes (upd_op a f m) = sqes m"
  "sqe_slots (upd_op a f m) = sqe_slots m"
  "current_fiber (upd_op a f m) = current_fiber m"
  by (simp_all add: upd_op_def)

lemma upd_metrics_simps [simp]:
  "metrics (upd_metrics f m) = f (metrics m)"
  "ring_initialized (upd_metrics f m) = ring_initialized m"
  "test_mode (upd_metrics f m) = test_mode m"
  "sidecar_mode (upd_metrics f m) = sidecar_mode m"
  "sidecar_thread (upd_metrics f m) = sidecar_thread m"
  "profile_mode (upd_metrics f m) = profile_mode m"
  "um_mark (upd_metrics f m) = um_mark m"
  "um_size (upd_metrics f m) = um_size m"
  "sqpoll_mode (upd_metrics f m) = sqpoll_mode m"
  "ops (upd_metrics f m) = ops m"
  "op_fresh (upd_metrics f m) = op_fresh m"
  "transient_head (upd_metrics f m) = transient_head m"
  "pending_fibers (upd_metrics f m) = pending_fibers m"
  "runqueue_head (upd_metrics f m) = runqueue_head m"
  "runqueue_tail (upd_metrics f m) = runqueue_tail m"
  "op_freelist (upd_metrics f m) = op_freelist m"
  "results (upd_metrics f m) = results m"
  "result_fresh (upd_metrics f m) = result_fresh m"
  "result_freelist (upd_metrics f m) = result_freelist m"
  "segments (upd_metrics f m) = segments m"
  "segment_fresh (upd_metrics f m) = segment_fresh m"
  "segment_freelist (upd_metrics f m) = segment_freelist m"
  "buffers (upd_metrics f m) = buffers m"
  "buffer_fresh (upd_metrics f m) = buffer_fresh m"
  "bp_buffer_size (upd_metrics f m) = bp_buffer_size m"
  "bp_commit_level (upd_metrics f m) = bp_commit_level m"
  "bp_commited_buffers (upd_metrics f m) = bp_commited_buffers m"
  "bp_avail_bid_bitmap (upd_metrics f m) = bp_avail_bid_bitmap m"
  "bp_buffer_freelist (upd_metrics f m) = bp_buffer_freelist m"
  "bp_buffer_count (upd_metrics f m) = bp_buffer_count m"
  "bp_total_commited (upd_metrics f m) = bp_total_commited m"
  "br_staged (upd_metrics f m) = br_staged m"
  "br_published (upd_metrics f m) = br_published m"
  "iovecs_live (upd_metrics f m) = iovecs_live m"
  "iovecs_fresh (upd_metrics f m) = iovecs_fresh m"
  "rbufs (upd_metrics f m) = rbufs m"
  "heap (upd_metrics f m) = heap m"
  "sqes (upd_metrics f m) = sqes m"
  "sqe_slots (upd_metrics f m) = sqe_slots m"
  "current_fiber (upd_metrics f m) = current_fiber m"
  by (simp_all add: upd_metrics_def)

lemma set_flags_simps [simp]:
  "ops (set_flags a g m) = (ops m)(a := (ops m a)\<lparr>op_flags := op_flags (ops m a) OR g\<rparr>)"
  "metrics (set_flags a g m) = metrics m"
  "ring_initialized (set_flags a g m) = ring_initialized m"
  "test_mode (set_flags a g m) = test_mode m"
  "sidecar_mode (set_flags a g m) = sidecar_mode m"
  "sidecar_thread (set_flags a g m) = sidecar_thread m"
  "profile_mode (set_flags a g m) = profile_mode m"
  "um_mark (set_flags a g m) = um_mark m"
  "um_size (set_flags a g m) = um_size m"
  "sqpoll_mode (set_flags a g m) = sqpoll_mode m"
  "op_fresh (set_flags a g m) = op_fresh m"
  "transient_head (set_flags a g m) = transient_head m"
  "pending_fibers (set_flags a g m) = pending_fibers m"
  "runqueue_head (set_flags a g m) = runqueue_head m"
  "runqueue_tail (set_flags a g m) = runqueue_tail m"
  "op_freelist (set_flags a g m) = op_freelist m"
  "results (set_flags a g m) = results m"
  "result_fresh (set_flags a g m) = result_fresh m"
  "result_freelist (set_flags a g m) = result_freelist m"
  "segments (set_flags a g m) = segments m"
  "segment_fresh (set_flags a g m) = segment_fresh m"
  "segment_freelist (set_flags a g m) = segment_freelist m"
  "buffers (set_flags a g m) = buffers m"
  "buffer_fresh (set_flags a g m) = buffer_fresh m"
  "bp_buffer_size (set_flags a g m) = bp_buffer_size m"
  "bp_commit_level (set_flags a g m) = bp_commit_level m"
  "bp_commited_buffers (set_flags a g m) = bp_commited_buffers m"
  "bp_avail_bid_bitmap (set_flags a g m) = bp_avail_bid_bitmap m"
  "bp_buffer_freelist (set_flags a g m) = bp_buffer_freelist m"
  "bp_buffer_count (set_flags a g m) = bp_buffer_count m"
  "bp_total_commited (set_flags a g m) = bp_total_commited m"
  "br_staged (set_flags a g m) = br_staged m"
  "br_published (set_flags a g m) = br_published m"
  "iovecs_live (set_flags a g m) = iovecs_live m"
  "iovecs_fresh (set_flags a g m) = iovecs_fresh m"
  "rbufs (set_flags a g m) = rbufs m"
  "heap (set_flags a g m) = heap m"
  "sqes (set_flags a g m) = sqes m"
  "sqe_slots (set_flags a g m) = sqe_slots m"
  "current_fiber (set_flags a g m) = current_fiber m"
  by (simp_all add: set_flags_def)

lemma clear_flags_simps [simp]:
  "ops (clear_flags a g m) = (ops m)(a := (ops m a)\<lparr>op_flags := op_flags (ops m a) AND NOT g\<rparr>)"
  "metrics (clear_flags a g m) = metrics m"
  "ring_initialized (clear_flags a g m) = ring_initialized m"
  "test_mode (clear_flags a g m) = test_mode m"
  "sidecar_mode (clear_flags a g m) = sidecar_mode m"
  "sidecar_thread (clear_flags a g m) = sidecar_thread m"
  "profile_mode (clear_flags a g m) = profile_mode m"
  "um_mark (clear_flags a g m) = um_mark m"
  "um_size (clear_flags a g m) = um_size m"
  "sqpoll_mode (clear_flags a g m) = sqpoll_mode m"
  "op_fresh (clear_flags a g m) = op_fresh m"
  "transient_head (clear_flags a g m) = transient_head m"
  "pending_fibers (clear_flags a g m) = pending_fibers m"
  "runqueue_head (clear_flags a g m) = runqueue_head m"
  "runqueue_tail (clear_flags a g m) = runqueue_tail m"
  "op_freelist (clear_flags a g m) = op_freelist m"
  "results (clear_flags a g m) = results m"
  "result_fresh (clear_flags a g m) = result_fresh m"
  "result_freelist (clear_flags a g m) = result_freelist m"
  "segments (clear_flags a g m) = segments m"
  "segment_fresh (clear_flags a g m) = segment_fresh m"
  "segment_freelist (clear_flags a g m) = segment_freelist m"
  "buffers (clear_flags a g m) = buffers m"
  "buffer_fresh (clear_flags a g m) = buffer_fresh m"
  "bp_buffer_size (clear_flags a g m) = bp_buffer_size m"
  "bp_commit_level (clear_flags a g m) = bp_commit_level m"
  "bp_commited_buffers (clear_flags a g m) = bp_commited_buffers m"
  "bp_avail_bid_bitmap (clear_flags a g m) = bp_avail_bid_bitmap m"
  "bp_buffer_freelist (clear_flags a g m) = bp_buffer_freelist m"
  "bp_buffer_count (clear_flags a g m) = bp_buffer_count m"
  "bp_total_commited (clear_flags a g m) = bp_total_commited m"
  "br_staged (clear_flags a g m) = br_staged m"
  "br_published (clear_flags a g m) = br_published m"
  "iovecs_live (clear_flags a g m) = iovecs_live m"
  "iovecs_fresh (clear_flags a g m) = iovecs_fresh m"
  "rbufs (clear_flags a g m) = rbufs m"
  "heap (clear_flags a g m) = heap m"
  "sqes (clear_flags a g m) = sqes m"
  "sqe_slots (clear_flags a g m) = sqe_slots m"
  "current_fiber (clear_flags a g m) = current_fiber m"
  by (simp_all add: clear_flags_def)

end
