(* ===== verification/UM_Buffer_Pool.thy ===== *)
theory UM_Buffer_Pool
  imports UM_Machine
begin

text \<open>
  \<^verbatim>\<open>ext/um/um_buffer_pool.c\<close>: the pool of reference-counted buffers, the bitmap of
  available buffer ids, the buffers committed to the kernel's buffer ring, and the segments cut
  from them. An operation that would touch memory that is not allocated (an index outside the
  bitmap, a NULL or freed buffer) returns \<open>None\<close>; so does a loop that does not end. Assertions
  are compiled out in a Ruby extension (\<open>ruby/assert.h\<close> defines NDEBUG), so they are not steps
  of the model.
\<close>

section \<open>The bitmap of available buffer ids\<close>

text \<open>\<open>ffsll\<close>: one more than the index of the least significant bit set, 0 when there is none.\<close>

definition ffsll :: "u64 \<Rightarrow> nat" where
  "ffsll w = (case List.find (bit w) [0..<64] of None \<Rightarrow> 0 | Some i \<Rightarrow> Suc i)"

text \<open>
  The search loop. Its body is the statement \<open>if (word == word_count) return -1\<close> (there is no
  semicolon after the \<open>for\<close>): \<open>Inl\<close> is that return, \<open>Inr\<close> the index the loop stops at.
\<close>

function bitmap_scan :: "u64 list \<Rightarrow> nat \<Rightarrow> nat \<Rightarrow> (int + nat) option" where
  "bitmap_scan bm wc word =
     (if word < wc then
        if length bm \<le> word then None
        else if bm ! word = 0 then
          if word = wc then Some (Inl (-1)) else bitmap_scan bm wc (Suc word)
        else Some (Inr word)
      else Some (Inr word))"
  by pat_completeness auto
termination
  by (relation "measure (\<lambda>(bm, wc, word). wc - word)") auto

declare bitmap_scan.simps [simp del]

definition bitmap_find_first_set_bit :: "u64 list \<Rightarrow> nat \<Rightarrow> int option" where
  "bitmap_find_first_set_bit bm wc = do {
     r \<leftarrow> bitmap_scan bm wc 0;
     case r of
       Inl v \<Rightarrow> Some v
     | Inr word \<Rightarrow>
         if word < length bm then Some (int (word * 64 + ffsll (bm ! word)) - 1) else None
   }"

text \<open>
  \<open>1U << bit\<close> is a 32-bit shift. C leaves it undefined for \<open>bit \<ge> 32\<close>; the value here is the one
  the shift instructions of x86-64 and AArch64 give, which use the count modulo 32. The lemma
  \<open>get_available_bid_pool\<close> shows that the pool, while fewer than 512 buffers are committed,
  never shifts by 32 or more.
\<close>

definition shl_1U :: "nat \<Rightarrow> u32" where
  "shl_1U n = push_bit (n mod 32) 1"

text \<open>The 32-bit operands are zero-extended to the width of the 64-bit word.\<close>

definition bitmap_set :: "u64 list \<Rightarrow> nat \<Rightarrow> u64 list option" where
  "bitmap_set bm idx =
     (let word = idx div 64; b = idx mod 64 in
      if word < length bm then Some (bm[word := bm ! word OR ucast (shl_1U b)]) else None)"

definition bitmap_unset :: "u64 list \<Rightarrow> nat \<Rightarrow> u64 list option" where
  "bitmap_unset bm idx =
     (let word = idx div 64; b = idx mod 64 in
      if word < length bm then Some (bm[word := bm ! word AND ucast (NOT (shl_1U b))]) else None)"

definition get_available_bid :: "um \<Rightarrow> int option" where
  "get_available_bid m = bitmap_find_first_set_bit (bp_avail_bid_bitmap m) BP_AVAIL_BID_BITMAP_WORDS"

section \<open>Buffers\<close>

definition upd_buffer :: "addr \<Rightarrow> um_buffer \<Rightarrow> um \<Rightarrow> um" where
  "upd_buffer a b m = m\<lparr>buffers := (buffers m)(a := Some b)\<rparr>"

text \<open>The memory \<open>malloc\<close> returns is fresh; what \<open>buffer_alloc\<close> leaves unset, its caller sets.\<close>

definition buffer_alloc :: "um \<Rightarrow> addr \<times> um" where
  "buffer_alloc m =
     (let a = buffer_fresh m in
      (a, upd_metrics
            (\<lambda>x. x\<lparr>buffers_allocated := buffers_allocated x + 1,
                  buffer_space_allocated := buffer_space_allocated x + of_nat (bp_buffer_size m)\<rparr>)
            (m\<lparr>buffer_fresh := Suc a,
               buffers := (buffers m)(a := Some \<lparr>buf_len = bp_buffer_size m, buf_pos = 0,
                                                 buf_ref_count = 0, buf_next = None\<rparr>)\<rparr>)))"

definition bp_buffer_checkout :: "um \<Rightarrow> (addr \<times> um) option" where
  "bp_buffer_checkout m = do {
     (a, m) \<leftarrow> (case bp_buffer_freelist m of
         Some a \<Rightarrow> do {
           b \<leftarrow> buffers m a;
           Some (a, upd_metrics (\<lambda>x. x\<lparr>buffers_free := buffers_free x - 1\<rparr>)
                      (m\<lparr>bp_buffer_freelist := buf_next b\<rparr>))
         }
       | None \<Rightarrow> Some (buffer_alloc m));
     b \<leftarrow> buffers m a;
     Some (a, upd_buffer a (b\<lparr>buf_ref_count := buf_ref_count b + 1, buf_pos := 0, buf_next := None\<rparr>) m)
   }"

definition buffer_free :: "um \<Rightarrow> addr \<Rightarrow> um_buffer \<Rightarrow> um" where
  "buffer_free m a b =
     (if \<not> ring_initialized m \<or> buf_len b \<noteq> bp_buffer_size m then
        upd_metrics
          (\<lambda>x. x\<lparr>buffers_allocated := buffers_allocated x - 1,
                buffer_space_allocated := buffer_space_allocated x - of_nat (buf_len b)\<rparr>)
          (m\<lparr>buffers := (buffers m)(a := None)\<rparr>)
      else
        upd_metrics (\<lambda>x. x\<lparr>buffers_free := buffers_free x + 1\<rparr>)
          (upd_buffer a (b\<lparr>buf_next := bp_buffer_freelist m\<rparr>) m\<lparr>bp_buffer_freelist := Some a\<rparr>))"

definition bp_buffer_checkin :: "um \<Rightarrow> addr \<Rightarrow> um option" where
  "bp_buffer_checkin m a = do {
     b \<leftarrow> buffers m a;
     let b' = b\<lparr>buf_ref_count := buf_ref_count b - 1\<rparr>;
     let m' = upd_buffer a b' m;
     Some (if buf_ref_count b' = 0 then buffer_free m' a b' else m')
   }"

partial_function (option) bp_discard_buffer_freelist :: "um \<Rightarrow> um option" where
  "bp_discard_buffer_freelist m =
     (case bp_buffer_freelist m of
        None \<Rightarrow> Some m
      | Some a \<Rightarrow>
          (case buffers m a of
             None \<Rightarrow> None
           | Some b \<Rightarrow>
               bp_discard_buffer_freelist
                 (upd_metrics
                    (\<lambda>x. x\<lparr>buffers_allocated := buffers_allocated x - 1,
                          buffer_space_allocated := buffer_space_allocated x - of_nat (buf_len b)\<rparr>)
                    (m\<lparr>buffers := (buffers m)(a := None), bp_buffer_freelist := buf_next b\<rparr>))))"

text \<open>\<open>ret\<close> is what \<open>io_uring_setup_buf_ring\<close> reports: \<open>None\<close> for a ring, \<open>Some e\<close> for a failure.\<close>

definition bp_setup :: "int option \<Rightarrow> um \<Rightarrow> um_error + um" where
  "bp_setup ret m =
     (case ret of
        Some e \<Rightarrow> Inl (SysErr e)
      | None \<Rightarrow>
          Inr (m\<lparr>br_staged := (\<lambda>_. None), br_published := [],
                 bp_buffer_size := BP_INITIAL_BUFFER_SIZE,
                 bp_commit_level := BP_INITIAL_COMMIT_LEVEL,
                 bp_commited_buffers := (\<lambda>_. None),
                 bp_avail_bid_bitmap := replicate BP_AVAIL_BID_BITMAP_WORDS (- 1),
                 bp_buffer_freelist := None,
                 bp_buffer_count := 0,
                 bp_total_commited := 0\<rparr>))"

fun checkin_slots :: "nat list \<Rightarrow> um \<Rightarrow> um option" where
  "checkin_slots [] m = Some m"
| "checkin_slots (i # is) m =
     (case bp_commited_buffers m i of
        None \<Rightarrow> checkin_slots is m
      | Some a \<Rightarrow> do { m' \<leftarrow> bp_buffer_checkin m a; checkin_slots is m' })"

definition bp_teardown :: "um \<Rightarrow> um option" where
  "bp_teardown m = do {
     m \<leftarrow> bp_discard_buffer_freelist m;
     m \<leftarrow> checkin_slots [0..<BP_BR_ENTRIES] m;
     Some (m\<lparr>bp_commited_buffers := (\<lambda>_. None)\<rparr>)
   }"

section \<open>Committing buffers to the kernel\<close>

text \<open>liburing's buffer ring: stage a buffer at an offset from the tail, then advance the tail.\<close>

definition io_uring_buf_ring_add :: "addr \<Rightarrow> nat \<Rightarrow> nat \<Rightarrow> nat \<Rightarrow> um \<Rightarrow> um" where
  "io_uring_buf_ring_add a len bid off m = m\<lparr>br_staged := (br_staged m)(off \<mapsto> (a, len, bid))\<rparr>"

definition io_uring_buf_ring_advance :: "nat \<Rightarrow> um \<Rightarrow> um" where
  "io_uring_buf_ring_advance n m =
     m\<lparr>br_published := br_published m @ List.map_filter (br_staged m) [0..<n], br_staged := (\<lambda>_. None)\<rparr>"

definition commit_buffer :: "um \<Rightarrow> nat \<Rightarrow> (bool \<times> um) option" where
  "commit_buffer m added = do {
     bid \<leftarrow> get_available_bid m;
     if bid < 0 then Some (False, m)
     else do {
       let bid = nat bid;
       bm \<leftarrow> bitmap_unset (bp_avail_bid_bitmap m) bid;
       (a, m) \<leftarrow> bp_buffer_checkout (m\<lparr>bp_avail_bid_bitmap := bm\<rparr>);
       b \<leftarrow> buffers m a;
       let b = b\<lparr>buf_ref_count := 1\<rparr>;
       let m = upd_buffer a b m;
       let m = m\<lparr>bp_buffer_count := wrap_add 32 (bp_buffer_count m) 1,
                 bp_commited_buffers := (bp_commited_buffers m)(bid \<mapsto> a),
                 bp_total_commited := wrap_add 64 (bp_total_commited m) (buf_len b)\<rparr>;
       let m = upd_metrics
                 (\<lambda>x. x\<lparr>buffer_space_commited := buffer_space_commited x + of_nat (buf_len b)\<rparr>) m;
       Some (True, io_uring_buf_ring_add a (buf_len b) bid added m)
     }
   }"

definition uncommit_buffer :: "um \<Rightarrow> addr \<Rightarrow> nat \<Rightarrow> um option" where
  "uncommit_buffer m a bid = do {
     bm \<leftarrow> bitmap_set (bp_avail_bid_bitmap m) bid;
     bp_buffer_checkin
       (m\<lparr>bp_buffer_count := wrap_sub 32 (bp_buffer_count m) 1,
          bp_commited_buffers := (bp_commited_buffers m)(bid := None),
          bp_avail_bid_bitmap := bm\<rparr>) a
   }"

definition get_buffer :: "um \<Rightarrow> nat \<Rightarrow> addr option" where
  "get_buffer m bid = bp_commited_buffers m bid"

definition should_commit_more_p :: "um \<Rightarrow> bool" where
  "should_commit_more_p m \<longleftrightarrow>
     bp_buffer_count m < BP_BR_ENTRIES \<and> bp_total_commited m < bp_commit_level m"

partial_function (option) commit_loop :: "um \<Rightarrow> nat \<Rightarrow> (nat \<times> um) option" where
  "commit_loop m added =
     (if should_commit_more_p m then
        Option.bind (commit_buffer m added)
          (\<lambda>r. commit_loop (snd r) (if fst r then Suc added else added))
      else Some (added, m))"

definition bp_ensure_commit_level :: "um \<Rightarrow> um option" where
  "bp_ensure_commit_level m =
     (if bp_total_commited m > bp_commit_level m div 2 then Some m
      else do {
        (added, m) \<leftarrow> commit_loop m 0;
        Some (if added \<noteq> 0 then io_uring_buf_ring_advance added m else m)
      })"

partial_function (option) grow_buffer_size :: "nat \<Rightarrow> nat \<Rightarrow> nat option" where
  "grow_buffer_size sz level =
     (if sz < level div 4 then grow_buffer_size (wrap_mul 64 sz 2) level else Some sz)"

definition bp_handle_enobufs :: "um \<Rightarrow> (um_error + um) option" where
  "bp_handle_enobufs m =
     (if BP_MAX_COMMIT_LEVEL \<le> bp_commit_level m then Some (Inl (UMError ''Buffer starvation''))
      else do {
        let level = wrap_mul 64 (bp_commit_level m) 2;
        sz \<leftarrow> grow_buffer_size (bp_buffer_size m) level;
        m \<leftarrow> bp_discard_buffer_freelist (m\<lparr>bp_commit_level := level, bp_buffer_size := sz\<rparr>);
        Some (Inr m)
      })"

section \<open>Segments\<close>

definition UM_SEGMENT_ALLOC_BATCH_SIZE :: nat where "UM_SEGMENT_ALLOC_BATCH_SIZE = 256"

definition segment_alloc :: "um \<Rightarrow> addr \<times> um" where
  "segment_alloc m =
     (case segment_freelist m of
        Some s \<Rightarrow>
          (s, upd_metrics (\<lambda>x. x\<lparr>segments_free := segments_free x - 1\<rparr>)
                (m\<lparr>segment_freelist := seg_next (segments m s),
                   segments := (segments m)(s := (segments m s)\<lparr>seg_next := None\<rparr>)\<rparr>))
      | None \<Rightarrow>
          (let n = segment_fresh m; e = n + UM_SEGMENT_ALLOC_BATCH_SIZE in
           (n, upd_metrics
                 (\<lambda>x. x\<lparr>segments_free := segments_free x + of_nat (UM_SEGMENT_ALLOC_BATCH_SIZE - 1)\<rparr>)
                 (m\<lparr>segment_fresh := e,
                    segments := (\<lambda>a. if n \<le> a \<and> a < e
                       then segment_zero
                         \<lparr>seg_next := (if n < a \<and> Suc a < e then Some (Suc a) else None)\<rparr>
                       else segments m a),
                    segment_freelist := Some (Suc n)\<rparr>))))"

definition um_segment_free :: "um \<Rightarrow> addr \<Rightarrow> um" where
  "um_segment_free m s =
     upd_metrics (\<lambda>x. x\<lparr>segments_free := segments_free x + 1\<rparr>)
       (m\<lparr>segments := (segments m)(s := (segments m s)\<lparr>seg_next := segment_freelist m\<rparr>),
          segment_freelist := Some s\<rparr>)"

definition bp_buffer_consume :: "um \<Rightarrow> addr \<Rightarrow> nat \<Rightarrow> (addr \<times> um) option" where
  "bp_buffer_consume m a len = do {
     b \<leftarrow> buffers m a;
     let (s, m) = segment_alloc m;
     let m = m\<lparr>segments := (segments m)
       (s := (segments m s)\<lparr>seg_ptr := buf_pos b, seg_len := len, seg_buffer := Some a\<rparr>)\<rparr>;
     Some (s, upd_buffer a (b\<lparr>buf_pos := wrap_add 64 (buf_pos b) len,
                              buf_ref_count := buf_ref_count b + 1\<rparr>) m)
   }"

text \<open>
  The segment for a completion with result \<open>r\<close> (not negative) and CQE flags \<open>flags\<close>, whose upper
  half is the id of the buffer the kernel used.
\<close>

definition bp_get_op_result_segment :: "um \<Rightarrow> nat \<Rightarrow> u32 \<Rightarrow> (addr option \<times> um) option" where
  "bp_get_op_result_segment m r flags =
     (if r = 0 then Some (None, m)
      else do {
        let bid = unat (drop_bit IORING_CQE_BUFFER_SHIFT flags);
        a \<leftarrow> get_buffer m bid;
        (s, m) \<leftarrow> bp_buffer_consume m a r;
        let m = m\<lparr>bp_total_commited := wrap_sub 64 (bp_total_commited m) r\<rparr>;
        let m = upd_metrics
                  (\<lambda>x. x\<lparr>buffer_space_commited := buffer_space_commited x - of_nat r\<rparr>) m;
        m \<leftarrow> bp_ensure_commit_level m;
        m \<leftarrow> (if \<not> has_flag flags IORING_CQE_F_BUF_MORE then uncommit_buffer m a bid else Some m);
        Some (Some s, m)
      })"

definition um_segment_checkin :: "um \<Rightarrow> addr \<Rightarrow> um option" where
  "um_segment_checkin m s = do {
     a \<leftarrow> seg_buffer (segments m s);
     m \<leftarrow> bp_buffer_checkin m a;
     Some (um_segment_free m s)
   }"

end
