(* ===== verification/UM_Pool_Inv.thy ===== *)
theory UM_Pool_Inv
  imports UM_Buffer_Pool
begin

text \<open>
  Correctness of the buffer pool: the bitmap search, the invariant that ties reference counts, the
  free list, the bitmap and the committed buffers together, and its preservation by every operation
  of \<^verbatim>\<open>um_buffer_pool.c\<close>.
\<close>

section \<open>The bitmap search\<close>

lemma ffsll_nonzero:
  assumes "w \<noteq> 0"
  obtains i where "i < 64" "ffsll w = Suc i" "bit w i" "\<And>j. j < i \<Longrightarrow> \<not> bit w j"
proof (cases "List.find (bit w) [0..<64]")
  case None
  then have "\<not> bit w j" for j
    by (cases "j < 64") (auto simp: find_None_iff bit_word.rep_eq impossible_bit)
  then have "w = 0" by (simp add: bit_eq_iff)
  with assms show ?thesis by contradiction
next
  case (Some i)
  then have "i < 64" "bit w i" "\<And>j. j < i \<Longrightarrow> \<not> bit w j"
    by (auto simp: find_Some_iff)
  with Some that show ?thesis by (simp add: ffsll_def)
qed

text \<open>The early return in the loop body is dead: the guard of the loop excludes its condition.\<close>

lemma bitmap_scan_result:
  "wc \<le> length bm \<Longrightarrow> word \<le> wc \<Longrightarrow>
   \<exists>k. bitmap_scan bm wc word = Some (Inr k) \<and> word \<le> k \<and> k \<le> wc \<and>
       (\<forall>j. word \<le> j \<and> j < k \<longrightarrow> bm ! j = 0) \<and> (k < wc \<longrightarrow> bm ! k \<noteq> 0)"
proof (induction "wc - word" arbitrary: word)
  case 0
  then show ?case by (intro exI [of _ word]) (subst bitmap_scan.simps, auto)
next
  case (Suc n)
  then have less: "word < wc" by simp
  show ?case
  proof (cases "bm ! word = 0")
    case True
    have n: "n = wc - Suc word" using Suc.hyps(2) by simp
    obtain k where k: "bitmap_scan bm wc (Suc word) = Some (Inr k)" "Suc word \<le> k" "k \<le> wc"
      "\<forall>j. Suc word \<le> j \<and> j < k \<longrightarrow> bm ! j = 0" "k < wc \<longrightarrow> bm ! k \<noteq> 0"
      using Suc.hyps(1) [OF n Suc.prems(1) Suc_leI [OF less]] by blast
    have "\<forall>j. word \<le> j \<and> j < k \<longrightarrow> bm ! j = 0"
      using k(4) True by (metis Suc_leI le_neq_implies_less)
    moreover have "bitmap_scan bm wc word = bitmap_scan bm wc (Suc word)"
      using True less Suc.prems by (subst bitmap_scan.simps) simp
    ultimately show ?thesis using k by (intro exI [of _ k]) simp
  next
    case False
    then show ?thesis using less Suc.prems by (auto simp: bitmap_scan.simps [of bm wc word])
  qed
qed

definition bid_avail :: "u64 list \<Rightarrow> nat \<Rightarrow> bool" where
  "bid_avail bm bid \<longleftrightarrow> bit (bm ! (bid div 64)) (bid mod 64)"

lemma find_first_set_bit_Some:
  assumes len: "length bm = wc" and ex: "\<exists>bid < 64 * wc. bid_avail bm bid"
  shows "\<exists>bid. bitmap_find_first_set_bit bm wc = Some (int bid) \<and> bid < 64 * wc \<and> bid_avail bm bid \<and>
    (\<forall>j < bid. \<not> bid_avail bm j)"
proof -
  obtain k where scan: "bitmap_scan bm wc 0 = Some (Inr k)" and k: "k \<le> wc"
    and zero: "\<And>j. j < k \<Longrightarrow> bm ! j = 0" and nz: "k < wc \<Longrightarrow> bm ! k \<noteq> 0"
    using bitmap_scan_result [of wc bm 0] len by auto
  from ex obtain b where b: "b < 64 * wc" "bid_avail bm b" by blast
  have "bm ! (b div 64) \<noteq> 0" using b by (auto simp: bid_avail_def)
  moreover have "b div 64 < wc" using b by (simp add: less_mult_imp_div_less mult.commute)
  ultimately have kwc: "k < wc" using zero k by (metis le_neq_implies_less)
  from ffsll_nonzero [OF nz [OF kwc]] obtain i where i: "i < 64" "ffsll (bm ! k) = Suc i"
    "bit (bm ! k) i" "\<And>j. j < i \<Longrightarrow> \<not> bit (bm ! k) j" by blast
  let ?bid = "k * 64 + i"
  have res: "bitmap_find_first_set_bit bm wc = Some (int ?bid)"
    using scan i kwc len by (simp add: bitmap_find_first_set_bit_def)
  have "?bid < 64 * wc" using i kwc by linarith
  moreover have "bid_avail bm ?bid" using i by (simp add: bid_avail_def)
  moreover have "\<not> bid_avail bm j" if "j < ?bid" for j
  proof (cases "j div 64 = k")
    case True
    then have "j mod 64 < i" using that by (metis add.commute add_less_cancel_right mod_mult_div_eq
        mult.commute)
    then show ?thesis using True i by (simp add: bid_avail_def)
  next
    case False
    have "j div 64 < Suc k" using that i by linarith
    then have "j div 64 < k" using False by simp
    then show ?thesis using zero by (simp add: bid_avail_def)
  qed
  ultimately show ?thesis using res by blast
qed

lemma find_first_set_bit_exhausted:
  assumes len: "length bm = wc" and none: "\<And>i. i < wc \<Longrightarrow> bm ! i = 0"
  shows "bitmap_find_first_set_bit bm wc = None"
proof -
  obtain k where scan: "bitmap_scan bm wc 0 = Some (Inr k)" and k: "k \<le> wc"
    and nz: "k < wc \<Longrightarrow> bm ! k \<noteq> 0"
    using bitmap_scan_result [of wc bm 0] len by auto
  then have "k = wc" using none by (metis le_neq_implies_less)
  then show ?thesis using scan len by (simp add: bitmap_find_first_set_bit_def)
qed

lemma bit_unset_word:
  "n < 32 \<Longrightarrow> bit ((w :: u64) AND ucast (NOT (shl_1U n))) k \<longleftrightarrow> bit w k \<and> k < 32 \<and> k \<noteq> n"
  by (cases "k < 64") (auto simp: shl_1U_def bit_simps dest: bit_imp_le_length)

lemma bit_set_word:
  "n < 32 \<Longrightarrow> bit ((w :: u64) OR ucast (shl_1U n)) k \<longleftrightarrow> bit w k \<or> k = n"
  by (cases "k < 64") (auto simp: shl_1U_def bit_simps dest: bit_imp_le_length)

lemma div_mod_64_eq: "(a :: nat) div 64 = b div 64 \<Longrightarrow> a mod 64 = b mod 64 \<Longrightarrow> a = b"
  by (metis mult_div_mod_eq)

lemma bid_avail_update:
  "idx div 64 < length bm \<Longrightarrow>
   bid_avail (bm[idx div 64 := w]) bid \<longleftrightarrow>
     (if bid div 64 = idx div 64 then bit w (bid mod 64) else bid_avail bm bid)"
  by (simp add: bid_avail_def nth_list_update)

lemma bitmap_unset_avail:
  assumes "idx div 64 < length bm" "idx mod 64 < 32"
  shows "\<exists>bm'. bitmap_unset bm idx = Some bm' \<and> length bm' = length bm \<and>
    (\<forall>bid. bid_avail bm' bid \<longleftrightarrow>
      bid_avail bm bid \<and> (bid div 64 = idx div 64 \<longrightarrow> bid mod 64 < 32 \<and> bid \<noteq> idx))"
proof -
  have "bid_avail (bm[idx div 64 := bm ! (idx div 64) AND ucast (NOT (shl_1U (idx mod 64)))]) bid \<longleftrightarrow>
      bid_avail bm bid \<and> (bid div 64 = idx div 64 \<longrightarrow> bid mod 64 < 32 \<and> bid \<noteq> idx)" for bid
    unfolding bid_avail_update [OF assms(1)] bit_unset_word [OF assms(2)]
    using div_mod_64_eq [of bid idx] by (auto simp: bid_avail_def)
  then show ?thesis using assms(1) by (simp add: bitmap_unset_def Let_def)
qed

lemma bitmap_set_avail:
  assumes "idx div 64 < length bm" "idx mod 64 < 32"
  shows "\<exists>bm'. bitmap_set bm idx = Some bm' \<and> length bm' = length bm \<and>
    (\<forall>bid. bid_avail bm' bid \<longleftrightarrow> bid_avail bm bid \<or> bid = idx)"
proof -
  have "bid_avail (bm[idx div 64 := bm ! (idx div 64) OR ucast (shl_1U (idx mod 64))]) bid \<longleftrightarrow>
      bid_avail bm bid \<or> bid = idx" for bid
    unfolding bid_avail_update [OF assms(1)] bit_set_word [OF assms(2)]
    using div_mod_64_eq [of bid idx] by (auto simp: bid_avail_def)
  then show ?thesis using assms(1) by (simp add: bitmap_set_def Let_def)
qed

section \<open>The invariant of the pool\<close>

text \<open>
  \<open>ext a\<close> counts the references to buffer \<open>a\<close> that are held outside the pool (segments and
  working buffers); a committed buffer has one more, held by its slot. \<open>fl\<close> is the free list.
\<close>

definition bnext :: "um \<Rightarrow> addr \<Rightarrow> addr option" where
  "bnext m a = (case buffers m a of None \<Rightarrow> None | Some b \<Rightarrow> buf_next b)"

definition refs :: "um \<Rightarrow> (addr \<Rightarrow> nat) \<Rightarrow> addr \<Rightarrow> nat" where
  "refs m ext a = ext a + (if a \<in> ran (bp_commited_buffers m) then 1 else 0)"

definition free_inv :: "um \<Rightarrow> addr list \<Rightarrow> bool" where
  "free_inv m fl \<longleftrightarrow> chain (bnext m) (bp_buffer_freelist m) fl \<and>
     (\<forall>a \<in> set fl. \<exists>b. buffers m a = Some b \<and> buf_len b = bp_buffer_size m)"

definition buffer_ok :: "um \<Rightarrow> (addr \<Rightarrow> nat) \<Rightarrow> addr list \<Rightarrow> addr \<Rightarrow> bool" where
  "buffer_ok m ext fl a \<longleftrightarrow>
     (case buffers m a of
        None \<Rightarrow> refs m ext a = 0
      | Some b \<Rightarrow> a < buffer_fresh m \<and> buf_pos b \<le> buf_len b \<and> refs m ext a < 2 ^ 32 \<and>
          buf_ref_count b = of_nat (refs m ext a) \<and> (refs m ext a = 0 \<longleftrightarrow> a \<in> set fl))"

definition ref_inv :: "um \<Rightarrow> (addr \<Rightarrow> nat) \<Rightarrow> addr list \<Rightarrow> bool" where
  "ref_inv m ext fl \<longleftrightarrow> (\<forall>a. buffer_ok m ext fl a)"

definition remaining :: "um \<Rightarrow> nat \<Rightarrow> nat" where
  "remaining m bid =
     (case bp_commited_buffers m bid of
        None \<Rightarrow> 0
      | Some a \<Rightarrow> (case buffers m a of None \<Rightarrow> 0 | Some b \<Rightarrow> buf_len b - buf_pos b))"

definition bitmap_inv :: "um \<Rightarrow> bool" where
  "bitmap_inv m \<longleftrightarrow> length (bp_avail_bid_bitmap m) = 16 \<and>
     (\<forall>bid. bp_commited_buffers m bid \<noteq> None \<longrightarrow> bid < 1024 \<and> bid mod 64 < 32) \<and>
     (\<forall>bid < 1024. bid mod 64 < 32 \<longrightarrow>
        (bid_avail (bp_avail_bid_bitmap m) bid \<longleftrightarrow> bp_commited_buffers m bid = None)) \<and>
     (\<forall>bid < 1024. 32 \<le> bid mod 64 \<longrightarrow> bid_avail (bp_avail_bid_bitmap m) bid \<longrightarrow>
        bid_avail (bp_avail_bid_bitmap m) (64 * (bid div 64)))"

definition slot_inv :: "um \<Rightarrow> bool" where
  "slot_inv m \<longleftrightarrow> inj_on (bp_commited_buffers m) (dom (bp_commited_buffers m)) \<and>
     bp_buffer_count m = card (dom (bp_commited_buffers m)) \<and>
     bp_total_commited m = (\<Sum>bid \<in> dom (bp_commited_buffers m). remaining m bid)"

definition config_inv :: "um \<Rightarrow> bool" where
  "config_inv m \<longleftrightarrow> (\<exists>k j. bp_commit_level m = 2 ^ k \<and> bp_buffer_size m = 2 ^ j \<and>
     18 \<le> k \<and> k \<le> 30 \<and> 14 \<le> j \<and> j \<le> 28 \<and> k \<le> j + 4)"

definition pool_inv :: "um \<Rightarrow> (addr \<Rightarrow> nat) \<Rightarrow> addr list \<Rightarrow> bool" where
  "pool_inv m ext fl \<longleftrightarrow>
     free_inv m fl \<and> ref_inv m ext fl \<and> bitmap_inv m \<and> slot_inv m \<and> config_inv m"

text \<open>What the buffer operations leave alone.\<close>

definition same_slots :: "um \<Rightarrow> um \<Rightarrow> bool" where
  "same_slots m m' \<longleftrightarrow> bp_commited_buffers m' = bp_commited_buffers m \<and>
     bp_avail_bid_bitmap m' = bp_avail_bid_bitmap m \<and> bp_buffer_count m' = bp_buffer_count m \<and>
     bp_total_commited m' = bp_total_commited m \<and> bp_buffer_size m' = bp_buffer_size m \<and>
     bp_commit_level m' = bp_commit_level m"

lemma refs_same: "bp_commited_buffers m' = bp_commited_buffers m \<Longrightarrow> refs m' = refs m"
  by (rule ext)+ (simp add: refs_def)

lemma finite_committed: "bitmap_inv m \<Longrightarrow> finite (dom (bp_commited_buffers m))"
  by (rule finite_subset [of _ "{..<1024}"]) (auto simp: bitmap_inv_def dom_def)

lemma config_bounds:
  assumes "config_inv m"
  shows "0 < bp_buffer_size m" "bp_buffer_size m \<le> 2 ^ 28" "bp_commit_level m \<le> 2 ^ 30"
    "bp_commit_level m \<le> 16 * bp_buffer_size m"
proof -
  from assms obtain k j where kj: "bp_commit_level m = 2 ^ k" "bp_buffer_size m = 2 ^ j"
    "k \<le> 30" "j \<le> 28" "k \<le> j + 4" by (auto simp: config_inv_def)
  show "0 < bp_buffer_size m" by (simp add: kj)
  show "bp_buffer_size m \<le> 2 ^ 28" unfolding kj by (rule power_increasing) (use kj in auto)
  show "bp_commit_level m \<le> 2 ^ 30" unfolding kj by (rule power_increasing) (use kj in auto)
  have "(2::nat) ^ k \<le> 2 ^ (j + 4)" by (rule power_increasing) (use kj in auto)
  then show "bp_commit_level m \<le> 16 * bp_buffer_size m" by (simp add: kj power_add)
qed

section \<open>Checking buffers out and in\<close>

lemma buffer_ok_cong:
  "buffer_ok m ext fl x \<Longrightarrow> buffers m' x = buffers m x \<Longrightarrow> buffer_fresh m \<le> buffer_fresh m' \<Longrightarrow>
   refs m' ext' x = refs m ext x \<Longrightarrow> (x \<in> set fl' \<longleftrightarrow> x \<in> set fl) \<Longrightarrow> buffer_ok m' ext' fl' x"
  by (auto simp: buffer_ok_def split: option.splits)

lemma ref_invI:
  assumes "ref_inv m ext fl" "buffer_fresh m \<le> buffer_fresh m'"
    and "\<And>x. x \<noteq> a \<Longrightarrow> buffers m' x = buffers m x \<and> refs m' ext' x = refs m ext x \<and>
      (x \<in> set fl' \<longleftrightarrow> x \<in> set fl)"
    and "buffer_ok m' ext' fl' a"
  shows "ref_inv m' ext' fl'"
  unfolding ref_inv_def
proof
  fix x
  show "buffer_ok m' ext' fl' x"
  proof (cases "x = a")
    case True
    with assms(4) show ?thesis by simp
  next
    case False
    with assms(3) have "buffers m' x = buffers m x" "refs m' ext' x = refs m ext x"
      "x \<in> set fl' \<longleftrightarrow> x \<in> set fl" by blast+
    with assms(1,2) show ?thesis by (auto simp: ref_inv_def intro: buffer_ok_cong)
  qed
qed

lemma ref_inv_None: "ref_inv m ext fl \<Longrightarrow> buffers m a = None \<Longrightarrow> refs m ext a = 0"
  by (auto simp: ref_inv_def buffer_ok_def dest: spec [of _ a])

lemma ref_inv_Some:
  "ref_inv m ext fl \<Longrightarrow> buffers m a = Some b \<Longrightarrow>
     a < buffer_fresh m \<and> buf_pos b \<le> buf_len b \<and> refs m ext a < 2 ^ 32 \<and>
     buf_ref_count b = of_nat (refs m ext a) \<and> (refs m ext a = 0 \<longleftrightarrow> a \<in> set fl)"
  by (auto simp: ref_inv_def buffer_ok_def dest: spec [of _ a])

lemma ref_inv_fresh: "ref_inv m ext fl \<Longrightarrow> buffers m (buffer_fresh m) = None"
  using ref_inv_Some by (cases "buffers m (buffer_fresh m)") fastforce+

lemma free_inv_frame:
  assumes "free_inv m fl" "\<And>a. a \<in> set fl \<Longrightarrow> buffers m' a = buffers m a"
    and "bp_buffer_freelist m' = bp_buffer_freelist m" "bp_buffer_size m' = bp_buffer_size m"
  shows "free_inv m' fl"
proof -
  have "chain (bnext m') p fl \<longleftrightarrow> chain (bnext m) p fl" for p
    using assms(2) by (intro chain_cong) (simp add: bnext_def)
  with assms show ?thesis by (simp add: free_inv_def)
qed

lemma checkout_alloc:
  "bp_buffer_freelist m = None \<Longrightarrow>
   \<exists>m'. bp_buffer_checkout m = Some (buffer_fresh m, m') \<and>
     buffers m' = (buffers m)(buffer_fresh m \<mapsto> \<lparr>buf_len = bp_buffer_size m, buf_pos = 0,
       buf_ref_count = 1, buf_next = None\<rparr>) \<and>
     bp_buffer_freelist m' = None \<and> buffer_fresh m' = Suc (buffer_fresh m) \<and>
     buffers_free (metrics m') = buffers_free (metrics m) \<and> same_slots m m'"
  by (simp add: bp_buffer_checkout_def buffer_alloc_def Let_def upd_metrics_def upd_buffer_def
      same_slots_def)

lemma checkout_reuse:
  "bp_buffer_freelist m = Some a \<Longrightarrow> buffers m a = Some b \<Longrightarrow>
   \<exists>m'. bp_buffer_checkout m = Some (a, m') \<and>
     buffers m' = (buffers m)(a \<mapsto> b\<lparr>buf_ref_count := buf_ref_count b + 1, buf_pos := 0,
       buf_next := None\<rparr>) \<and>
     bp_buffer_freelist m' = buf_next b \<and> buffer_fresh m' = buffer_fresh m \<and>
     buffers_free (metrics m') = buffers_free (metrics m) - 1 \<and> same_slots m m'"
  by (simp add: bp_buffer_checkout_def upd_metrics_def upd_buffer_def same_slots_def)

lemma same_slots_refs: "same_slots m m' \<Longrightarrow> refs m' = refs m"
  by (rule refs_same) (simp add: same_slots_def)

text \<open>A checkout hands out an unreferenced buffer of the current size, with one reference.\<close>

lemma checkout_pool:
  assumes fi: "free_inv m fl" and ri: "ref_inv m ext fl"
  shows "\<exists>a b m'. bp_buffer_checkout m = Some (a, m') \<and> buffers m' a = Some b \<and>
    buf_len b = bp_buffer_size m \<and> buf_pos b = 0 \<and> refs m ext a = 0 \<and>
    free_inv m' (tl fl) \<and> ref_inv m' (ext(a := 1)) (tl fl) \<and> same_slots m m' \<and>
    (\<forall>x. x \<noteq> a \<longrightarrow> buffers m' x = buffers m x)"
proof (cases "bp_buffer_freelist m")
  case None
  then have fl: "fl = []" using fi by (simp add: free_inv_def)
  let ?a = "buffer_fresh m"
  obtain m' where co: "bp_buffer_checkout m = Some (?a, m')"
    and bufs: "buffers m' = (buffers m)(?a \<mapsto> \<lparr>buf_len = bp_buffer_size m, buf_pos = 0,
       buf_ref_count = 1, buf_next = None\<rparr>)"
    and m': "bp_buffer_freelist m' = None" "buffer_fresh m' = Suc ?a"
      "buffers_free (metrics m') = buffers_free (metrics m)" "same_slots m m'"
    using checkout_alloc [OF None] by blast
  have r0: "refs m ext ?a = 0" by (rule ref_inv_None [OF ri ref_inv_fresh [OF ri]])
  have "ref_inv m' (ext(?a := 1)) []"
  proof (rule ref_invI [OF ri, where a = ?a])
    show "buffer_ok m' (ext(?a := 1)) [] ?a"
      using r0 bufs m'(2) same_slots_refs [OF m'(4)]
      by (auto simp: buffer_ok_def refs_def split: if_splits)
  qed (use fl m' bufs same_slots_refs [OF m'(4)] in \<open>auto simp: refs_def\<close>)
  moreover have "free_inv m' []" using fi fl m' by (simp add: free_inv_def)
  ultimately show ?thesis using co bufs fl r0 m'(4) by auto
next
  case (Some a)
  then obtain fl' where fl: "fl = a # fl'" using fi by (auto simp: free_inv_def chain_Some)
  obtain b where b: "buffers m a = Some b" "buf_len b = bp_buffer_size m"
    using fi fl by (auto simp: free_inv_def)
  have "distinct fl" using fi chain_distinct unfolding free_inv_def by blast
  then have dist: "a \<notin> set fl'" using fl by simp
  have rb: "refs m ext a = 0" "a < buffer_fresh m" "buf_ref_count b = 0"
    using ref_inv_Some [OF ri b(1)] fl by auto
  obtain m' where co: "bp_buffer_checkout m = Some (a, m')"
    and bufs: "buffers m' = (buffers m)(a \<mapsto> b\<lparr>buf_ref_count := buf_ref_count b + 1, buf_pos := 0,
       buf_next := None\<rparr>)"
    and m': "bp_buffer_freelist m' = buf_next b" "buffer_fresh m' = buffer_fresh m"
      "buffers_free (metrics m') = buffers_free (metrics m) - 1" "same_slots m m'"
    using checkout_reuse [OF Some b(1)] by blast
  have "ref_inv m' (ext(a := 1)) fl'"
  proof (rule ref_invI [OF ri, where a = a])
    show "buffer_ok m' (ext(a := 1)) fl' a"
      using rb bufs m'(2) dist same_slots_refs [OF m'(4)]
      by (auto simp: buffer_ok_def refs_def split: if_splits)
  qed (use fl m' bufs same_slots_refs [OF m'(4)] in \<open>auto simp: refs_def\<close>)
  moreover have "free_inv m' fl'"
  proof -
    have "chain (bnext m) (buf_next b) fl'" using fi fl b by (simp add: free_inv_def bnext_def)
    then have "chain (bnext m') (buf_next b) fl'"
      using dist bufs by (subst chain_cong [where nx' = "bnext m"]) (auto simp: bnext_def)
    moreover have "\<forall>x \<in> set fl'. \<exists>b. buffers m' x = Some b \<and> buf_len b = bp_buffer_size m'"
      using fi fl bufs dist m'(4) by (auto simp: free_inv_def same_slots_def)
    ultimately show ?thesis using fi fl m' by (simp add: free_inv_def)
  qed
  ultimately show ?thesis using co bufs fl b rb m'(4) by auto
qed

lemma checkin_keep:
  "buffers m a = Some b \<Longrightarrow> buf_ref_count b \<noteq> 1 \<Longrightarrow>
   bp_buffer_checkin m a = Some (upd_buffer a (b\<lparr>buf_ref_count := buf_ref_count b - 1\<rparr>) m)"
  by (simp add: bp_buffer_checkin_def Let_def)

lemma checkin_drop:
  "buffers m a = Some b \<Longrightarrow> buf_ref_count b = 1 \<Longrightarrow> \<not> ring_initialized m \<or> buf_len b \<noteq> bp_buffer_size m \<Longrightarrow>
   \<exists>m'. bp_buffer_checkin m a = Some m' \<and> buffers m' = (buffers m)(a := None) \<and>
     bp_buffer_freelist m' = bp_buffer_freelist m \<and> buffer_fresh m' = buffer_fresh m \<and>
     buffers_free (metrics m') = buffers_free (metrics m) \<and> same_slots m m'"
  by (auto simp: bp_buffer_checkin_def Let_def buffer_free_def upd_metrics_def upd_buffer_def
      same_slots_def)

lemma checkin_pool_list:
  "buffers m a = Some b \<Longrightarrow> buf_ref_count b = 1 \<Longrightarrow> ring_initialized m \<Longrightarrow> buf_len b = bp_buffer_size m \<Longrightarrow>
   \<exists>m'. bp_buffer_checkin m a = Some m' \<and>
     buffers m' = (buffers m)(a \<mapsto> b\<lparr>buf_ref_count := 0, buf_next := bp_buffer_freelist m\<rparr>) \<and>
     bp_buffer_freelist m' = Some a \<and> buffer_fresh m' = buffer_fresh m \<and>
     buffers_free (metrics m') = buffers_free (metrics m) + 1 \<and> same_slots m m'"
  by (simp add: bp_buffer_checkin_def Let_def buffer_free_def upd_metrics_def upd_buffer_def
      same_slots_def)

lemma refs_drop:
  "0 < ext a \<Longrightarrow> bp_commited_buffers m' = bp_commited_buffers m \<Longrightarrow>
   refs m' (ext(a := ext a - 1)) x = (if x = a then refs m ext a - 1 else refs m ext x)"
  by (simp add: refs_def)

lemma ref_count_one:
  assumes "ref_inv m ext fl" "buffers m a = Some b"
  shows "buf_ref_count b = 1 \<longleftrightarrow> refs m ext a = 1"
  using ref_inv_Some [OF assms] of_nat_u32_eq_iff [of "refs m ext a" 1] by auto

lemma checkin_pool_shared:
  assumes fi: "free_inv m fl" and ri: "ref_inv m ext fl" and ext: "0 < ext a"
    and more: "1 < refs m ext a" and b: "buffers m a = Some b"
  shows "\<exists>m'. bp_buffer_checkin m a = Some m' \<and> free_inv m' fl \<and>
    ref_inv m' (ext(a := ext a - 1)) fl \<and> same_slots m m' \<and>
    buffers m' = (buffers m)(a \<mapsto> b\<lparr>buf_ref_count := buf_ref_count b - 1\<rparr>)"
proof -
  have rb: "a < buffer_fresh m" "buf_pos b \<le> buf_len b" "refs m ext a < 2 ^ 32"
    "buf_ref_count b = of_nat (refs m ext a)" "a \<notin> set fl"
    using ref_inv_Some [OF ri b] more by auto
  let ?m' = "upd_buffer a (b\<lparr>buf_ref_count := buf_ref_count b - 1\<rparr>) m"
  have co: "bp_buffer_checkin m a = Some ?m'"
    using checkin_keep [OF b] ref_count_one [OF ri b] more by simp
  have "ref_inv ?m' (ext(a := ext a - 1)) fl"
  proof (rule ref_invI [OF ri, where a = a])
    show "buffer_ok ?m' (ext(a := ext a - 1)) fl a"
      using rb more refs_drop [where ext = ext and a = a, OF ext, of ?m' m a]
      by (auto simp: buffer_ok_def upd_buffer_def of_nat_diff)
  qed (auto simp: upd_buffer_def refs_def)
  moreover have "free_inv ?m' fl"
    by (rule free_inv_frame [OF fi]) (use rb(5) in \<open>auto simp: upd_buffer_def\<close>)
  ultimately show ?thesis using co by (simp add: upd_buffer_def same_slots_def)
qed

lemma checkin_pool_free:
  assumes fi: "free_inv m fl" and ri: "ref_inv m ext fl" and ext: "0 < ext a"
    and last: "refs m ext a = 1" and b: "buffers m a = Some b"
    and old: "\<not> ring_initialized m \<or> buf_len b \<noteq> bp_buffer_size m"
  shows "\<exists>m'. bp_buffer_checkin m a = Some m' \<and> free_inv m' fl \<and>
    ref_inv m' (ext(a := ext a - 1)) fl \<and> same_slots m m' \<and> buffers m' = (buffers m)(a := None)"
proof -
  have rc: "buf_ref_count b = 1" using ref_count_one [OF ri b] last by simp
  have nin: "a \<notin> set fl" using ref_inv_Some [OF ri b] last by auto
  obtain m' where m': "bp_buffer_checkin m a = Some m'" "buffers m' = (buffers m)(a := None)"
    "bp_buffer_freelist m' = bp_buffer_freelist m" "buffer_fresh m' = buffer_fresh m"
    "buffers_free (metrics m') = buffers_free (metrics m)" and ss: "same_slots m m'"
    using checkin_drop [OF b rc old] by blast
  have cm: "bp_commited_buffers m' = bp_commited_buffers m" using ss by (simp add: same_slots_def)
  have "ref_inv m' (ext(a := ext a - 1)) fl"
  proof (rule ref_invI [OF ri, where a = a])
    show "buffer_ok m' (ext(a := ext a - 1)) fl a"
      using refs_drop [where ext = ext and a = a, OF ext cm] last m'(2) by (simp add: buffer_ok_def)
  qed (use m' refs_drop [where ext = ext and a = a, OF ext cm] in auto)
  moreover have "free_inv m' fl"
    by (rule free_inv_frame [OF fi]) (use nin m' ss in \<open>auto simp: same_slots_def\<close>)
  ultimately show ?thesis using m' ss by blast
qed

lemma checkin_pool_recycle:
  assumes fi: "free_inv m fl" and ri: "ref_inv m ext fl" and ext: "0 < ext a"
    and last: "refs m ext a = 1" and b: "buffers m a = Some b"
    and cur: "ring_initialized m" "buf_len b = bp_buffer_size m"
  shows "\<exists>m'. bp_buffer_checkin m a = Some m' \<and> free_inv m' (a # fl) \<and>
    ref_inv m' (ext(a := ext a - 1)) (a # fl) \<and> same_slots m m' \<and>
    buffers m' = (buffers m)(a \<mapsto> b\<lparr>buf_ref_count := 0, buf_next := bp_buffer_freelist m\<rparr>)"
proof -
  have rc: "buf_ref_count b = 1" using ref_count_one [OF ri b] last by simp
  have rb: "a < buffer_fresh m" "buf_pos b \<le> buf_len b" "a \<notin> set fl"
    using ref_inv_Some [OF ri b] last by auto
  obtain m' where m': "bp_buffer_checkin m a = Some m'"
    "buffers m' = (buffers m)(a \<mapsto> b\<lparr>buf_ref_count := 0, buf_next := bp_buffer_freelist m\<rparr>)"
    "bp_buffer_freelist m' = Some a" "buffer_fresh m' = buffer_fresh m"
    "buffers_free (metrics m') = buffers_free (metrics m) + 1" and ss: "same_slots m m'"
    using checkin_pool_list [OF b rc cur] by blast
  have cm: "bp_commited_buffers m' = bp_commited_buffers m" "bp_buffer_size m' = bp_buffer_size m"
    using ss by (simp_all add: same_slots_def)
  have "ref_inv m' (ext(a := ext a - 1)) (a # fl)"
  proof (rule ref_invI [OF ri, where a = a])
    show "buffer_ok m' (ext(a := ext a - 1)) (a # fl) a"
      using refs_drop [where ext = ext and a = a, OF ext cm(1)] last m' rb by (simp add: buffer_ok_def)
  qed (use m' refs_drop [where ext = ext and a = a, OF ext cm(1)] in auto)
  moreover have "free_inv m' (a # fl)"
  proof -
    have "chain (bnext m') p fl \<longleftrightarrow> chain (bnext m) p fl" for p
      using rb(3) m'(2) by (intro chain_cong) (auto simp: bnext_def)
    then show ?thesis using fi m' cm(2) cur rb(3) by (auto simp: free_inv_def bnext_def)
  qed
  ultimately show ?thesis using m' ss by blast
qed

text \<open>
  Dropping a reference: the buffer stays while it has others; the last reference puts it on the
  free list, or frees it when it has an outdated size or the ring is gone.
\<close>

lemma checkin_pool:
  assumes fi: "free_inv m fl" and ri: "ref_inv m ext fl" and ext: "0 < ext a"
  shows "\<exists>m' fl'. bp_buffer_checkin m a = Some m' \<and> free_inv m' fl' \<and>
    ref_inv m' (ext(a := ext a - 1)) fl' \<and> same_slots m m' \<and>
    (\<forall>x. x \<noteq> a \<longrightarrow> buffers m' x = buffers m x) \<and>
    (1 < refs m ext a \<longrightarrow> fl' = fl \<and>
       map_option buf_len (buffers m' a) = map_option buf_len (buffers m a) \<and>
       map_option buf_pos (buffers m' a) = map_option buf_pos (buffers m a)) \<and>
    (refs m ext a = 1 \<longrightarrow>
       (if ring_initialized m \<and> map_option buf_len (buffers m a) = Some (bp_buffer_size m)
        then fl' = a # fl else fl' = fl \<and> buffers m' a = None))"
proof -
  have pos: "0 < refs m ext a" using ext by (simp add: refs_def)
  then obtain b where b: "buffers m a = Some b" using ref_inv_None [OF ri, of a] by fastforce
  consider (shared) "1 < refs m ext a"
    | (recycle) "refs m ext a = 1" "ring_initialized m" "buf_len b = bp_buffer_size m"
    | (free) "refs m ext a = 1" "\<not> ring_initialized m \<or> buf_len b \<noteq> bp_buffer_size m"
    using pos by linarith
  then show ?thesis
  proof cases
    case shared
    with checkin_pool_shared [OF fi ri ext shared b] b show ?thesis by auto
  next
    case recycle
    with checkin_pool_recycle [OF fi ri ext recycle(1) b recycle(2,3)] b show ?thesis by auto
  next
    case free
    with checkin_pool_free [OF fi ri ext free(1) b free(2)] b show ?thesis by auto
  qed
qed

section \<open>Committing buffers keeps the invariant\<close>

lemma bnext_cong: "buffers m' = buffers m \<Longrightarrow> bnext m' = bnext m"
  by (rule ext) (simp add: bnext_def)

lemma free_inv_cong:
  "buffers m' = buffers m \<Longrightarrow> bp_buffer_freelist m' = bp_buffer_freelist m \<Longrightarrow>
   bp_buffer_size m' = bp_buffer_size m \<Longrightarrow> free_inv m' fl \<longleftrightarrow> free_inv m fl"
  unfolding free_inv_def using bnext_cong [of m' m] by simp

lemma ref_inv_cong:
  "buffers m' = buffers m \<Longrightarrow> buffer_fresh m' = buffer_fresh m \<Longrightarrow>
   refs m' ext' = refs m ext \<Longrightarrow> ref_inv m' ext' fl \<longleftrightarrow> ref_inv m ext fl"
  unfolding ref_inv_def buffer_ok_def by (simp split: option.split)

lemma remaining_cong:
  "bp_commited_buffers m' bid = bp_commited_buffers m bid \<Longrightarrow>
   (\<And>a. bp_commited_buffers m bid = Some a \<Longrightarrow> buffers m' a = buffers m a) \<Longrightarrow>
   remaining m' bid = remaining m bid"
  by (auto simp: remaining_def split: option.splits)

text \<open>Half of the 1024 ids are usable: those whose bit lies in the low half of its word.\<close>

lemma card_low_bids: "512 \<le> card {bid. bid < (1024::nat) \<and> bid mod 64 < 32}"
proof -
  let ?f = "\<lambda>(i, j). 64 * i + j :: nat"
  have inj: "inj_on ?f ({..<16} \<times> {..<32})"
  proof (rule inj_onI)
    fix x y assume xy: "x \<in> {..<16} \<times> {..<32}" "y \<in> {..<16} \<times> {..<32}" "?f x = ?f y"
    obtain i j k l where [simp]: "x = (i, j)" "y = (k, l)" by (cases x, cases y) auto
    from xy have e: "64 * i + j = 64 * k + l" and j: "j < 32" and l: "l < 32" by simp_all
    have "(64 * i + j) div 64 = i" "(64 * k + l) div 64 = k" using j l by simp_all
    then have "i = k" using e by simp
    with e show "x = y" by simp
  qed
  have "?f ` ({..<16} \<times> {..<32}) \<subseteq> {bid. bid < (1024::nat) \<and> bid mod 64 < 32}"
  proof
    fix x assume "x \<in> ?f ` ({..<16} \<times> {..<32})"
    then obtain i j where "x = 64 * i + j" "i < 16" "j < 32" by auto
    then show "x \<in> {bid. bid < (1024::nat) \<and> bid mod 64 < 32}" by simp
  qed
  moreover have "finite {bid. bid < (1024::nat) \<and> bid mod 64 < 32}"
    by (rule finite_subset [of _ "{..<1024}"]) auto
  ultimately have "card (?f ` ({..<16} \<times> {..<32})) \<le> card {bid. bid < (1024::nat) \<and> bid mod 64 < 32}"
    by (intro card_mono)
  moreover have "card (?f ` ({..<16} \<times> {..<32})) = 512"
    using card_image [OF inj] by (simp only: card_cartesian_product card_lessThan)
  ultimately show ?thesis by simp
qed

lemma free_low_bid:
  assumes "bitmap_inv m" "card (dom (bp_commited_buffers m)) < 512"
  shows "\<exists>bid < 1024. bid mod 64 < 32 \<and> bp_commited_buffers m bid = None"
proof (rule ccontr)
  assume "\<not> ?thesis"
  then have "{bid. bid < (1024::nat) \<and> bid mod 64 < 32} \<subseteq> dom (bp_commited_buffers m)" by auto
  then have "card {bid. bid < (1024::nat) \<and> bid mod 64 < 32} \<le> card (dom (bp_commited_buffers m))"
    by (rule card_mono [OF finite_committed [OF assms(1)]])
  with card_low_bids assms(2) show False by simp
qed

text \<open>The id found is unused and below 32 in its word, so the shift that marks it is defined.\<close>

lemma get_available_bid_pool:
  assumes bi: "bitmap_inv m" and room: "card (dom (bp_commited_buffers m)) < 512"
  shows "\<exists>bid. get_available_bid m = Some (int bid) \<and> bid < 1024 \<and> bid mod 64 < 32 \<and>
    bp_commited_buffers m bid = None"
proof -
  let ?bm = "bp_avail_bid_bitmap m"
  have len: "length ?bm = 16" using bi by (simp add: bitmap_inv_def)
  obtain b0 where b0: "b0 < 1024" "b0 mod 64 < 32" "bp_commited_buffers m b0 = None"
    using free_low_bid [OF bi room] by blast
  then have "bid_avail ?bm b0" using bi by (simp add: bitmap_inv_def)
  then obtain bid where bid: "bitmap_find_first_set_bit ?bm 16 = Some (int bid)" "bid < 1024"
      "bid_avail ?bm bid" "\<And>j. j < bid \<Longrightarrow> \<not> bid_avail ?bm j"
    using find_first_set_bit_Some [OF len] b0(1) by auto
  have low: "bid mod 64 < 32"
  proof (rule ccontr)
    assume high: "\<not> bid mod 64 < 32"
    then have "bid_avail ?bm (64 * (bid div 64))"
      using bi bid unfolding bitmap_inv_def by (meson not_less)
    moreover have "64 * (bid div 64) < bid" using high
      by (metis add_less_cancel_left add.right_neutral mult_div_mod_eq not_gr0 zero_less_numeral)
    ultimately show False using bid(4) by blast
  qed
  then have "bp_commited_buffers m bid = None" using bi bid unfolding bitmap_inv_def by blast
  with bid low show ?thesis
    by (auto simp: get_available_bid_def BP_AVAIL_BID_BITMAP_WORDS_def BP_BR_ENTRIES_def)
qed

lemma bitmap_inv_commit:
  assumes bi: "bitmap_inv m" and bid: "bid < 1024" "bid mod 64 < 32"
    and bm: "bitmap_unset (bp_avail_bid_bitmap m) bid = Some bm"
    and m': "bp_avail_bid_bitmap m' = bm" "bp_commited_buffers m' = (bp_commited_buffers m)(bid \<mapsto> a)"
  shows "bitmap_inv m'"
proof -
  have len: "length (bp_avail_bid_bitmap m) = 16" using bi by (simp add: bitmap_inv_def)
  have "bid div 64 < length (bp_avail_bid_bitmap m)" using bid len by simp
  then have bm': "length bm = 16" "\<And>x. bid_avail bm x \<longleftrightarrow> bid_avail (bp_avail_bid_bitmap m) x \<and>
      (x div 64 = bid div 64 \<longrightarrow> x mod 64 < 32 \<and> x \<noteq> bid)"
    using bitmap_unset_avail [OF _ bid(2)] bm len by fastforce+
  show ?thesis unfolding bitmap_inv_def m'
  proof (intro conjI allI impI)
    fix x assume x: "x < 1024" "32 \<le> x mod 64" "bid_avail bm x"
    then have "x div 64 \<noteq> bid div 64" "bid_avail (bp_avail_bid_bitmap m) x" using bm'(2) by auto
    moreover from this have "bid_avail (bp_avail_bid_bitmap m) (64 * (x div 64))"
      using bi x unfolding bitmap_inv_def by blast
    ultimately show "bid_avail bm (64 * (x div 64))" unfolding bm'(2) by simp
  qed (use bi bid bm' in \<open>auto simp: bitmap_inv_def split: if_splits\<close>)
qed

lemma bitmap_inv_uncommit:
  assumes bi: "bitmap_inv m" and bid: "bp_commited_buffers m bid = Some a"
    and m': "bp_commited_buffers m' = (bp_commited_buffers m)(bid := None)"
  shows "\<exists>bm. bitmap_set (bp_avail_bid_bitmap m) bid = Some bm \<and>
    (bp_avail_bid_bitmap m' = bm \<longrightarrow> bitmap_inv m')"
proof -
  have len: "length (bp_avail_bid_bitmap m) = 16" using bi by (simp add: bitmap_inv_def)
  have low: "bid < 1024" "bid mod 64 < 32" using bi bid by (simp_all add: bitmap_inv_def)
  then obtain bm where bm: "bitmap_set (bp_avail_bid_bitmap m) bid = Some bm" "length bm = 16"
    "\<And>x. bid_avail bm x \<longleftrightarrow> bid_avail (bp_avail_bid_bitmap m) x \<or> x = bid"
  proof -
    have "bid div 64 < length (bp_avail_bid_bitmap m)" using low len by simp
    from bitmap_set_avail [OF this low(2)] len that show ?thesis by auto
  qed
  have "bitmap_inv m'" if "bp_avail_bid_bitmap m' = bm"
    using bi low bm(2,3) unfolding bitmap_inv_def m' that by auto
  with bm(1) show ?thesis by blast
qed

lemma slot_inv_commit:
  assumes si: "slot_inv m" and bi: "bitmap_inv m" and free: "bp_commited_buffers m bid = None"
    and new: "a \<notin> ran (bp_commited_buffers m)" and b: "buffers m' a = Some b" "buf_pos b = 0"
    and same: "\<And>x. x \<noteq> a \<Longrightarrow> buffers m' x = buffers m x"
    and m': "bp_commited_buffers m' = (bp_commited_buffers m)(bid \<mapsto> a)"
      "bp_buffer_count m' = bp_buffer_count m + 1"
      "bp_total_commited m' = bp_total_commited m + buf_len b"
  shows "slot_inv m'"
proof -
  let ?C = "dom (bp_commited_buffers m)"
  have fin: "finite ?C" and nin: "bid \<notin> ?C" using finite_committed [OF bi] free by auto
  have dom': "dom (bp_commited_buffers m') = insert bid ?C" using m' by auto
  have "remaining m' x = remaining m x" if "x \<in> ?C" for x
    using that nin new m' by (intro remaining_cong) (auto simp: ran_def intro: same)
  then have "(\<Sum>x \<in> ?C. remaining m' x) = (\<Sum>x \<in> ?C. remaining m x)" by simp
  moreover have "remaining m' bid = buf_len b" using b m' by (simp add: remaining_def)
  moreover have "inj_on (bp_commited_buffers m') (insert bid ?C)"
    using si nin new m' by (auto simp: slot_inv_def inj_on_def ran_def)
  ultimately show ?thesis using si fin nin dom' m' by (simp add: slot_inv_def)
qed

lemma commit_buffer_pool:
  assumes pi: "pool_inv m ext fl" and room: "card (dom (bp_commited_buffers m)) < 512"
    and below: "bp_total_commited m < bp_commit_level m"
  shows "\<exists>m' a bid. commit_buffer m added = Some (True, m') \<and> pool_inv m' ext (tl fl) \<and>
    bp_commited_buffers m bid = None \<and> bp_commited_buffers m' = (bp_commited_buffers m)(bid \<mapsto> a) \<and>
    bp_total_commited m' = bp_total_commited m + bp_buffer_size m \<and>
    bp_buffer_size m' = bp_buffer_size m \<and> bp_commit_level m' = bp_commit_level m \<and>
    (\<forall>x. 0 < refs m ext x \<longrightarrow> buffers m' x = buffers m x)"
proof -
  have fi: "free_inv m fl" and ri: "ref_inv m ext fl" and bi: "bitmap_inv m" and si: "slot_inv m"
    and ci: "config_inv m" using pi by (simp_all add: pool_inv_def)
  obtain bid where bid: "get_available_bid m = Some (int bid)" "bid < 1024" "bid mod 64 < 32"
    "bp_commited_buffers m bid = None" using get_available_bid_pool [OF bi room] by blast
  have "bid div 64 < length (bp_avail_bid_bitmap m)" using bi bid by (simp add: bitmap_inv_def)
  then obtain bm where bm: "bitmap_unset (bp_avail_bid_bitmap m) bid = Some bm"
    using bitmap_unset_avail [OF _ bid(3)] by blast
  let ?m1 = "m\<lparr>bp_avail_bid_bitmap := bm\<rparr>"
  have "free_inv ?m1 fl" "ref_inv ?m1 ext fl"
    using fi ri free_inv_cong [of ?m1 m fl] ref_inv_cong [of ?m1 m ext ext fl] refs_same [of ?m1 m]
    by simp_all
  then obtain a b m2 where co: "bp_buffer_checkout ?m1 = Some (a, m2)" "buffers m2 a = Some b"
    and b: "buf_len b = bp_buffer_size m" "buf_pos b = 0" "refs ?m1 ext a = 0"
    and m2: "free_inv m2 (tl fl)" "ref_inv m2 (ext(a := 1)) (tl fl)" "same_slots ?m1 m2"
      "\<forall>x. x \<noteq> a \<longrightarrow> buffers m2 x = buffers m x"
    using checkout_pool [of ?m1 fl ext] by auto
  have new: "a \<notin> ran (bp_commited_buffers m)" "ext a = 0"
    using b(3) by (auto simp: refs_def split: if_splits)
  have rc: "buf_ref_count b = 1"
    using ref_inv_Some [OF m2(2) co(2)] m2(3) new by (simp add: refs_def same_slots_def)
  have bnd: "bp_total_commited m + bp_buffer_size m < 2 ^ 64" "bp_buffer_count m + 1 < 2 ^ 32"
    using config_bounds [OF ci] below room si by (auto simp: slot_inv_def)
  obtain m' where m': "commit_buffer m added = Some (True, m')"
    "buffers m' = buffers m2" "bp_buffer_freelist m' = bp_buffer_freelist m2"
    "buffer_fresh m' = buffer_fresh m2" "buffers_free (metrics m') = buffers_free (metrics m2)"
    "bp_commited_buffers m' = (bp_commited_buffers m)(bid \<mapsto> a)" "bp_avail_bid_bitmap m' = bm"
    "bp_buffer_count m' = bp_buffer_count m + 1"
    "bp_total_commited m' = bp_total_commited m + buf_len b"
    "bp_buffer_size m' = bp_buffer_size m" "bp_commit_level m' = bp_commit_level m"
  proof
    show "commit_buffer m added = Some (True, io_uring_buf_ring_add a (buf_len b) bid added
      (upd_metrics (\<lambda>x. x\<lparr>buffer_space_commited := buffer_space_commited x + of_nat (buf_len b)\<rparr>)
        (m2\<lparr>bp_buffer_count := bp_buffer_count m + 1,
           bp_commited_buffers := (bp_commited_buffers m)(bid \<mapsto> a),
           bp_total_commited := bp_total_commited m + buf_len b\<rparr>)))"
      using bid bm co rc m2(3) bnd b
      by (simp add: commit_buffer_def upd_buffer_def same_slots_def fun_upd_idem)
  qed (use m2(3) in \<open>simp_all add: io_uring_buf_ring_add_def upd_metrics_def same_slots_def\<close>)
  have refs': "refs m' ext = refs m2 (ext(a := 1))"
  proof
    fix x
    have "ran (bp_commited_buffers m') = insert a (ran (bp_commited_buffers m))"
      using m'(6) bid(4) by (simp add: ran_map_upd)
    then show "refs m' ext x = refs m2 (ext(a := 1)) x"
      using new m2(3) by (simp add: refs_def same_slots_def)
  qed
  have "free_inv m' (tl fl)"
    using m2 m' free_inv_cong [of m' m2 "tl fl"] by (simp add: same_slots_def)
  moreover have "ref_inv m' ext (tl fl)"
    using m2(2) ref_inv_cong [OF m'(2,4) refs'] by simp
  moreover have "bitmap_inv m'" by (rule bitmap_inv_commit [OF bi bid(2,3) bm m'(7,6)])
  moreover have "slot_inv m'"
    by (rule slot_inv_commit [OF si bi bid(4) new(1) _ b(2)]) (use m' co m2 in auto)
  moreover have "config_inv m'" using ci m' by (simp add: config_inv_def)
  moreover have "\<forall>x. 0 < refs m ext x \<longrightarrow> buffers m' x = buffers m x"
  proof (intro allI impI)
    fix x assume "0 < refs m ext x"
    then have "x \<noteq> a" using new by (auto simp: refs_def)
    then show "buffers m' x = buffers m x" using m'(2) m2(4) by simp
  qed
  ultimately show ?thesis using m' bid(4) b(1) by (auto simp: pool_inv_def)
qed

end
