(* ===== verification/UM_Pool_Ops.thy ===== *)
theory UM_Pool_Ops
  imports UM_Pool_Inv
begin

text \<open>
  The pool as a whole: restoring the commit level, turning a completion into a segment, growing the
  pool after ENOBUFS, and what these operations leave alone.
\<close>

section \<open>Restoring the commit level\<close>

lemma slot_inv_cong:
  "buffers m' = buffers m \<Longrightarrow> bp_commited_buffers m' = bp_commited_buffers m \<Longrightarrow>
   bp_buffer_count m' = bp_buffer_count m \<Longrightarrow> bp_total_commited m' = bp_total_commited m \<Longrightarrow>
   slot_inv m' \<longleftrightarrow> slot_inv m"
  using remaining_cong [of m' _ m] by (simp add: slot_inv_def)

lemma pool_inv_cong:
  "buffers m' = buffers m \<Longrightarrow> buffer_fresh m' = buffer_fresh m \<Longrightarrow>
   bp_buffer_freelist m' = bp_buffer_freelist m \<Longrightarrow> same_slots m m' \<Longrightarrow>
   pool_inv m' ext fl \<longleftrightarrow> pool_inv m ext fl"
  unfolding pool_inv_def same_slots_def
  using free_inv_cong [of m' m fl] ref_inv_cong [of m' m ext ext fl] refs_same [of m' m]
    slot_inv_cong [of m' m]
  by (simp add: bitmap_inv_def config_inv_def)

lemma commit_loop_pool:
  "pool_inv m ext fl \<Longrightarrow> card (dom (bp_commited_buffers m)) + k \<le> 512 \<Longrightarrow>
   bp_commit_level m \<le> bp_total_commited m + k * bp_buffer_size m \<Longrightarrow>
   \<exists>n m' fl'. commit_loop m added = Some (added + n, m') \<and> n \<le> k \<and> pool_inv m' ext fl' \<and>
     bp_commit_level m \<le> bp_total_commited m' \<and> bp_buffer_size m' = bp_buffer_size m \<and>
     bp_commit_level m' = bp_commit_level m \<and> bp_commited_buffers m \<subseteq>\<^sub>m bp_commited_buffers m' \<and>
     (\<forall>x. 0 < refs m ext x \<longrightarrow> buffers m' x = buffers m x)"
proof (induction k arbitrary: m fl added)
  case 0
  then have "\<not> should_commit_more_p m" by (simp add: should_commit_more_p_def)
  with 0 show ?case by (subst commit_loop.simps) auto
next
  case (Suc k)
  show ?case
  proof (cases "bp_total_commited m < bp_commit_level m")
    case False
    then have "\<not> should_commit_more_p m" by (simp add: should_commit_more_p_def)
    with False Suc.prems show ?thesis by (subst commit_loop.simps) auto
  next
    case True
    have bi: "bitmap_inv m" and si: "slot_inv m" using Suc.prems by (simp_all add: pool_inv_def)
    obtain m1 a bid where c: "commit_buffer m added = Some (True, m1)" "pool_inv m1 ext (tl fl)"
      "bp_commited_buffers m bid = None"
      and m1: "bp_commited_buffers m1 = (bp_commited_buffers m)(bid \<mapsto> a)"
        "bp_total_commited m1 = bp_total_commited m + bp_buffer_size m"
        "bp_buffer_size m1 = bp_buffer_size m" "bp_commit_level m1 = bp_commit_level m"
        "\<forall>x. 0 < refs m ext x \<longrightarrow> buffers m1 x = buffers m x"
      using commit_buffer_pool [OF Suc.prems(1) _ True, of added] Suc.prems(2) by auto
    have more: "should_commit_more_p m"
      using True si Suc.prems(2) by (simp add: should_commit_more_p_def slot_inv_def BP_BR_ENTRIES_def)
    have "card (dom (bp_commited_buffers m1)) + k \<le> 512"
      using m1(1) c(3) Suc.prems(2) finite_committed [OF bi] by (simp add: card_insert_if domIff)
    moreover have "bp_commit_level m1 \<le> bp_total_commited m1 + k * bp_buffer_size m1"
      using m1 Suc.prems(3) by simp
    ultimately obtain n m' fl' where IH: "commit_loop m1 (Suc added) = Some (Suc added + n, m')"
      "n \<le> k" "pool_inv m' ext fl'" "bp_commit_level m1 \<le> bp_total_commited m'"
      "bp_buffer_size m' = bp_buffer_size m1" "bp_commit_level m' = bp_commit_level m1"
      "bp_commited_buffers m1 \<subseteq>\<^sub>m bp_commited_buffers m'"
      "\<forall>x. 0 < refs m1 ext x \<longrightarrow> buffers m' x = buffers m1 x"
      using Suc.IH [OF c(2)] by blast
    have sub: "bp_commited_buffers m \<subseteq>\<^sub>m bp_commited_buffers m1"
      using m1(1) c(3) by (auto simp: map_le_def)
    have "0 < refs m1 ext x" if "0 < refs m ext x" for x
      using that m1(1) c(3) by (auto simp: refs_def ran_map_upd split: if_splits)
    then have "\<forall>x. 0 < refs m ext x \<longrightarrow> buffers m' x = buffers m x"
      using IH(8) m1(5) by metis
    moreover have "commit_loop m added = Some (added + Suc n, m')"
      using more c IH(1) by (subst commit_loop.simps) simp
    ultimately show ?thesis
      using IH m1 map_le_trans [OF sub IH(7)] by (intro exI [of _ "Suc n"]) auto
  qed
qed

lemma ensure_commit_level_pool:
  assumes pi: "pool_inv m ext fl" and room: "card (dom (bp_commited_buffers m)) + 16 \<le> 512"
  shows "\<exists>m' fl'. bp_ensure_commit_level m = Some m' \<and> pool_inv m' ext fl' \<and>
    bp_commit_level m' div 2 < bp_total_commited m' \<and>
    bp_buffer_size m' = bp_buffer_size m \<and> bp_commit_level m' = bp_commit_level m \<and>
    bp_commited_buffers m \<subseteq>\<^sub>m bp_commited_buffers m' \<and>
    (\<forall>x. 0 < refs m ext x \<longrightarrow> buffers m' x = buffers m x)"
proof (cases "bp_total_commited m > bp_commit_level m div 2")
  case True
  then show ?thesis using pi by (auto simp: bp_ensure_commit_level_def)
next
  case False
  have ci: "config_inv m" using pi by (simp add: pool_inv_def)
  have "bp_commit_level m \<le> bp_total_commited m + 16 * bp_buffer_size m"
    using config_bounds(4) [OF ci] by simp
  then obtain n m1 fl' where m1: "commit_loop m 0 = Some (n, m1)" "pool_inv m1 ext fl'"
      "bp_commit_level m \<le> bp_total_commited m1" "bp_buffer_size m1 = bp_buffer_size m"
      "bp_commit_level m1 = bp_commit_level m" "bp_commited_buffers m \<subseteq>\<^sub>m bp_commited_buffers m1"
      "\<forall>x. 0 < refs m ext x \<longrightarrow> buffers m1 x = buffers m x"
    using commit_loop_pool [OF pi, of 16 0] room by auto
  let ?m' = "if n \<noteq> 0 then io_uring_buf_ring_advance n m1 else m1"
  have "pool_inv ?m' ext fl'"
    using m1(2) pool_inv_cong [of "io_uring_buf_ring_advance n m1" m1 ext fl']
    by (auto simp: io_uring_buf_ring_advance_def same_slots_def)
  moreover have "0 < bp_commit_level m" using ci by (auto simp: config_inv_def)
  ultimately show ?thesis using m1 False
    by (intro exI [of _ ?m'] exI [of _ fl'])
      (auto simp: bp_ensure_commit_level_def io_uring_buf_ring_advance_def)
qed

section \<open>Consuming and uncommitting\<close>

lemma uncommit_pool:
  assumes pi: "pool_inv m ext fl" and bid: "bp_commited_buffers m bid = Some a"
    and b: "buffers m a = Some b" and full: "buf_pos b = buf_len b"
  shows "\<exists>m' fl'. uncommit_buffer m a bid = Some m' \<and> pool_inv m' ext fl' \<and>
    bp_commited_buffers m' = (bp_commited_buffers m)(bid := None) \<and>
    bp_total_commited m' = bp_total_commited m \<and> bp_commit_level m' = bp_commit_level m \<and>
    (\<forall>x. x \<noteq> a \<longrightarrow> buffers m' x = buffers m x)"
proof -
  have fi: "free_inv m fl" and ri: "ref_inv m ext fl" and bi: "bitmap_inv m" and si: "slot_inv m"
    and ci: "config_inv m" using pi by (simp_all add: pool_inv_def)
  let ?C = "dom (bp_commited_buffers m)"
  have fin: "finite ?C" using finite_committed [OF bi] .
  have inj: "inj_on (bp_commited_buffers m) ?C" using si by (simp add: slot_inv_def)
  obtain bm where bm: "bitmap_set (bp_avail_bid_bitmap m) bid = Some bm"
    using bitmap_inv_uncommit [OF bi bid, of "m\<lparr>bp_commited_buffers := (bp_commited_buffers m)(bid := None)\<rparr>"]
    by auto
  let ?m1 = "m\<lparr>bp_buffer_count := wrap_sub 32 (bp_buffer_count m) 1,
      bp_commited_buffers := (bp_commited_buffers m)(bid := None), bp_avail_bid_bitmap := bm\<rparr>"
  let ?ext = "ext(a := ext a + 1)"
  have ran1: "ran (bp_commited_buffers ?m1) = ran (bp_commited_buffers m) - {a}"
  proof (intro set_eqI iffI)
    fix y assume "y \<in> ran (bp_commited_buffers ?m1)"
    then obtain x where x: "x \<noteq> bid" "bp_commited_buffers m x = Some y"
      by (auto simp: ran_def split: if_splits)
    have "y \<noteq> a" using inj_onD [OF inj, of x bid] x bid by auto
    then show "y \<in> ran (bp_commited_buffers m) - {a}" using x by (auto simp: ran_def)
  next
    fix y assume "y \<in> ran (bp_commited_buffers m) - {a}"
    then obtain x where x: "y \<noteq> a" "bp_commited_buffers m x = Some y" by (auto simp: ran_def)
    then have "x \<noteq> bid" using bid by auto
    then show "y \<in> ran (bp_commited_buffers ?m1)" using x by (auto simp: ran_def intro!: exI [of _ x])
  qed
  have refs1: "refs ?m1 ?ext = refs m ext"
    using ran1 bid by (auto simp: refs_def fun_eq_iff ran_def)
  have "free_inv ?m1 fl" using fi free_inv_cong [of ?m1 m fl] by simp
  moreover have "ref_inv ?m1 ?ext fl" using ri ref_inv_cong [of ?m1 m ?ext ext fl] refs1 by simp
  ultimately obtain m' fl' where m': "bp_buffer_checkin ?m1 a = Some m'" "free_inv m' fl'"
    "ref_inv m' (?ext(a := ?ext a - 1)) fl'" "same_slots ?m1 m'"
    "\<forall>x. x \<noteq> a \<longrightarrow> buffers m' x = buffers ?m1 x"
    using checkin_pool [of ?m1 fl ?ext a] by auto
  have cm: "bp_commited_buffers m' = (bp_commited_buffers m)(bid := None)"
    "bp_avail_bid_bitmap m' = bm" "bp_buffer_count m' = bp_buffer_count m - 1"
    "bp_total_commited m' = bp_total_commited m" "bp_buffer_size m' = bp_buffer_size m"
    "bp_commit_level m' = bp_commit_level m"
  proof -
    have "0 < card ?C" using bid fin by (auto simp: card_gt_0_iff)
    then show "bp_buffer_count m' = bp_buffer_count m - 1"
      using m'(4) si by (simp add: same_slots_def slot_inv_def)
  qed (use m'(4) in \<open>simp_all add: same_slots_def\<close>)
  have "bitmap_inv m'" using bitmap_inv_uncommit [OF bi bid cm(1)] bm cm(2) by auto
  moreover have "slot_inv m'"
  proof -
    have dom': "dom (bp_commited_buffers m') = ?C - {bid}" using cm by auto
    have "remaining m' x = remaining m x" if "x \<in> ?C - {bid}" for x
    proof (rule remaining_cong)
      fix y assume y: "bp_commited_buffers m x = Some y"
      have "y \<noteq> a" using inj_onD [OF inj, of x bid] bid y that by auto
      then show "buffers m' y = buffers m y" using m'(5) by simp
    qed (use that cm in simp)
    then have "(\<Sum>x \<in> ?C - {bid}. remaining m' x) = (\<Sum>x \<in> ?C - {bid}. remaining m x)" by simp
    moreover have "remaining m bid = 0" using bid b full by (simp add: remaining_def)
    then have "(\<Sum>x \<in> ?C - {bid}. remaining m x) = (\<Sum>x \<in> ?C. remaining m x)"
      using fin bid by (subst sum.remove [of ?C bid]) auto
    moreover have "inj_on (bp_commited_buffers m') (?C - {bid})"
      using inj cm(1) by (auto simp: inj_on_def)
    ultimately show ?thesis using si cm dom' fin bid by (simp add: slot_inv_def domI)
  qed
  moreover have "config_inv m'" using ci cm by (simp add: config_inv_def)
  moreover have "?ext(a := ?ext a - 1) = ext" by auto
  moreover have "uncommit_buffer m a bid = Some m'" using bm m'(1) by (simp add: uncommit_buffer_def)
  ultimately show ?thesis using m' cm by (auto simp: pool_inv_def)
qed

section \<open>What the pool operations leave alone\<close>

text \<open>
  No operation on buffers touches the operations, the run queue, the results, the segments or the
  submission queue.
\<close>

definition pool_view where
  "pool_view m =
     ((ops m, op_fresh m, transient_head m, pending_fibers m, op_freelist m),
      (runqueue_head m, runqueue_tail m, sqes m, sqe_slots m, current_fiber m),
      (results m, result_fresh m, result_freelist m),
      (segments m, segment_fresh m, segment_freelist m, ring_initialized m),
      (heap m, rbufs m, iovecs_live m))"

lemma pool_view_simps [simp]:
  "pool_view (m\<lparr>buffers := b\<rparr>) = pool_view m"
  "pool_view (m\<lparr>buffer_fresh := n\<rparr>) = pool_view m"
  "pool_view (m\<lparr>bp_buffer_size := n\<rparr>) = pool_view m"
  "pool_view (m\<lparr>bp_commit_level := n\<rparr>) = pool_view m"
  "pool_view (m\<lparr>bp_commited_buffers := c\<rparr>) = pool_view m"
  "pool_view (m\<lparr>bp_avail_bid_bitmap := w\<rparr>) = pool_view m"
  "pool_view (m\<lparr>bp_buffer_freelist := p\<rparr>) = pool_view m"
  "pool_view (m\<lparr>bp_buffer_count := n\<rparr>) = pool_view m"
  "pool_view (m\<lparr>bp_total_commited := n\<rparr>) = pool_view m"
  "pool_view (m\<lparr>br_staged := r\<rparr>) = pool_view m"
  "pool_view (m\<lparr>br_published := l\<rparr>) = pool_view m"
  "pool_view (upd_metrics f m) = pool_view m"
  "pool_view (upd_buffer a x m) = pool_view m"
  by (simp_all add: pool_view_def upd_metrics_def upd_buffer_def)

lemma pool_viewD:
  assumes "pool_view m' = pool_view m"
  shows "ops m' = ops m" "results m' = results m" "segments m' = segments m"
    "segment_freelist m' = segment_freelist m" "segment_fresh m' = segment_fresh m"
    "ring_initialized m' = ring_initialized m" "heap m' = heap m"
  using assms unfolding pool_view_def by (simp_all only: prod.inject)

lemma buffer_alloc_frame [um_frame]: "buffer_alloc m = (a, m') \<Longrightarrow> pool_view m' = pool_view m"
  by (auto simp: buffer_alloc_def Let_def)

lemma checkout_frame [um_frame]: "bp_buffer_checkout m = Some (a, m') \<Longrightarrow> pool_view m' = pool_view m"
  by (auto simp: bp_buffer_checkout_def bind_eq_Some_conv split: option.splits
      dest!: buffer_alloc_frame)

lemma buffer_free_frame [um_frame]: "pool_view (buffer_free m a b) = pool_view m"
  by (simp add: buffer_free_def)

lemma checkin_frame [um_frame]: "bp_buffer_checkin m a = Some m' \<Longrightarrow> pool_view m' = pool_view m"
  by (auto simp: bp_buffer_checkin_def Let_def bind_eq_Some_conv buffer_free_frame split: if_splits)

lemma uncommit_frame [um_frame]: "uncommit_buffer m a bid = Some m' \<Longrightarrow> pool_view m' = pool_view m"
  by (auto simp: uncommit_buffer_def bind_eq_Some_conv dest!: checkin_frame)

lemma commit_buffer_frame [um_frame]: "commit_buffer m k = Some (t, m') \<Longrightarrow> pool_view m' = pool_view m"
  by (auto simp: commit_buffer_def Let_def bind_eq_Some_conv io_uring_buf_ring_add_def
      split: if_splits dest!: checkout_frame)

lemma commit_loop_frame [um_frame]:
  assumes "commit_loop m k = Some r"
  shows "pool_view (snd r) = pool_view m"
proof (rule commit_loop.raw_induct [where P = "\<lambda>m k r. pool_view (snd r) = pool_view m", OF _ assms])
  fix loop m k r
  assume IH: "\<And>m k r. loop m k = Some r \<Longrightarrow> pool_view (snd r) = pool_view m"
    and eq: "(if should_commit_more_p m
      then Option.bind (commit_buffer m k) (\<lambda>r. loop (snd r) (if fst r then Suc k else k))
      else Some (k, m)) = Some r"
  show "pool_view (snd r) = pool_view m"
  proof (cases "should_commit_more_p m")
    case True
    then obtain c where c: "commit_buffer m k = Some c"
      "loop (snd c) (if fst c then Suc k else k) = Some r"
      using eq by (auto simp only: bind_eq_Some_conv if_True)
    then show ?thesis using IH [OF c(2)] commit_buffer_frame [of m k "fst c" "snd c"] by simp
  next
    case False
    then show ?thesis using eq by auto
  qed
qed

lemma ensure_commit_level_frame [um_frame]:
  assumes "bp_ensure_commit_level m = Some m'"
  shows "pool_view m' = pool_view m"
proof (cases "bp_total_commited m > bp_commit_level m div 2")
  case True
  then show ?thesis using assms by (simp add: bp_ensure_commit_level_def)
next
  case False
  then obtain r where "commit_loop m 0 = Some r"
    "m' = (if fst r \<noteq> 0 then io_uring_buf_ring_advance (fst r) (snd r) else snd r)"
    using assms by (auto simp: bp_ensure_commit_level_def bind_eq_Some_conv)
  then show ?thesis using commit_loop_frame by (simp add: io_uring_buf_ring_advance_def)
qed

section \<open>From a completion to a segment\<close>

lemma segment_alloc_pool:
  assumes "segment_alloc m = (s, m')"
  shows "buffers m' = buffers m" "buffer_fresh m' = buffer_fresh m"
    "bp_buffer_freelist m' = bp_buffer_freelist m" "same_slots m m'"
    "ring_initialized m' = ring_initialized m" "ops m' = ops m" "results m' = results m"
  using assms
  by (auto simp: segment_alloc_def Let_def upd_metrics_def same_slots_def split: option.splits)

lemma consume_pool:
  assumes pi: "pool_inv m ext fl" and bid: "bp_commited_buffers m bid = Some a"
    and b: "buffers m a = Some b" and r: "r \<le> buf_len b - buf_pos b"
    and len: "buf_len b < 2 ^ 64" and refs: "ext a + 2 < 2 ^ 32"
    and c: "bp_buffer_consume m a r = Some (s, m0)"
    and m1: "m1 = m0\<lparr>bp_total_commited := wrap_sub 64 (bp_total_commited m0) r\<rparr>"
  shows "pool_inv m1 (ext(a := ext a + 1)) fl \<and>
    buffers m1 = (buffers m)(a \<mapsto> b\<lparr>buf_pos := buf_pos b + r, buf_ref_count := buf_ref_count b + 1\<rparr>) \<and>
    bp_commited_buffers m1 = bp_commited_buffers m \<and>
    seg_ptr (segments m1 s) = buf_pos b \<and> seg_len (segments m1 s) = r \<and>
    seg_buffer (segments m1 s) = Some a \<and> bp_commit_level m1 = bp_commit_level m \<and>
    bp_buffer_size m1 = bp_buffer_size m"
proof -
  have fi: "free_inv m fl" and ri: "ref_inv m ext fl" and bi: "bitmap_inv m" and si: "slot_inv m"
    and ci: "config_inv m" using pi by (simp_all add: pool_inv_def)
  let ?b = "b\<lparr>buf_pos := buf_pos b + r, buf_ref_count := buf_ref_count b + 1\<rparr>"
  let ?C = "dom (bp_commited_buffers m)"
  obtain sg ms where sa: "segment_alloc m = (sg, ms)" by (cases "segment_alloc m")
  note fr = segment_alloc_pool [OF sa]
  have posr: "buf_pos b + r < 2 ^ 64" using ref_inv_Some [OF ri b] r len by linarith
  have fin: "finite ?C" using finite_committed [OF bi] .
  have inj: "inj_on (bp_commited_buffers m) ?C" using si by (simp add: slot_inv_def)
  have rem: "remaining m bid = buf_len b - buf_pos b" using bid b by (simp add: remaining_def)
  have split: "bp_total_commited m = remaining m bid + (\<Sum>x \<in> ?C - {bid}. remaining m x)"
    using si fin bid by (simp add: slot_inv_def sum.remove [of ?C bid] domI)
  have st: "s = sg" "buffers m1 = (buffers m)(a \<mapsto> ?b)" "bp_commited_buffers m1 = bp_commited_buffers m"
      "bp_buffer_freelist m1 = bp_buffer_freelist m" "buffer_fresh m1 = buffer_fresh m"
      "bp_avail_bid_bitmap m1 = bp_avail_bid_bitmap m" "bp_buffer_count m1 = bp_buffer_count m"
      "bp_total_commited m1 = bp_total_commited m - r" "bp_commit_level m1 = bp_commit_level m"
      "bp_buffer_size m1 = bp_buffer_size m" "seg_ptr (segments m1 s) = buf_pos b"
      "seg_len (segments m1 s) = r" "seg_buffer (segments m1 s) = Some a"
    using c b sa fr posr m1 split rem r
    by (auto simp: bp_buffer_consume_def upd_buffer_def same_slots_def)
  have refs': "refs m1 (ext(a := ext a + 1)) x = (if x = a then refs m ext a + 1 else refs m ext x)" for x
    using st(3) by (simp add: refs_def)
  have ra: "0 < refs m ext a" "refs m ext a + 1 < 2 ^ 32"
    using bid refs by (auto simp: refs_def ran_def)
  then have nfl: "a \<notin> set fl" using ref_inv_Some [OF ri b] by auto
  have "free_inv m1 fl" by (rule free_inv_frame [OF fi]) (use nfl st in auto)
  moreover have "ref_inv m1 (ext(a := ext a + 1)) fl"
  proof (rule ref_invI [OF ri, where a = a])
    show "buffer_ok m1 (ext(a := ext a + 1)) fl a"
      using ref_inv_Some [OF ri b] ra st r refs' [of a] by (auto simp: buffer_ok_def)
  qed (use st refs' in auto)
  moreover have "bitmap_inv m1" using bi unfolding bitmap_inv_def st(3,6) .
  moreover have "slot_inv m1"
  proof -
    have "remaining m1 x = remaining m x" if "x \<in> ?C - {bid}" for x
    proof (rule remaining_cong)
      fix y assume y: "bp_commited_buffers m x = Some y"
      have "y \<noteq> a" using inj_onD [OF inj, of x bid] bid y that by auto
      then show "buffers m1 y = buffers m y" using st by simp
    qed (use st in simp)
    then have eq: "(\<Sum>x \<in> ?C - {bid}. remaining m1 x) = (\<Sum>x \<in> ?C - {bid}. remaining m x)" by simp
    have "remaining m1 bid = remaining m bid - r"
      using bid b st r by (simp add: remaining_def)
    then have "bp_total_commited m1 = (\<Sum>x \<in> ?C. remaining m1 x)"
      using split eq st rem r fin bid by (simp add: sum.remove [of ?C bid] domI)
    then show ?thesis using si st inj by (simp add: slot_inv_def)
  qed
  moreover have "config_inv m1" using ci st by (simp add: config_inv_def)
  ultimately show ?thesis using st by (simp add: pool_inv_def)
qed

section \<open>Set-up, and growing the pool\<close>

lemma pool_inv_empty:
  assumes m': "buffers m' = (\<lambda>_. None)" "bp_commited_buffers m' = (\<lambda>_. None)"
    "bp_avail_bid_bitmap m' = replicate 16 (- 1)" "bp_buffer_freelist m' = None"
    "bp_buffer_count m' = 0" "bp_total_commited m' = 0" "bp_buffer_size m' = 2 ^ 14"
    "bp_commit_level m' = 2 ^ 18"
  shows "pool_inv m' (\<lambda>_. 0) []"
proof -
  have "bid_avail (replicate 16 (- 1)) bid" if "bid < 1024" for bid
  proof -
    have "bid div 64 < 16" "bid mod 64 < 64" using that by auto
    then show ?thesis by (simp add: bid_avail_def)
  qed
  then have "bitmap_inv m'" by (simp add: bitmap_inv_def m')
  moreover have "config_inv m'"
    unfolding config_inv_def m' by (intro exI [of _ 18] exI [of _ 14]) simp
  moreover have "ref_inv m' (\<lambda>_. 0) []" by (simp add: ref_inv_def buffer_ok_def refs_def m')
  ultimately show ?thesis
    by (simp add: pool_inv_def free_inv_def slot_inv_def m')
qed

lemma bitmap_inv_cong:
  "bp_avail_bid_bitmap m' = bp_avail_bid_bitmap m \<Longrightarrow>
   bp_commited_buffers m' = bp_commited_buffers m \<Longrightarrow> bitmap_inv m' \<longleftrightarrow> bitmap_inv m"
  by (simp only: bitmap_inv_def)

lemma discard_pool:
  assumes "chain (bnext m) (bp_buffer_freelist m) fl" "ref_inv m ext fl"
    "\<forall>a \<in> set fl. buffers m a \<noteq> None"
  shows "\<exists>m'. bp_discard_buffer_freelist m = Some m' \<and> bp_buffer_freelist m' = None \<and>
    ref_inv m' ext [] \<and> same_slots m m' \<and> pool_view m' = pool_view m \<and>
    (\<forall>a. 0 < refs m ext a \<longrightarrow> buffers m' a = buffers m a)"
  using assms
proof (induction fl arbitrary: m)
  case Nil
  then show ?case
    by (subst bp_discard_buffer_freelist.simps) (simp add: same_slots_def)
next
  case (Cons a fl)
  have ch: "bp_buffer_freelist m = Some a" "chain (bnext m) (bnext m a) fl"
    and dist: "a \<notin> set fl" using Cons.prems(1) chain_distinct [OF Cons.prems(1)] by auto
  obtain b where b: "buffers m a = Some b" using Cons.prems(3) by auto
  have r0: "refs m ext a = 0" using ref_inv_Some [OF Cons.prems(2) b] by simp
  let ?m1 = "upd_metrics
    (\<lambda>x. x\<lparr>buffers_allocated := buffers_allocated x - 1,
          buffer_space_allocated := buffer_space_allocated x - of_nat (buf_len b)\<rparr>)
    (m\<lparr>buffers := (buffers m)(a := None), bp_buffer_freelist := buf_next b\<rparr>)"
  have sim: "buffers ?m1 = (buffers m)(a := None)" "bp_buffer_freelist ?m1 = bnext m a"
    "same_slots m ?m1" "buffer_fresh ?m1 = buffer_fresh m" "pool_view ?m1 = pool_view m"
    using b by (simp_all add: upd_metrics_def same_slots_def bnext_def pool_view_def)
  note refs1 = same_slots_refs [OF sim(3)]
  have "chain (bnext ?m1) p fl \<longleftrightarrow> chain (bnext m) p fl" for p
    using dist sim(1) by (intro chain_cong) (auto simp: bnext_def)
  then have "chain (bnext ?m1) (bp_buffer_freelist ?m1) fl" using ch sim by simp
  moreover have "ref_inv ?m1 ext fl"
    by (rule ref_invI [OF Cons.prems(2), where a = a])
      (use sim r0 refs1 in \<open>auto simp: buffer_ok_def\<close>)
  moreover have "\<forall>x \<in> set fl. buffers ?m1 x \<noteq> None" using Cons.prems(3) dist sim(1) by auto
  ultimately obtain m' where m': "bp_discard_buffer_freelist ?m1 = Some m'"
    "bp_buffer_freelist m' = None" "ref_inv m' ext []" "same_slots ?m1 m'"
    "pool_view m' = pool_view ?m1" "\<forall>a. 0 < refs ?m1 ext a \<longrightarrow> buffers m' a = buffers ?m1 a"
    using Cons.IH [of ?m1] by blast
  have "bp_discard_buffer_freelist m = Some m'"
    using ch b m'(1) by (subst bp_discard_buffer_freelist.simps) simp
  moreover have "buffers m' x = buffers m x" if "0 < refs m ext x" for x
  proof -
    have "x \<noteq> a" using that r0 by auto
    then show ?thesis using m'(6) that refs1 sim(1) by simp
  qed
  moreover have "same_slots m m'" using m'(4) sim(3) by (simp add: same_slots_def)
  ultimately show ?case using m' sim(5) by auto
qed

lemma grow_buffer_size_pow:
  "k < 30 \<Longrightarrow> grow_buffer_size (2 ^ j) (2 ^ (k + 3)) = Some (2 ^ max j (k + 1))"
proof (induction "k + 1 - j" arbitrary: j)
  case 0
  then have "(2::nat) ^ (k + 1) \<le> 2 ^ j" by (intro power_increasing) auto
  with 0 show ?case
    by (subst grow_buffer_size.simps) (simp add: power_add max_def)
next
  case (Suc n)
  then have less: "j < k + 1" "j + 1 < 64" by auto
  then have "(2::nat) ^ j < 2 ^ (k + 1)" by (intro power_strict_increasing) auto
  moreover have "wrap_mul 64 (2 ^ j) 2 = 2 ^ (j + 1)"
    using less power_strict_increasing [of "j + 1" 64 "2::nat"] by (simp add: wrap_mul_small)
  moreover have "grow_buffer_size (2 ^ (j + 1)) (2 ^ (k + 3)) = Some (2 ^ max (j + 1) (k + 1))"
    using Suc by (intro Suc.hyps(1)) auto
  ultimately show ?case using less
    by (subst grow_buffer_size.simps) (simp add: power_add max_def)
qed

section \<open>Returning a segment\<close>

lemma checkin_pool_inv:
  assumes pi: "pool_inv m ext fl" and ext: "0 < ext a"
  shows "\<exists>m' fl'. bp_buffer_checkin m a = Some m' \<and> pool_inv m' (ext(a := ext a - 1)) fl' \<and>
    same_slots m m' \<and> (\<forall>x. x \<noteq> a \<longrightarrow> buffers m' x = buffers m x) \<and>
    (1 < refs m ext a \<longrightarrow> fl' = fl \<and>
       map_option buf_len (buffers m' a) = map_option buf_len (buffers m a) \<and>
       map_option buf_pos (buffers m' a) = map_option buf_pos (buffers m a)) \<and>
    (refs m ext a = 1 \<longrightarrow>
       (if ring_initialized m \<and> map_option buf_len (buffers m a) = Some (bp_buffer_size m)
        then fl' = a # fl else fl' = fl \<and> buffers m' a = None))"
proof -
  have fi: "free_inv m fl" and ri: "ref_inv m ext fl" and bi: "bitmap_inv m" and si: "slot_inv m"
    and ci: "config_inv m" using pi by (simp_all add: pool_inv_def)
  obtain m' fl' where m': "bp_buffer_checkin m a = Some m'" "free_inv m' fl'"
    "ref_inv m' (ext(a := ext a - 1)) fl'" "same_slots m m'"
    "\<forall>x. x \<noteq> a \<longrightarrow> buffers m' x = buffers m x"
    "1 < refs m ext a \<longrightarrow> fl' = fl \<and>
       map_option buf_len (buffers m' a) = map_option buf_len (buffers m a) \<and>
       map_option buf_pos (buffers m' a) = map_option buf_pos (buffers m a)"
    "refs m ext a = 1 \<longrightarrow>
       (if ring_initialized m \<and> map_option buf_len (buffers m a) = Some (bp_buffer_size m)
        then fl' = a # fl else fl' = fl \<and> buffers m' a = None)"
    using checkin_pool [OF fi ri ext] by blast
  have cm: "bp_commited_buffers m' = bp_commited_buffers m" using m'(4) by (simp add: same_slots_def)
  have "remaining m' bid = remaining m bid" for bid
  proof (cases "bp_commited_buffers m bid = Some a")
    case True
    then have "1 < refs m ext a" using ext by (auto simp: refs_def ran_def)
    then show ?thesis using m'(6) True cm
      by (cases "buffers m a"; cases "buffers m' a") (auto simp: remaining_def)
  next
    case False
    then show ?thesis using m'(5) cm by (intro remaining_cong) auto
  qed
  then have "slot_inv m'" using si m'(4) by (simp add: slot_inv_def same_slots_def)
  moreover have "bitmap_inv m'" "config_inv m'"
    using bi ci m'(4) bitmap_inv_cong [of m' m] by (simp_all add: same_slots_def config_inv_def)
  ultimately show ?thesis using m' unfolding pool_inv_def by blast
qed

section \<open>Teardown\<close>

definition uncommitted :: "um \<Rightarrow> um" where
  "uncommitted m = m\<lparr>bp_commited_buffers := (\<lambda>_. None)\<rparr>"

lemma checkin_uncommitted:
  "bp_buffer_checkin (uncommitted m) a = map_option uncommitted (bp_buffer_checkin m a)"
  by (cases "buffers m a")
    (auto simp: uncommitted_def bp_buffer_checkin_def buffer_free_def Let_def upd_metrics_def
      upd_buffer_def)

definition slot_refs :: "um \<Rightarrow> nat list \<Rightarrow> addr \<Rightarrow> nat" where
  "slot_refs m is a = length (filter (\<lambda>i. bp_commited_buffers m i = Some a) is)"

lemma checkin_slots_uncommitted:
  "ref_inv (uncommitted m) (\<lambda>a. ext a + slot_refs m is a) [] \<Longrightarrow> \<not> ring_initialized m \<Longrightarrow>
   bp_buffer_freelist m = None \<Longrightarrow>
   \<exists>m'. checkin_slots is m = Some m' \<and> ref_inv (uncommitted m') ext [] \<and>
     bp_buffer_freelist m' = None"
proof (induction "is" arbitrary: m)
  case Nil
  then show ?case by (simp add: slot_refs_def)
next
  case (Cons i "is")
  show ?case
  proof (cases "bp_commited_buffers m i")
    case None
    then have "slot_refs m (i # is) = slot_refs m is" by (simp add: slot_refs_def fun_eq_iff)
    with None Cons show ?thesis by simp
  next
    case (Some a)
    let ?ext = "\<lambda>x. ext x + slot_refs m (i # is) x"
    have pos: "0 < ?ext a" using Some by (simp add: slot_refs_def)
    have "free_inv (uncommitted m) []" using Cons.prems(3) by (simp add: free_inv_def uncommitted_def)
    then obtain m1 fl' where m1: "bp_buffer_checkin (uncommitted m) a = Some m1" "free_inv m1 fl'"
      "ref_inv m1 (?ext(a := ?ext a - 1)) fl'" "same_slots (uncommitted m) m1"
      "1 < refs (uncommitted m) ?ext a \<longrightarrow> fl' = []" "refs (uncommitted m) ?ext a = 1 \<longrightarrow> fl' = []"
      using checkin_pool [OF _ Cons.prems(1) pos] Cons.prems(2)
      by (auto simp: uncommitted_def split: if_splits)
    have "0 < refs (uncommitted m) ?ext a" using pos by (simp add: refs_def)
    then have fl': "fl' = []" using m1(5,6) by linarith
    obtain m2 where m2: "bp_buffer_checkin m a = Some m2" "m1 = uncommitted m2"
      using m1(1) checkin_uncommitted by auto
    have cm2: "bp_commited_buffers m2 = bp_commited_buffers m" "ring_initialized m2 = ring_initialized m"
      using m2(1) by (auto simp: bp_buffer_checkin_def buffer_free_def Let_def upd_metrics_def
        upd_buffer_def bind_eq_Some_conv split: if_splits)
    have "?ext(a := ?ext a - 1) = (\<lambda>x. ext x + slot_refs m2 is x)"
      using Some cm2 by (auto simp: slot_refs_def fun_eq_iff)
    then have "ref_inv (uncommitted m2) (\<lambda>x. ext x + slot_refs m2 is x) []"
      using m1(3) m2(2) fl' by simp
    moreover have "bp_buffer_freelist m2 = None"
      using m1(2) m2(2) fl' by (simp add: free_inv_def uncommitted_def)
    ultimately show ?thesis using Cons.IH [of m2] Cons.prems(2) cm2 m2(1) Some by auto
  qed
qed

lemma segment_checkin_inv:
  assumes pi: "pool_inv m ext fl" and a: "seg_buffer (segments m s) = Some a" and ext: "0 < ext a"
  shows "\<exists>m' fl'. um_segment_checkin m s = Some m' \<and> pool_inv m' (ext(a := ext a - 1)) fl' \<and>
    segment_freelist m' = Some s \<and> seg_next (segments m' s) = segment_freelist m \<and>
    (\<forall>x. x \<noteq> a \<longrightarrow> buffers m' x = buffers m x) \<and>
    (refs m ext a = 1 \<longrightarrow>
       (if ring_initialized m \<and> map_option buf_len (buffers m a) = Some (bp_buffer_size m)
        then fl' = a # fl else fl' = fl \<and> buffers m' a = None))"
proof -
  obtain m1 fl' where m1: "bp_buffer_checkin m a = Some m1" "pool_inv m1 (ext(a := ext a - 1)) fl'"
    "\<forall>x. x \<noteq> a \<longrightarrow> buffers m1 x = buffers m x"
    "refs m ext a = 1 \<longrightarrow>
       (if ring_initialized m \<and> map_option buf_len (buffers m a) = Some (bp_buffer_size m)
        then fl' = a # fl else fl' = fl \<and> buffers m1 a = None)"
    using checkin_pool_inv [OF pi ext] by blast
  let ?m' = "um_segment_free m1 s"
  have "pool_inv ?m' (ext(a := ext a - 1)) fl'"
    using m1(2) pool_inv_cong [of ?m' m1 "ext(a := ext a - 1)" fl']
    by (simp add: um_segment_free_def upd_metrics_def same_slots_def)
  moreover have "um_segment_checkin m s = Some ?m'" using a m1(1) by (simp add: um_segment_checkin_def)
  moreover have "segment_freelist ?m' = Some s" "seg_next (segments ?m' s) = segment_freelist m"
    "buffers ?m' = buffers m1"
    using pool_viewD(4) [OF checkin_frame [OF m1(1)]] by (simp_all add: um_segment_free_def upd_metrics_def)
  ultimately show ?thesis using m1(3,4) by (intro exI [of _ ?m'] exI [of _ fl']) simp
qed

end
