(* ===== verification/UM_Pool_Props.thy ===== *)
theory UM_Pool_Props
  imports UM_Pool_Ops
begin

text \<open>
  The properties of the buffer pool, each with a witness on a small concrete pool.
\<close>

section \<open>A concrete pool\<close>

definition demo_pool :: um where
  "demo_pool = (case bp_setup None (um_zero\<lparr>ring_initialized := True\<rparr>) of
     Inl _ \<Rightarrow> um_zero | Inr m \<Rightarrow> m)"

definition demo_commited :: um where
  "demo_commited = (case commit_buffer demo_pool 0 of None \<Rightarrow> um_zero | Some (_, m) \<Rightarrow> m)"

lemma demo_pool_simps:
  "buffers demo_pool = (\<lambda>_. None)" "bp_commited_buffers demo_pool = (\<lambda>_. None)"
  "bp_avail_bid_bitmap demo_pool = replicate 16 (- 1)" "bp_buffer_freelist demo_pool = None"
  "bp_buffer_count demo_pool = 0" "bp_total_commited demo_pool = 0"
  "bp_buffer_size demo_pool = 2 ^ 14" "bp_commit_level demo_pool = 2 ^ 18"
  by (simp_all add: demo_pool_def bp_setup_def bp_const_defs um_zero_def)

lemma demo_pool_inv: "pool_inv demo_pool (\<lambda>_. 0) []"
  by (rule pool_inv_empty) (simp_all add: demo_pool_simps)

lemma demo_commited_inv:
  "pool_inv demo_commited (\<lambda>_. 0) []" "card (dom (bp_commited_buffers demo_commited)) = 1"
proof -
  obtain m' a bid where c: "commit_buffer demo_pool 0 = Some (True, m')"
    "pool_inv m' (\<lambda>_. 0) (tl [])"
    "bp_commited_buffers m' = (bp_commited_buffers demo_pool)(bid \<mapsto> a)"
    using commit_buffer_pool [OF demo_pool_inv, of 0] by (auto simp: demo_pool_simps)
  then have "demo_commited = m'" by (simp add: demo_commited_def)
  with c show "pool_inv demo_commited (\<lambda>_. 0) []"
    "card (dom (bp_commited_buffers demo_commited)) = 1"
    by (simp_all add: demo_pool_simps)
qed

lemma demo_bid: "get_available_bid demo_pool = Some 0"
proof -
  have "bitmap_scan (replicate 16 (- 1)) 16 0 = Some (Inr 0)"
    by (subst bitmap_scan.simps) simp
  moreover have "[0..<64] = 0 # [1..<64]" by (simp add: upt_conv_Cons)
  then have "ffsll (- 1) = 1" by (simp add: ffsll_def)
  ultimately show ?thesis
    by (simp add: get_available_bid_def bitmap_find_first_set_bit_def demo_pool_simps bp_const_defs)
qed

lemma demo_commited_simps:
  "get_buffer demo_commited 0 = Some 0"
  "buffers demo_commited 0 = Some \<lparr>buf_len = 16384, buf_pos = 0, buf_ref_count = 1, buf_next = None\<rparr>"
  "segment_freelist demo_commited = None" "segment_fresh demo_commited = 0"
  "bp_commit_level demo_commited = 2 ^ 18"
proof -
  have fresh: "buffer_fresh demo_pool = 0" "segment_freelist demo_pool = None"
    "segment_fresh demo_pool = 0"
    by (simp_all add: demo_pool_def bp_setup_def um_zero_def)
  have "\<exists>bm. bitmap_unset (bp_avail_bid_bitmap demo_pool) 0 = Some bm"
    using bitmap_unset_avail [of 0 "bp_avail_bid_bitmap demo_pool"] by (auto simp: demo_pool_simps)
  then obtain bm where bm: "bitmap_unset (bp_avail_bid_bitmap demo_pool) 0 = Some bm" by blast
  let ?m1 = "demo_pool\<lparr>bp_avail_bid_bitmap := bm\<rparr>"
  have "bp_buffer_freelist ?m1 = None" by (simp add: demo_pool_simps)
  from checkout_alloc [OF this] obtain m2 where m2: "bp_buffer_checkout ?m1 = Some (0, m2)"
    "buffers m2 0 = Some \<lparr>buf_len = 16384, buf_pos = 0, buf_ref_count = 1, buf_next = None\<rparr>"
    "bp_commited_buffers m2 = bp_commited_buffers demo_pool"
    "bp_commit_level m2 = bp_commit_level demo_pool"
    by (auto simp: fresh demo_pool_simps same_slots_def)
  have "\<exists>n t f. demo_commited = io_uring_buf_ring_add 0 16384 0 0 (upd_metrics f (upd_buffer 0
      \<lparr>buf_len = 16384, buf_pos = 0, buf_ref_count = 1, buf_next = None\<rparr> m2\<lparr>bp_buffer_count := n,
        bp_commited_buffers := (bp_commited_buffers m2)(0 \<mapsto> 0), bp_total_commited := t\<rparr>))"
    using demo_bid bm m2 by (auto simp: demo_commited_def commit_buffer_def Let_def upd_buffer_def)
  then obtain n t f where c: "demo_commited = io_uring_buf_ring_add 0 16384 0 0 (upd_metrics f
      (upd_buffer 0 \<lparr>buf_len = 16384, buf_pos = 0, buf_ref_count = 1, buf_next = None\<rparr> m2\<lparr>
        bp_buffer_count := n, bp_commited_buffers := (bp_commited_buffers m2)(0 \<mapsto> 0),
        bp_total_commited := t\<rparr>))" by blast
  then show "get_buffer demo_commited 0 = Some 0"
    "buffers demo_commited 0 = Some \<lparr>buf_len = 16384, buf_pos = 0, buf_ref_count = 1, buf_next = None\<rparr>"
    "bp_commit_level demo_commited = 2 ^ 18"
    unfolding c using m2(4) by (simp_all add: get_buffer_def io_uring_buf_ring_add_def upd_metrics_def
        upd_buffer_def demo_pool_simps)
  have "pool_view demo_commited = pool_view demo_pool"
    using checkout_frame [OF m2(1)] by (simp add: c io_uring_buf_ring_add_def)
  then show "segment_freelist demo_commited = None" "segment_fresh demo_commited = 0"
    using fresh pool_viewD(4,5) by metis+
qed

definition demo_segment :: um where
  "demo_segment = (case bp_buffer_consume demo_commited 0 100 of
     None \<Rightarrow> um_zero
   | Some (_, m) \<Rightarrow> m\<lparr>bp_total_commited := wrap_sub 64 (bp_total_commited m) 100\<rparr>)"

lemma demo_segment_inv:
  "pool_inv demo_segment ((\<lambda>_. 0)(0 := 1)) []" "seg_buffer (segments demo_segment 0) = Some 0"
proof -
  have "\<exists>m0. bp_buffer_consume demo_commited 0 100 = Some (0, m0)"
    by (simp add: bp_buffer_consume_def segment_alloc_def Let_def demo_commited_simps)
  then obtain m0 where c: "bp_buffer_consume demo_commited 0 100 = Some (0, m0)" by blast
  then have m: "demo_segment = m0\<lparr>bp_total_commited := wrap_sub 64 (bp_total_commited m0) 100\<rparr>"
    by (simp add: demo_segment_def)
  have cb: "bp_commited_buffers demo_commited 0 = Some 0"
    using demo_commited_simps(1) by (simp add: get_buffer_def)
  have "pool_inv demo_segment ((\<lambda>_. 0)(0 := 0 + 1)) [] \<and> seg_buffer (segments demo_segment 0) = Some 0"
    using consume_pool [OF demo_commited_inv(1) cb demo_commited_simps(2) _ _ _ c m] by simp
  then show "pool_inv demo_segment ((\<lambda>_. 0)(0 := 1)) []"
      "seg_buffer (segments demo_segment 0) = Some 0" by simp_all
qed

section \<open>Properties\<close>

text \<open>C1. Setting up the buffer ring establishes the invariant of the pool: no buffer exists, every
  buffer id is available, and the buffer size and the commit level start at their initial values.\<close>

theorem bp_setup_pool:
  assumes "bp_setup None m = Inr m'" "buffers m = (\<lambda>_. None)"
  shows "pool_inv m' (\<lambda>_. 0) []"
  by (rule pool_inv_empty) (use assms in \<open>auto simp: bp_setup_def bp_const_defs\<close>)

theorem bp_setup_pool_witness:
  "\<exists>m'. bp_setup None um_zero = Inr m' \<and> pool_inv m' (\<lambda>_. 0) []"
proof -
  obtain m' where m': "bp_setup None um_zero = Inr m'" by (simp add: bp_setup_def)
  moreover have "buffers um_zero = (\<lambda>_. None)" by (simp add: um_zero_def)
  ultimately show ?thesis using bp_setup_pool by blast
qed

text \<open>C2. A completion of a pooled read becomes a segment that covers exactly the \<open>r\<close> bytes the kernel wrote,
  at the buffer's cursor; the segment holds one more reference to the buffer, the invariant of the pool
  is kept, more than half of the commit level is committed afterwards, and the buffer leaves its slot
  exactly when the kernel has reported that it is done with it.\<close>

theorem result_segment_pool:
  assumes pi: "pool_inv m ext fl" and bid: "get_buffer m (unat (drop_bit 16 flags)) = Some a"
    and b: "buffers m a = Some b" "buf_len b < 2 ^ 64" and r: "0 < r" "r \<le> buf_len b - buf_pos b"
    and last: "\<not> has_flag flags IORING_CQE_F_BUF_MORE \<Longrightarrow> r = buf_len b - buf_pos b"
    and refs: "ext a + 2 < 2 ^ 32" and room: "card (dom (bp_commited_buffers m)) + 16 \<le> 512"
  shows "\<exists>s m' fl'. bp_get_op_result_segment m r flags = Some (Some s, m') \<and>
    seg_buffer (segments m' s) = Some a \<and> seg_ptr (segments m' s) = buf_pos b \<and>
    seg_len (segments m' s) = r \<and> pool_inv m' (ext(a := ext a + 1)) fl' \<and>
    bp_commit_level m' div 2 < bp_total_commited m' \<and>
    get_buffer m' (unat (drop_bit 16 flags)) =
      (if has_flag flags IORING_CQE_F_BUF_MORE then Some a else None)"
proof -
  let ?bid = "unat (drop_bit 16 flags)" and ?ext = "ext(a := ext a + 1)"
  have cb: "bp_commited_buffers m ?bid = Some a" using bid by (simp add: get_buffer_def)
  obtain s m0 where c: "bp_buffer_consume m a r = Some (s, m0)"
    using b by (cases "segment_alloc m") (auto simp: bp_buffer_consume_def)
  let ?mt = "m0\<lparr>bp_total_commited := wrap_sub 64 (bp_total_commited m0) r\<rparr>"
  let ?m1 = "upd_metrics (\<lambda>x. x\<lparr>buffer_space_commited := buffer_space_commited x - of_nat r\<rparr>) ?mt"
  have m1: "pool_inv ?m1 ?ext fl" "bp_commited_buffers ?m1 = bp_commited_buffers m"
      "buffers ?m1 a = Some (b\<lparr>buf_pos := buf_pos b + r, buf_ref_count := buf_ref_count b + 1\<rparr>)"
      "seg_ptr (segments ?m1 s) = buf_pos b" "seg_len (segments ?m1 s) = r"
      "seg_buffer (segments ?m1 s) = Some a"
    using consume_pool [OF pi cb b(1) r(2) b(2) refs c refl] pool_inv_cong [of ?m1 ?mt ?ext fl]
    by (simp_all add: upd_metrics_def same_slots_def)
  obtain m2 fl2 where m2: "bp_ensure_commit_level ?m1 = Some m2" "pool_inv m2 ?ext fl2"
      "bp_commit_level m2 div 2 < bp_total_commited m2"
      "bp_commited_buffers ?m1 \<subseteq>\<^sub>m bp_commited_buffers m2"
      "\<forall>x. 0 < refs ?m1 ?ext x \<longrightarrow> buffers m2 x = buffers ?m1 x"
    using ensure_commit_level_pool [OF m1(1)] m1(2) room by auto
  have cb2: "bp_commited_buffers m2 ?bid = Some a"
    using m2(4) cb unfolding m1(2) map_le_def by (metis domI)
  have b2: "buffers m2 a = Some (b\<lparr>buf_pos := buf_pos b + r, buf_ref_count := buf_ref_count b + 1\<rparr>)"
    using m2(5) m1(3) by (auto simp: refs_def)
  have seg2: "segments m2 = segments ?m1"
    using ensure_commit_level_frame [OF m2(1)] pool_viewD by blast
  show ?thesis
  proof (cases "has_flag flags IORING_CQE_F_BUF_MORE")
    case True
    then have "bp_get_op_result_segment m r flags = Some (Some s, m2)"
      using r(1) bid c m2(1) by (simp add: bp_get_op_result_segment_def IORING_CQE_BUFFER_SHIFT_def)
    with True m2 cb2 seg2 m1 show ?thesis by (auto simp: get_buffer_def)
  next
    case False
    then obtain m3 fl3 where m3: "uncommit_buffer m2 a ?bid = Some m3" "pool_inv m3 ?ext fl3"
        "bp_commited_buffers m3 = (bp_commited_buffers m2)(?bid := None)"
        "bp_total_commited m3 = bp_total_commited m2" "bp_commit_level m3 = bp_commit_level m2"
      using uncommit_pool [OF m2(2) cb2 b2] last r ref_inv_Some [of m ext fl a b] pi b(1)
      by (auto simp: pool_inv_def)
    have "segments m3 = segments ?m1"
      using uncommit_frame [OF m3(1)] pool_viewD seg2 by metis
    moreover have "bp_get_op_result_segment m r flags = Some (Some s, m3)"
      using False r(1) bid c m2(1) m3(1)
      by (simp add: bp_get_op_result_segment_def IORING_CQE_BUFFER_SHIFT_def)
    ultimately show ?thesis using False m2 m3 m1 by (auto simp: get_buffer_def)
  qed
qed

theorem result_segment_pool_witness:
  "\<exists>s m' fl'. bp_get_op_result_segment demo_commited 100 (flag_bit 0 OR flag_bit 4) = Some (Some s, m') \<and>
    seg_len (segments m' s) = 100 \<and> pool_inv m' ((\<lambda>_. 0)(0 := 1)) fl'"
proof -
  have bid: "unat (drop_bit 16 (flag_bit 0 OR flag_bit 4)) = 0" by (simp add: flag_bit_def)
  have more: "has_flag (flag_bit 0 OR flag_bit 4) IORING_CQE_F_BUF_MORE"
    by (simp add: um_flag_defs)
  have "\<exists>s m' fl'. bp_get_op_result_segment demo_commited 100 (flag_bit 0 OR flag_bit 4) =
      Some (Some s, m') \<and> seg_buffer (segments m' s) = Some 0 \<and> seg_ptr (segments m' s) = 0 \<and>
      seg_len (segments m' s) = 100 \<and> pool_inv m' ((\<lambda>_. 0)(0 := 0 + 1)) fl' \<and>
      bp_commit_level m' div 2 < bp_total_commited m' \<and>
      get_buffer m' (unat (drop_bit 16 (flag_bit 0 OR flag_bit 4))) =
        (if has_flag (flag_bit 0 OR flag_bit 4) IORING_CQE_F_BUF_MORE then Some 0 else None)"
    using result_segment_pool [OF demo_commited_inv(1) _ demo_commited_simps(2),
        of "flag_bit 0 OR flag_bit 4" 100]
      demo_commited_inv(2) demo_commited_simps(1) unfolding bid by (simp add: more del: has_flag_or_left)
  then show ?thesis by auto
qed

text \<open>C3. Checking a segment in drops one reference to its buffer and puts the segment at the head of the
  segment free list, keeping the invariant of the pool; the last reference either recycles the buffer
  or frees it, when its size is outdated or the ring is gone.\<close>

theorem segment_checkin_pool:
  assumes pi: "pool_inv m ext fl" and a: "seg_buffer (segments m s) = Some a" and ext: "0 < ext a"
  shows "\<exists>m' fl'. um_segment_checkin m s = Some m' \<and> pool_inv m' (ext(a := ext a - 1)) fl' \<and>
    segment_freelist m' = Some s \<and> seg_next (segments m' s) = segment_freelist m \<and>
    (\<forall>x. x \<noteq> a \<longrightarrow> buffers m' x = buffers m x) \<and>
    (refs m ext a = 1 \<longrightarrow>
       (if ring_initialized m \<and> map_option buf_len (buffers m a) = Some (bp_buffer_size m)
        then fl' = a # fl else fl' = fl \<and> buffers m' a = None))"
  by (rule segment_checkin_inv [OF assms])

theorem segment_checkin_pool_witness:
  "\<exists>m' fl'. um_segment_checkin demo_segment 0 = Some m' \<and>
    pool_inv m' (((\<lambda>_. 0)(0 := 1))(0 := ((\<lambda>_. 0)(0 := 1)) 0 - 1)) fl' \<and> segment_freelist m' = Some 0"
  using segment_checkin_pool [OF demo_segment_inv] by fastforce

text \<open>C4. When the kernel runs out of buffers, the commit level doubles and the buffer size grows to at least
  a quarter of it (the growing loop ends), the free list is emptied, buffers in use are untouched and
  the invariant is kept; at the maximal level the only outcome is the error \<open>Buffer starvation\<close>.\<close>

theorem handle_enobufs_pool:
  assumes pi: "pool_inv m ext fl"
  shows "if BP_MAX_COMMIT_LEVEL \<le> bp_commit_level m
    then bp_handle_enobufs m = Some (Inl (UMError ''Buffer starvation''))
    else \<exists>m'. bp_handle_enobufs m = Some (Inr m') \<and> pool_inv m' ext [] \<and>
      bp_commit_level m' = 2 * bp_commit_level m \<and> bp_commit_level m' \<le> 4 * bp_buffer_size m' \<and>
      bp_buffer_size m \<le> bp_buffer_size m' \<and>
      (\<forall>a. 0 < refs m ext a \<longrightarrow> buffers m' a = buffers m a)"
proof (cases "BP_MAX_COMMIT_LEVEL \<le> bp_commit_level m")
  case True
  then show ?thesis by (simp add: bp_handle_enobufs_def)
next
  case False
  have fi: "free_inv m fl" and ri: "ref_inv m ext fl" and ci: "config_inv m"
    using pi by (simp_all add: pool_inv_def)
  obtain k j where kj: "bp_commit_level m = 2 ^ k" "bp_buffer_size m = 2 ^ j" "18 \<le> k" "k \<le> 30"
    "14 \<le> j" "j \<le> 28" "k \<le> j + 4" using ci by (auto simp: config_inv_def)
  have "(2::nat) ^ k < 2 ^ 30" using False kj by (simp add: bp_const_defs)
  then have k: "k < 30" by (simp only: power_strict_increasing_iff)
  obtain k' where k': "k = k' + 2" using kj(3) by (intro that [of "k - 2"]) simp
  have lvl: "wrap_mul 64 (bp_commit_level m) 2 = 2 ^ (k' + 3)"
    using kj k k' power_strict_increasing [of "k + 1" 64 "2::nat"] by (simp add: wrap_mul_small power_add)
  have sz: "grow_buffer_size (bp_buffer_size m) (2 ^ (k' + 3)) = Some (2 ^ max j (k' + 1))"
    using grow_buffer_size_pow [of k' j] k k' kj by simp
  let ?m1 = "m\<lparr>bp_commit_level := 2 ^ (k' + 3), bp_buffer_size := 2 ^ max j (k' + 1)\<rparr>"
  have "bnext ?m1 = bnext m" by (rule bnext_cong) simp
  then have "chain (bnext ?m1) (bp_buffer_freelist ?m1) fl" "\<forall>a \<in> set fl. buffers ?m1 a \<noteq> None"
    using fi by (auto simp: free_inv_def)
  moreover have "ref_inv ?m1 ext fl"
    using ri ref_inv_cong [of ?m1 m ext ext fl] refs_same [of ?m1 m] by simp
  ultimately obtain m' where m': "bp_discard_buffer_freelist ?m1 = Some m'"
    "bp_buffer_freelist m' = None" "ref_inv m' ext []" "same_slots ?m1 m'"
    "\<forall>a. 0 < refs ?m1 ext a \<longrightarrow> buffers m' a = buffers ?m1 a"
    using discard_pool [of ?m1 fl ext] by blast
  have refs1: "refs ?m1 = refs m" by (rule refs_same) simp
  have cm: "bp_commited_buffers m' = bp_commited_buffers m" using m'(4) by (simp add: same_slots_def)
  have "a \<in> ran (bp_commited_buffers m) \<Longrightarrow> buffers m' a = buffers m a" for a
    using m'(5) by (simp add: refs1 refs_def)
  then have "remaining m' bid = remaining m bid" for bid
    using cm by (intro remaining_cong) (auto simp: ran_def)
  then have "slot_inv m'"
    using pi m'(4) by (simp add: pool_inv_def slot_inv_def same_slots_def)
  moreover have "bitmap_inv m'" using pi m'(4) bitmap_inv_cong [of m' m]
    by (simp add: pool_inv_def same_slots_def)
  moreover have "config_inv m'"
    unfolding config_inv_def using m'(4) kj k k'
    by (intro exI [of _ "max j (k' + 1)"] exI [of _ "k' + 3"])
      (simp only: same_slots_def, simp add: max_def)
  moreover have "free_inv m' []" using m' by (simp add: free_inv_def)
  moreover have "(2::nat) ^ (k' + 3) \<le> 4 * 2 ^ max j (k' + 1)"
    using power_increasing [of "k' + 1" "max j (k' + 1)" "2::nat"] by (simp add: power_add)
  moreover have "(2::nat) ^ j \<le> 2 ^ max j (k' + 1)" by (rule power_increasing) auto
  moreover have "bp_handle_enobufs m = Some (Inr m')"
    using False lvl sz m'(1) by (simp add: bp_handle_enobufs_def)
  ultimately show ?thesis
    using False m' kj k' refs1 by (auto simp: pool_inv_def same_slots_def power_add)
qed

theorem handle_enobufs_pool_witness:
  "\<exists>m'. bp_handle_enobufs demo_commited = Some (Inr m') \<and> bp_commit_level m' = 2 ^ 19"
proof -
  show ?thesis using handle_enobufs_pool [OF demo_commited_inv(1)]
    by (auto simp: bp_const_defs demo_commited_simps)
qed

text \<open>C5. Teardown after the ring is closed frees every buffer of the pool once: what stays allocated is exactly
  the buffers that segments outside the pool still reference.\<close>

theorem teardown_frees_all:
  assumes pi: "pool_inv m ext fl" and off: "\<not> ring_initialized m"
  shows "\<exists>m'. bp_teardown m = Some m' \<and> (\<forall>a. buffers m' a \<noteq> None \<longleftrightarrow> 0 < ext a)"
proof -
  have fi: "free_inv m fl" and ri: "ref_inv m ext fl" and bi: "bitmap_inv m" and si: "slot_inv m"
    using pi by (simp_all add: pool_inv_def)
  have inj: "inj_on (bp_commited_buffers m) (dom (bp_commited_buffers m))"
    using si by (simp add: slot_inv_def)
  obtain m1 where m1: "bp_discard_buffer_freelist m = Some m1" "bp_buffer_freelist m1 = None"
    "ref_inv m1 ext []" "same_slots m m1" "pool_view m1 = pool_view m"
    using discard_pool [of m fl ext] fi ri by (auto simp: free_inv_def)
  have cm: "bp_commited_buffers m1 = bp_commited_buffers m" using m1(4) by (simp add: same_slots_def)
  have sr: "slot_refs m1 [0..<BP_BR_ENTRIES] a = (if a \<in> ran (bp_commited_buffers m) then 1 else 0)" for a
  proof -
    have fin: "slot_refs m1 [0..<BP_BR_ENTRIES] a = card {i. i < 1024 \<and> bp_commited_buffers m i = Some a}"
      using cm distinct_length_filter [of "[0..<1024]" "\<lambda>i. bp_commited_buffers m i = Some a"]
      by (simp add: slot_refs_def BP_BR_ENTRIES_def Int_def lessThan_atLeast0 conj_commute)
    show ?thesis
    proof (cases "a \<in> ran (bp_commited_buffers m)")
      case True
      then obtain i where i: "bp_commited_buffers m i = Some a" by (auto simp: ran_def)
      then have "i < 1024" using bi by (simp add: bitmap_inv_def)
      moreover have "j = i" if "bp_commited_buffers m j = Some a" for j
        by (rule inj_onD [OF inj]) (simp_all add: i that domIff)
      ultimately have "{i. i < 1024 \<and> bp_commited_buffers m i = Some a} = {i}" using i by blast
      then show ?thesis using fin True by simp
    next
      case False
      then have "{i. i < 1024 \<and> bp_commited_buffers m i = Some a} = {}" by (auto simp: ran_def)
      then show ?thesis using fin False by simp
    qed
  qed
  have "refs (uncommitted m1) (\<lambda>a. ext a + slot_refs m1 [0..<BP_BR_ENTRIES] a) = refs m1 ext"
    by (rule ext) (simp add: refs_def sr uncommitted_def cm)
  then have "ref_inv (uncommitted m1) (\<lambda>a. ext a + slot_refs m1 [0..<BP_BR_ENTRIES] a) []"
    using m1(3) ref_inv_cong [of "uncommitted m1" m1] by (simp add: uncommitted_def)
  then obtain m2 where m2: "checkin_slots [0..<BP_BR_ENTRIES] m1 = Some m2"
    "ref_inv (uncommitted m2) ext []"
    using checkin_slots_uncommitted [of m1] m1(2) off pool_viewD(6) [OF m1(5)] by blast
  have refs2: "refs (uncommitted m2) ext = ext" by (simp add: refs_def fun_eq_iff uncommitted_def)
  have "buffers (uncommitted m2) a \<noteq> None \<longleftrightarrow> 0 < ext a" for a
  proof (cases "buffers (uncommitted m2) a")
    case None
    then show ?thesis using ref_inv_None [OF m2(2)] refs2 by simp
  next
    case (Some b)
    then show ?thesis using ref_inv_Some [OF m2(2) Some] refs2 by simp
  qed
  moreover have "bp_teardown m = Some (uncommitted m2)"
    using m1(1) m2(1) by (simp add: bp_teardown_def uncommitted_def)
  ultimately show ?thesis by blast
qed

theorem teardown_frees_all_witness:
  "\<exists>m'. bp_teardown (demo_commited\<lparr>ring_initialized := False\<rparr>) = Some m' \<and> buffers m' 0 = None"
proof -
  let ?m = "demo_commited\<lparr>ring_initialized := False\<rparr>"
  have "pool_inv ?m (\<lambda>_. 0) []"
    using demo_commited_inv(1) pool_inv_cong [of ?m demo_commited "\<lambda>_. 0" "[]"]
    by (simp add: same_slots_def)
  then show ?thesis using teardown_frees_all [of ?m "\<lambda>_. 0" "[]"] by auto
qed

text \<open>When no buffer id is available, committing a buffer reads the word after the bitmap: the intended
  return of -1 is the body of the search loop and never happens.\<close>

theorem exhausted_ids_read_past_bitmap:
  assumes "length (bp_avail_bid_bitmap m) = 16" "\<forall>bid < 1024. \<not> bid_avail (bp_avail_bid_bitmap m) bid"
  shows "commit_buffer m added = None"
proof -
  let ?bm = "bp_avail_bid_bitmap m"
  have "?bm ! i = 0" if i: "i < 16" for i
  proof (rule bit_eqI)
    fix n assume n: "possible_bit TYPE(u64) n"
    then have n: "n < 64" by simp
    then have "\<not> bid_avail ?bm (64 * i + n)" using assms(2) i by auto
    moreover have "(64 * i + n) div 64 = i" "(64 * i + n) mod 64 = n" using n by auto
    ultimately show "bit (?bm ! i) n \<longleftrightarrow> bit 0 n" by (simp add: bid_avail_def)
  qed
  then have "get_available_bid m = None"
    using find_first_set_bit_exhausted [of ?bm 16] assms(1)
    by (simp add: get_available_bid_def bp_const_defs)
  then show ?thesis by (simp add: commit_buffer_def)
qed

theorem exhausted_ids_witness:
  "commit_buffer (demo_pool\<lparr>bp_avail_bid_bitmap := replicate 16 0\<rparr>) 0 = None"
  by (rule exhausted_ids_read_past_bitmap) (simp_all add: bid_avail_def nth_Cons')

end
