(* ===== verification/UM_Op.thy ===== *)
theory UM_Op
  imports UM_Pool_Ops
begin

text \<open>
  \<^verbatim>\<open>ext/um/um_op.c\<close>: operations, the run queue, the list of transient operations,
  the free lists of operations and of results, and the results of multishot operations.
\<close>

fun um_op_kind_name :: "um_op_kind \<Rightarrow> string" where
  "um_op_kind_name OP_TIMEOUT = ''OP_TIMEOUT''"
| "um_op_kind_name OP_SCHEDULE = ''OP_SCHEDULE''"
| "um_op_kind_name OP_SLEEP = ''OP_SLEEP''"
| "um_op_kind_name OP_OPEN = ''OP_OPEN''"
| "um_op_kind_name OP_READ = ''OP_READ''"
| "um_op_kind_name OP_WRITE = ''OP_WRITE''"
| "um_op_kind_name OP_WRITEV = ''OP_WRITEV''"
| "um_op_kind_name OP_WRITE_ASYNC = ''OP_WRITE_ASYNC''"
| "um_op_kind_name OP_CLOSE = ''OP_CLOSE''"
| "um_op_kind_name OP_CLOSE_ASYNC = ''OP_CLOSE_ASYNC''"
| "um_op_kind_name OP_STATX = ''OP_STATX''"
| "um_op_kind_name OP_ACCEPT = ''OP_ACCEPT''"
| "um_op_kind_name OP_RECV = ''OP_RECV''"
| "um_op_kind_name OP_RECVMSG = ''OP_RECVMSG''"
| "um_op_kind_name OP_SEND = ''OP_SEND''"
| "um_op_kind_name OP_SENDMSG = ''OP_SENDMSG''"
| "um_op_kind_name OP_SENDV = ''OP_SENDV''"
| "um_op_kind_name OP_SOCKET = ''OP_SOCKET''"
| "um_op_kind_name OP_CONNECT = ''OP_CONNECT''"
| "um_op_kind_name OP_BIND = ''OP_BIND''"
| "um_op_kind_name OP_LISTEN = ''OP_LISTEN''"
| "um_op_kind_name OP_GETSOCKOPT = ''OP_GETSOCKOPT''"
| "um_op_kind_name OP_SETSOCKOPT = ''OP_SETSOCKOPT''"
| "um_op_kind_name OP_SHUTDOWN = ''OP_SHUTDOWN''"
| "um_op_kind_name OP_SHUTDOWN_ASYNC = ''OP_SHUTDOWN_ASYNC''"
| "um_op_kind_name OP_POLL = ''OP_POLL''"
| "um_op_kind_name OP_WAITID = ''OP_WAITID''"
| "um_op_kind_name OP_FUTEX_WAIT = ''OP_FUTEX_WAIT''"
| "um_op_kind_name OP_FUTEX_WAKE = ''OP_FUTEX_WAKE''"
| "um_op_kind_name OP_ACCEPT_MULTISHOT = ''OP_ACCEPT_MULTISHOT''"
| "um_op_kind_name OP_READ_MULTISHOT = ''OP_READ_MULTISHOT''"
| "um_op_kind_name OP_RECV_MULTISHOT = ''OP_RECV_MULTISHOT''"
| "um_op_kind_name OP_TIMEOUT_MULTISHOT = ''OP_TIMEOUT_MULTISHOT''"
| "um_op_kind_name _ = ''UNKNOWN_OP_KIND''"

definition um_op_clear :: "um \<Rightarrow> addr \<Rightarrow> um" where
  "um_op_clear m a =
     upd_op a (\<lambda>_. op_zero\<lparr>op_fiber := Qnil, op_value := Qnil, op_async_op := Qnil\<rparr>) m"

section \<open>The transient list\<close>

definition um_op_transient_add :: "um \<Rightarrow> addr \<Rightarrow> um" where
  "um_op_transient_add m a =
     (let m = (case transient_head m of
                 Some h \<Rightarrow> upd_op h (\<lambda>x. x\<lparr>op_prev := Some a\<rparr>)
                             (upd_op a (\<lambda>x. x\<lparr>op_next := transient_head m\<rparr>) m)
               | None \<Rightarrow> m)
      in upd_metrics (\<lambda>x. x\<lparr>ops_transient := ops_transient x + 1\<rparr>) (m\<lparr>transient_head := Some a\<rparr>))"

definition um_op_transient_remove :: "um \<Rightarrow> addr \<Rightarrow> um" where
  "um_op_transient_remove m a =
     (let m = clear_flags a OP_F_TRANSIENT m;
          m = (case op_prev (ops m a) of
                 Some p \<Rightarrow> upd_op p (\<lambda>x. x\<lparr>op_next := op_next (ops m a)\<rparr>) m
               | None \<Rightarrow> m);
          m = (case op_next (ops m a) of
                 Some n \<Rightarrow> upd_op n (\<lambda>x. x\<lparr>op_prev := op_prev (ops m a)\<rparr>) m
               | None \<Rightarrow> m);
          m = (if transient_head m = Some a then m\<lparr>transient_head := op_next (ops m a)\<rparr> else m)
      in upd_metrics (\<lambda>x. x\<lparr>ops_transient := ops_transient x - 1\<rparr>) m)"

section \<open>The run queue\<close>

definition um_runqueue_push :: "um \<Rightarrow> addr \<Rightarrow> um" where
  "um_runqueue_push m a =
     (let m = (case runqueue_tail m of
                 Some t \<Rightarrow> upd_op t (\<lambda>x. x\<lparr>op_next := Some a\<rparr>)
                             (upd_op a (\<lambda>x. x\<lparr>op_prev := Some t\<rparr>) m)\<lparr>runqueue_tail := Some a\<rparr>
               | None \<Rightarrow> m\<lparr>runqueue_head := Some a, runqueue_tail := Some a\<rparr>);
          m = upd_op a (\<lambda>x. x\<lparr>op_next := None\<rparr>) m
      in upd_metrics (\<lambda>x. x\<lparr>ops_runqueue := ops_runqueue x + 1\<rparr>) m)"

definition um_runqueue_shift :: "um \<Rightarrow> addr option \<times> um" where
  "um_runqueue_shift m =
     (case runqueue_head m of
        None \<Rightarrow> (None, m)
      | Some a \<Rightarrow>
          (let m = m\<lparr>runqueue_head := op_next (ops m a)\<rparr>;
               m = (if runqueue_head m = None then m\<lparr>runqueue_tail := None\<rparr> else m)
           in (Some a, upd_metrics (\<lambda>x. x\<lparr>ops_runqueue := ops_runqueue x - 1\<rparr>) m)))"

section \<open>Marking and compaction\<close>

text \<open>
  The garbage collector's callbacks: the values they mark, in order; \<open>loc\<close> is
  \<open>rb_gc_location\<close>, where the collector moved a value to.
\<close>

partial_function (option) um_op_list_mark :: "um \<Rightarrow> addr option \<Rightarrow> (rvalue list) option" where
  "um_op_list_mark m p =
     (case p of
        None \<Rightarrow> Some []
      | Some a \<Rightarrow>
          Option.bind (um_op_list_mark m (op_next (ops m a)))
            (\<lambda>vs. Some (op_fiber (ops m a) # op_value (ops m a) # op_async_op (ops m a) # vs)))"

partial_function (option) um_op_list_compact ::
  "(rvalue \<Rightarrow> rvalue) \<Rightarrow> um \<Rightarrow> addr option \<Rightarrow> um option" where
  "um_op_list_compact loc m p =
     (case p of
        None \<Rightarrow> Some m
      | Some a \<Rightarrow>
          um_op_list_compact loc
            (upd_op a (\<lambda>x. x\<lparr>op_fiber := loc (op_fiber x), op_value := loc (op_value x),
                              op_async_op := loc (op_async_op x)\<rparr>) m)
            (op_next (ops m a)))"

section \<open>Results of multishot operations\<close>

definition UM_OP_RESULT_ALLOC_BATCH_SIZE :: nat where "UM_OP_RESULT_ALLOC_BATCH_SIZE = 256"

definition UM_OP_ALLOC_BATCH_SIZE :: nat where "UM_OP_ALLOC_BATCH_SIZE = 256"

definition multishot_result_alloc :: "um \<Rightarrow> addr \<times> um" where
  "multishot_result_alloc m =
     (case result_freelist m of
        Some r \<Rightarrow>
          (r, m\<lparr>result_freelist := res_next (results m r),
                results := (results m)(r := (results m r)\<lparr>res_segment := None, res_next := None\<rparr>)\<rparr>)
      | None \<Rightarrow>
          (let n = result_fresh m; e = n + UM_OP_RESULT_ALLOC_BATCH_SIZE in
           (n, m\<lparr>result_fresh := e,
                 results := (\<lambda>a. if n \<le> a \<and> a < e
                   then result_zero\<lparr>res_next := (if n < a \<and> Suc a < e then Some (Suc a) else None)\<rparr>
                   else results m a),
                 result_freelist := Some (Suc n)\<rparr>)))"

definition multishot_result_free :: "um \<Rightarrow> addr \<Rightarrow> um" where
  "multishot_result_free m r =
     (let m = (case res_segment (results m r) of
                 Some s \<Rightarrow> (um_segment_free m s)
                   \<lparr>results := (results m)(r := (results m r)\<lparr>res_segment := None\<rparr>)\<rparr>
               | None \<Rightarrow> m)
      in m\<lparr>results := (results m)(r := (results m r)\<lparr>res_next := result_freelist m\<rparr>),
           result_freelist := Some r\<rparr>)"

definition upd_result :: "addr \<Rightarrow> result_ref \<Rightarrow> (um_op_result \<Rightarrow> um_op_result) \<Rightarrow> um \<Rightarrow> um" where
  "upd_result a ref f m =
     (case ref of
        Inline \<Rightarrow> upd_op a (\<lambda>x. x\<lparr>op_result := f (op_result x)\<rparr>) m
      | Heap r \<Rightarrow> m\<lparr>results := (results m)(r := f (results m r))\<rparr>)"

text \<open>
  With results already there and no tail, \<open>op->multishot_result_tail->next\<close> dereferences NULL.
\<close>

definition um_op_multishot_results_push :: "um \<Rightarrow> addr \<Rightarrow> int \<Rightarrow> u32 \<Rightarrow> um option" where
  "um_op_multishot_results_push m a r flags = do {
     (ref, m) \<leftarrow>
       (if op_result_count (ops m a) = 0 then Some (Inline, m)
        else (let (x, m) = multishot_result_alloc m in do {
          t \<leftarrow> op_result_tail (ops m a);
          Some (Heap x, upd_result a t (\<lambda>y. y\<lparr>res_next := Some x\<rparr>) m)
        }));
     let m = upd_result a ref (\<lambda>y. y\<lparr>res := r, res_flags := flags, res_next := None\<rparr>) m;
     m \<leftarrow> (if op_has m a OP_F_BUFFER_POOL \<and> r \<ge> 0
           then do {
             (s, m) \<leftarrow> bp_get_op_result_segment m (nat r) flags;
             Some (upd_result a ref (\<lambda>y. y\<lparr>res_segment := s\<rparr>) m)
           }
           else Some m);
     Some (upd_op a (\<lambda>x. x\<lparr>op_result_tail := Some ref, op_result_count := op_result_count x + 1\<rparr>) m)
   }"

partial_function (option) free_results :: "um \<Rightarrow> addr option \<Rightarrow> um option" where
  "free_results m p =
     (case p of
        None \<Rightarrow> Some m
      | Some r \<Rightarrow> free_results (multishot_result_free m r) (res_next (results m r)))"

definition um_op_multishot_results_clear :: "um \<Rightarrow> addr \<Rightarrow> um option" where
  "um_op_multishot_results_clear m a =
     (if op_result_count (ops m a) < 1 then Some m
      else do {
        m \<leftarrow> free_results m (res_next (op_result (ops m a)));
        Some (upd_op a (\<lambda>x. x\<lparr>op_result := (op_result x)\<lparr>res_next := None\<rparr>,
                              op_result_tail := None, op_result_count := 0\<rparr>) m)
      })"

section \<open>Allocating and releasing operations\<close>

text \<open>The memory of a new batch is not cleared: only the links from the second element on are set.\<close>

definition um_op_alloc :: "um \<Rightarrow> addr \<times> um" where
  "um_op_alloc m =
     (case op_freelist m of
        Some a \<Rightarrow>
          (a, upd_metrics (\<lambda>x. x\<lparr>ops_free := ops_free x - 1\<rparr>)
                (m\<lparr>op_freelist := op_next (ops m a)\<rparr>))
      | None \<Rightarrow>
          (let n = op_fresh m; e = n + UM_OP_ALLOC_BATCH_SIZE in
           (n, upd_metrics (\<lambda>x. x\<lparr>ops_free := ops_free x + of_nat (UM_OP_ALLOC_BATCH_SIZE - 1)\<rparr>)
                 (m\<lparr>op_fresh := e,
                    ops := (\<lambda>a. if n < a \<and> a < e
                      then (ops m a)\<lparr>op_next := (if Suc a < e then Some (Suc a) else None)\<rparr>
                      else ops m a),
                    op_freelist := Some (Suc n)\<rparr>))))"

definition um_op_free :: "um \<Rightarrow> addr \<Rightarrow> um" where
  "um_op_free m a =
     upd_metrics (\<lambda>x. x\<lparr>ops_free := ops_free x + 1\<rparr>)
       (upd_op a (\<lambda>x. x\<lparr>op_next := op_freelist m\<rparr>) m\<lparr>op_freelist := Some a\<rparr>)"

definition um_op_acquire :: "um \<Rightarrow> addr \<times> um" where
  "um_op_acquire m = um_op_alloc m"

text \<open>\<open>free(p)\<close> of an iovec array: nothing for NULL, a fault when it is not allocated.\<close>

definition free_iovecs :: "nat option \<Rightarrow> um \<Rightarrow> um option" where
  "free_iovecs p m =
     (case p of
        None \<Rightarrow> Some m
      | Some v \<Rightarrow> if v \<in> iovecs_live m then Some (m\<lparr>iovecs_live := iovecs_live m - {v}\<rparr>) else None)"

definition um_op_release :: "um \<Rightarrow> addr \<Rightarrow> um option" where
  "um_op_release m a = do {
     let m = upd_op a (\<lambda>x. x\<lparr>op_ref_count := op_ref_count x - 1\<rparr>) m;
     if op_ref_count (ops m a) \<noteq> 0 then Some m
     else do {
       m \<leftarrow> (if op_has m a OP_F_FREE_IOVECS then free_iovecs (op_iovecs (ops m a)) m else Some m);
       m \<leftarrow> (if op_has m a OP_F_MULTISHOT then um_op_multishot_results_clear m a else Some m);
       Some (um_op_free m a)
     }
   }"

end
