(* ===== verification/UM_Op_Inv.thy ===== *)
theory UM_Op_Inv
  imports UM_Op
begin

text \<open>
  The lists of \<^verbatim>\<open>um_op.c\<close>: the run queue is a FIFO list, the free lists of
  operations, results and segments are batch allocators, and the lists stay disjoint although they
  share the link field of an operation.
\<close>

section \<open>The lists of operations\<close>

definition opnext :: "um \<Rightarrow> addr \<Rightarrow> addr option" where
  "opnext m a = op_next (ops m a)"

lemma opnext_simps [simp]:
  "opnext (m\<lparr>runqueue_head := p\<rparr>) = opnext m"
  "opnext (m\<lparr>runqueue_tail := p\<rparr>) = opnext m"
  "opnext (m\<lparr>op_freelist := p\<rparr>) = opnext m"
  "opnext (m\<lparr>transient_head := p\<rparr>) = opnext m"
  "opnext (m\<lparr>metrics := x\<rparr>) = opnext m"
  "opnext (upd_metrics f m) = opnext m"
  "opnext (m\<lparr>ops := (ops m)(a := x2)\<rparr>) = (opnext m)(a := op_next x2)"
  "opnext (upd_op a g m) = (opnext m)(a := op_next (g (ops m a)))"
  by (simp_all add: opnext_def fun_eq_iff)

definition rq_rel :: "um \<Rightarrow> addr list \<Rightarrow> bool" where
  "rq_rel m q \<longleftrightarrow> chain (opnext m) (runqueue_head m) q \<and>
     runqueue_tail m = (if q = [] then None else Some (last q))"

lemma rq_push:
  assumes q: "rq_rel m q" and a: "a \<notin> set q"
  shows "rq_rel (um_runqueue_push m a) (q @ [a])"
proof (cases "q = []")
  case True
  then show ?thesis using q
    by (simp add: rq_rel_def um_runqueue_push_def um_upd_defs opnext_def)
next
  case False
  have ch: "chain (opnext m) (runqueue_head m) q" and t: "runqueue_tail m = Some (last q)"
    using q False by (simp_all add: rq_rel_def)
  have "opnext (um_runqueue_push m a) = (opnext m)(last q := Some a, a := None)"
    using t False a by (auto simp: um_runqueue_push_def um_upd_defs opnext_def fun_eq_iff)
  moreover have "runqueue_head (um_runqueue_push m a) = runqueue_head m"
    "runqueue_tail (um_runqueue_push m a) = Some a"
    using t by (simp_all add: um_runqueue_push_def um_upd_defs)
  ultimately show ?thesis
    using chain_push_tail [OF ch chain_distinct [OF ch] a False] by (simp add: rq_rel_def)
qed

interpretation rq: fifo um_runqueue_push um_runqueue_shift rq_rel "\<lambda>q a. a \<notin> set q"
proof
  fix m q a
  show "rq_rel m q \<Longrightarrow> a \<notin> set q \<Longrightarrow> rq_rel (um_runqueue_push m a) (q @ [a])" by (rule rq_push)
  show "rq_rel m [] \<Longrightarrow> um_runqueue_shift m = (None, m)"
    by (simp add: rq_rel_def um_runqueue_shift_def)
  assume "rq_rel m (a # q)"
  then show "\<exists>m'. um_runqueue_shift m = (Some a, m') \<and> rq_rel m' q"
    by (cases q) (auto simp: rq_rel_def um_runqueue_shift_def um_upd_defs opnext_def Let_def)
qed


text \<open>The free list of operations, as an instance of the batch allocator.\<close>

definition fl_rel :: "um \<Rightarrow> addr list \<Rightarrow> nat \<Rightarrow> bool" where
  "fl_rel m fl n \<longleftrightarrow> chain (opnext m) (op_freelist m) fl \<and> op_fresh m = n"

interpretation op_pool: batch_alloc um_op_alloc um_op_free fl_rel
proof
  fix m a fl n
  show "fl_rel m (a # fl) n \<Longrightarrow> \<exists>m'. um_op_alloc m = (a, m') \<and> fl_rel m' fl n"
    by (auto simp: fl_rel_def um_op_alloc_def upd_metrics_def opnext_def)
  assume "fl_rel m fl n" "a \<notin> set fl" "a < n"
  then show "fl_rel (um_op_free m a) (a # fl) n"
    by (auto simp: fl_rel_def um_op_free_def)
next
  fix m n assume rel: "fl_rel m [] n"
  let ?e = "n + 256"
  have "chain (opnext (snd (um_op_alloc m))) (Some (Suc n)) [Suc n..<?e]"
    using rel by (intro chain_upt)
      (auto simp: fl_rel_def um_op_alloc_def UM_OP_ALLOC_BATCH_SIZE_def Let_def upd_metrics_def opnext_def)
  with rel show "\<exists>m' n'. um_op_alloc m = (n, m') \<and> n < n' \<and> fl_rel m' [Suc n..<n'] n'"
    by (intro exI [of _ "snd (um_op_alloc m)"] exI [of _ ?e])
      (auto simp: fl_rel_def um_op_alloc_def UM_OP_ALLOC_BATCH_SIZE_def Let_def upd_metrics_def)
qed

definition rfl_rel :: "um \<Rightarrow> addr list \<Rightarrow> nat \<Rightarrow> bool" where
  "rfl_rel m fl n \<longleftrightarrow> chain (\<lambda>r. res_next (results m r)) (result_freelist m) fl \<and> result_fresh m = n"

interpretation result_pool: batch_alloc multishot_result_alloc multishot_result_free rfl_rel
proof
  fix m a fl n
  assume rel: "rfl_rel m (a # fl) n"
  have "a \<notin> set fl" using chain_distinct [of _ _ "a # fl"] rel by (auto simp: rfl_rel_def)
  then have "chain (\<lambda>r. res_next (results (snd (multishot_result_alloc m)) r)) p fl \<longleftrightarrow>
      chain (\<lambda>r. res_next (results m r)) p fl" for p
    using rel by (intro chain_cong) (auto simp: rfl_rel_def multishot_result_alloc_def)
  with rel show "\<exists>m'. multishot_result_alloc m = (a, m') \<and> rfl_rel m' fl n"
    by (auto simp: rfl_rel_def multishot_result_alloc_def)
next
  fix m n assume rel: "rfl_rel m [] n"
  let ?e = "n + 256"
  have "chain (\<lambda>r. res_next (results (snd (multishot_result_alloc m)) r)) (Some (Suc n)) [Suc n..<?e]"
    using rel by (intro chain_upt)
      (auto simp: rfl_rel_def multishot_result_alloc_def UM_OP_RESULT_ALLOC_BATCH_SIZE_def Let_def)
  with rel show "\<exists>m' n'. multishot_result_alloc m = (n, m') \<and> n < n' \<and> rfl_rel m' [Suc n..<n'] n'"
    by (intro exI [of _ "snd (multishot_result_alloc m)"] exI [of _ ?e])
      (auto simp: rfl_rel_def multishot_result_alloc_def UM_OP_RESULT_ALLOC_BATCH_SIZE_def Let_def)
next
  fix m fl n a
  assume rel: "rfl_rel m fl n" and a: "a \<notin> set fl" "a < n"
  have "chain (\<lambda>r. res_next (results (multishot_result_free m a) r)) p fl \<longleftrightarrow>
      chain (\<lambda>r. res_next (results m r)) p fl" for p
    using a by (intro chain_cong)
      (auto simp: multishot_result_free_def um_segment_free_def Let_def split: option.split)
  with rel show "rfl_rel (multishot_result_free m a) (a # fl) n"
    by (auto simp: rfl_rel_def multishot_result_free_def um_segment_free_def Let_def
        split: option.split)
qed

definition sfl_rel :: "um \<Rightarrow> addr list \<Rightarrow> nat \<Rightarrow> bool" where
  "sfl_rel m fl n \<longleftrightarrow> chain (\<lambda>s. seg_next (segments m s)) (segment_freelist m) fl \<and> segment_fresh m = n"

interpretation segment_pool: batch_alloc segment_alloc um_segment_free sfl_rel
proof
  fix m a fl n
  assume rel: "sfl_rel m (a # fl) n"
  have "a \<notin> set fl" using chain_distinct [of _ _ "a # fl"] rel by (auto simp: sfl_rel_def)
  then have "chain (\<lambda>s. seg_next (segments (snd (segment_alloc m)) s)) p fl \<longleftrightarrow>
      chain (\<lambda>s. seg_next (segments m s)) p fl" for p
    using rel by (intro chain_cong) (auto simp: sfl_rel_def segment_alloc_def)
  with rel show "\<exists>m'. segment_alloc m = (a, m') \<and> sfl_rel m' fl n"
    by (auto simp: sfl_rel_def segment_alloc_def)
next
  fix m n assume rel: "sfl_rel m [] n"
  let ?e = "n + 256"
  have "chain (\<lambda>s. seg_next (segments (snd (segment_alloc m)) s)) (Some (Suc n)) [Suc n..<?e]"
    using rel by (intro chain_upt)
      (auto simp: sfl_rel_def segment_alloc_def UM_SEGMENT_ALLOC_BATCH_SIZE_def Let_def)
  with rel show "\<exists>m' n'. segment_alloc m = (n, m') \<and> n < n' \<and> sfl_rel m' [Suc n..<n'] n'"
    by (intro exI [of _ "snd (segment_alloc m)"] exI [of _ ?e])
      (auto simp: sfl_rel_def segment_alloc_def UM_SEGMENT_ALLOC_BATCH_SIZE_def Let_def)
next
  fix m fl n a
  assume rel: "sfl_rel m fl n" and a: "a \<notin> set fl" "a < n"
  have "chain (\<lambda>s. seg_next (segments (um_segment_free m a) s)) p fl \<longleftrightarrow>
      chain (\<lambda>s. seg_next (segments m s)) p fl" for p
    using a by (intro chain_cong) (auto simp: um_segment_free_def)
  with rel show "sfl_rel (um_segment_free m a) (a # fl) n"
    by (auto simp: sfl_rel_def um_segment_free_def)
qed

section \<open>The three lists together\<close>

text \<open>The transient list is doubly linked and its first element has no predecessor.\<close>

definition opprev :: "um \<Rightarrow> addr \<Rightarrow> addr option" where
  "opprev m a = op_prev (ops m a)"

fun dlist :: "(addr \<Rightarrow> addr option) \<Rightarrow> (addr \<Rightarrow> addr option) \<Rightarrow> addr option \<Rightarrow> addr option \<Rightarrow> addr list \<Rightarrow> bool"
where
  "dlist nx pv prev p [] \<longleftrightarrow> p = None"
| "dlist nx pv prev p (a # as) \<longleftrightarrow> p = Some a \<and> pv a = prev \<and> dlist nx pv (Some a) (nx a) as"

lemma dlist_cong:
  "(\<And>a. a \<in> set as \<Longrightarrow> nx' a = nx a \<and> pv' a = pv a) \<Longrightarrow> dlist nx' pv' prev p as \<longleftrightarrow> dlist nx pv prev p as"
  by (induction as arbitrary: prev p) auto

lemma dlist_upd_nx [simp]: "a \<notin> set as \<Longrightarrow> dlist (nx(a := q)) pv prev p as \<longleftrightarrow> dlist nx pv prev p as"
  by (rule dlist_cong) auto

lemma dlist_upd_pv [simp]: "a \<notin> set as \<Longrightarrow> dlist nx (pv(a := q)) prev p as \<longleftrightarrow> dlist nx pv prev p as"
  by (rule dlist_cong) auto

lemma dlist_pred:
  "dlist nx pv prev p (us @ a # vs) \<Longrightarrow> pv a = (if us = [] then prev else Some (last us))"
  by (induction us arbitrary: prev p) (auto split: if_splits)

lemma dlist_succ:
  "dlist nx pv prev p (us @ a # vs) \<Longrightarrow> nx a = (case vs of [] \<Rightarrow> None | n # _ \<Rightarrow> Some n)"
  by (induction us arbitrary: prev p) (auto split: list.splits)

text \<open>Unlinking an element that has a predecessor, and the first one.\<close>

lemma dlist_unlink:
  "dlist nx pv prev p (us @ b # a # vs) \<Longrightarrow> distinct (us @ b # a # vs) \<Longrightarrow>
   dlist (nx(b := nx a)) (case nx a of None \<Rightarrow> pv | Some n \<Rightarrow> pv(n := Some b)) prev p (us @ b # vs)"
proof (induction us arbitrary: prev p)
  case Nil
  show ?case
  proof (cases vs)
    case (Cons n vs')
    have "dlist (nx(b := Some n)) (pv(n := Some b)) (Some n) (nx n) vs' \<longleftrightarrow> dlist nx pv (Some n) (nx n) vs'"
      using Nil Cons by (intro dlist_cong) auto
    with Nil Cons have "dlist (nx(b := Some n)) (pv(n := Some b)) (Some n) (nx n) vs'" by simp
    moreover have "(nx(b := Some n)) n = nx n" "nx a = Some n" using Nil Cons by auto
    ultimately show ?thesis using Nil Cons by (simp only: append.simps dlist.simps option.case) auto
  qed (use Nil in simp)
next
  case (Cons c us)
  have "nx a = (case vs of [] \<Rightarrow> None | n # _ \<Rightarrow> Some n)"
    using dlist_succ [of nx pv prev p "c # us @ [b]" a vs] Cons.prems(1) by simp
  then have "nx a \<noteq> Some c" using Cons.prems(2) by (auto split: list.splits)
  then have pvc: "(case nx a of None \<Rightarrow> pv | Some n \<Rightarrow> pv(n := Some b)) c = pv c"
    by (auto split: option.split)
  have nxc: "(nx(b := nx a)) c = nx c" using Cons.prems(2) by simp
  have p: "p = Some c" "pv c = prev" using Cons.prems(1) by simp_all
  have tl: "dlist (nx(b := nx a)) (case nx a of None \<Rightarrow> pv | Some n \<Rightarrow> pv(n := Some b))
      (Some c) (nx c) (us @ b # vs)"
    by (rule Cons.IH) (use Cons.prems in auto)
  show ?case unfolding append_Cons dlist.simps pvc nxc using p tl by blast
qed

lemma dlist_unlink_head:
  "dlist nx pv prev p (a # vs) \<Longrightarrow> distinct (a # vs) \<Longrightarrow>
   dlist nx (case nx a of None \<Rightarrow> pv | Some n \<Rightarrow> pv(n := prev)) prev (nx a) vs"
  by (cases vs) simp_all

definition op_lists :: "um \<Rightarrow> addr list \<Rightarrow> addr list \<Rightarrow> addr list \<Rightarrow> bool" where
  "op_lists m q fl ts \<longleftrightarrow>
     rq_rel m q \<and> chain (opnext m) (op_freelist m) fl \<and> dlist (opnext m) (opprev m) None (transient_head m) ts \<and>
     distinct (q @ fl @ ts) \<and> (\<forall>a \<in> set (q @ fl @ ts). a < op_fresh m) \<and>
     ops_runqueue (metrics m) = of_nat (length q) \<and> ops_free (metrics m) = of_nat (length fl) \<and>
     ops_transient (metrics m) = of_nat (length ts)"

lemma opnext_push:
  "x \<noteq> a \<Longrightarrow> runqueue_tail m \<noteq> Some x \<Longrightarrow> ops (um_runqueue_push m a) x = ops m x"
  by (auto simp: um_runqueue_push_def Let_def split: option.split)

lemma push_fields [simp]:
  "op_freelist (um_runqueue_push m a) = op_freelist m"
  "transient_head (um_runqueue_push m a) = transient_head m"
  "op_fresh (um_runqueue_push m a) = op_fresh m"
  "metrics (um_runqueue_push m a) = (metrics m)\<lparr>ops_runqueue := ops_runqueue (metrics m) + 1\<rparr>"
  by (auto simp: um_runqueue_push_def Let_def split: option.split)

lemma push_lists:
  assumes inv: "op_lists m q fl ts" and a: "a \<notin> set (q @ fl @ ts)" "a < op_fresh m"
  shows "op_lists (um_runqueue_push m a) (q @ [a]) fl ts"
proof -
  have tail: "x \<notin> set q \<Longrightarrow> runqueue_tail m \<noteq> Some x" for x
    using inv by (auto simp: op_lists_def rq_rel_def)
  have same: "x \<in> set (fl @ ts) \<Longrightarrow> ops (um_runqueue_push m a) x = ops m x" for x
    using inv a tail [of x] by (intro opnext_push) (auto simp: op_lists_def)
  have "chain (opnext (um_runqueue_push m a)) p fl \<longleftrightarrow> chain (opnext m) p fl" for p
    using same by (intro chain_cong) (simp add: opnext_def)
  moreover have "dlist (opnext (um_runqueue_push m a)) (opprev (um_runqueue_push m a)) None p ts \<longleftrightarrow> dlist (opnext m) (opprev m) None p ts" for p
    using same by (intro dlist_cong) (simp add: opnext_def opprev_def)
  moreover have "rq_rel (um_runqueue_push m a) (q @ [a])"
    using inv a by (intro rq_push) (auto simp: op_lists_def)
  ultimately show ?thesis using inv a by (auto simp: op_lists_def)
qed

lemma shift_lists:
  assumes inv: "op_lists m (a # q) fl ts"
  shows "\<exists>m'. um_runqueue_shift m = (Some a, m') \<and> op_lists m' q fl ts \<and> ops m' = ops m"
proof -
  obtain m' where m': "um_runqueue_shift m = (Some a, m')" "rq_rel m' q"
    using rq.shift_Cons [of m a q] inv unfolding op_lists_def by blast
  then have f: "ops m' = ops m" "op_freelist m' = op_freelist m" "transient_head m' = transient_head m"
    "op_fresh m' = op_fresh m"
    "metrics m' = (metrics m)\<lparr>ops_runqueue := ops_runqueue (metrics m) - 1\<rparr>"
    by (auto simp: um_runqueue_shift_def Let_def split: option.splits)
  have "opnext m' = opnext m" using f(1) by (simp add: opnext_def fun_eq_iff)
  moreover have "dlist (opnext m') (opprev m') None p ts \<longleftrightarrow> dlist (opnext m) (opprev m) None p ts" for p
    using f(1) by (intro dlist_cong) (simp add: opnext_def opprev_def)
  ultimately have "op_lists m' q fl ts" using inv m' f by (auto simp: op_lists_def)
  with m' f show ?thesis by blast
qed

text \<open>An operation acquired is on none of the lists.\<close>

lemma acquire_lists:
  assumes inv: "op_lists m q fl ts"
  shows "\<exists>a m' fl'. um_op_acquire m = (a, m') \<and> op_lists m' q fl' ts \<and>
    a \<notin> set (q @ fl' @ ts) \<and> a < op_fresh m' \<and> op_fresh m \<le> op_fresh m' \<and>
    (if fl = [] then op_fresh m \<le> a else a = hd fl \<and> fl' = tl fl)"
proof (cases fl)
  case Nil
  define e where "e = op_fresh m + 256"
  let ?n = "op_fresh m" and ?m' = "snd (um_op_alloc m)"
  let ?fl' = "[Suc ?n..<e]"
  have e: "Suc ?n < e" "e - Suc ?n = 255" by (simp_all add: e_def)
  have al: "um_op_alloc m = (?n, ?m')" "op_freelist ?m' = Some (Suc ?n)" "op_fresh ?m' = e"
    "runqueue_head ?m' = runqueue_head m" "runqueue_tail ?m' = runqueue_tail m"
    "transient_head ?m' = transient_head m" "metrics ?m' = (metrics m)\<lparr>ops_free := ops_free (metrics m) + 255\<rparr>"
    using inv Nil by (auto simp: op_lists_def um_op_alloc_def Let_def UM_OP_ALLOC_BATCH_SIZE_def e_def)
  have new: "ops ?m' x = (if ?n < x \<and> x < e
      then (ops m x)\<lparr>op_next := (if Suc x < e then Some (Suc x) else None)\<rparr> else ops m x)" for x
    using inv Nil by (auto simp: op_lists_def um_op_alloc_def Let_def UM_OP_ALLOC_BATCH_SIZE_def e_def)
  have b: "\<forall>x \<in> set (q @ ts). x < ?n" "distinct (q @ ts)" using inv Nil by (auto simp: op_lists_def)
  have old: "ops ?m' x = ops m x" if "x \<in> set (q @ ts)" for x
    using bspec [OF b(1) that] by (simp add: new)
  have "chain (opnext ?m') (op_freelist ?m') ?fl'"
    unfolding al(2) using e by (intro chain_upt) (auto simp: opnext_def new)
  moreover have "chain (opnext ?m') p q \<longleftrightarrow> chain (opnext m) p q" for p
    using old by (intro chain_cong) (simp add: opnext_def)
  moreover have "dlist (opnext ?m') (opprev ?m') None p ts \<longleftrightarrow> dlist (opnext m) (opprev m) None p ts" for p
    using old by (intro dlist_cong) (simp add: opnext_def opprev_def)
  moreover have "distinct (q @ ?fl' @ ts)" "\<forall>x \<in> set (q @ ?fl' @ ts). x < e"
    "?n \<notin> set (q @ ?fl' @ ts)"
    using b e by (auto dest: bspec)
  ultimately have "op_lists ?m' q ?fl' ts"
    using inv Nil al e unfolding op_lists_def rq_rel_def by simp
  with al e Nil \<open>?n \<notin> set (q @ ?fl' @ ts)\<close> show ?thesis
    by (intro exI [of _ ?n] exI [of _ ?m'] exI [of _ ?fl']) (simp add: um_op_acquire_def)
next
  case (Cons a fl')
  let ?m' = "snd (um_op_alloc m)"
  have al: "um_op_alloc m = (a, ?m')" "op_freelist ?m' = op_next (ops m a)" "op_fresh ?m' = op_fresh m"
    "runqueue_head ?m' = runqueue_head m" "runqueue_tail ?m' = runqueue_tail m" "ops ?m' = ops m"
    "transient_head ?m' = transient_head m" "metrics ?m' = (metrics m)\<lparr>ops_free := ops_free (metrics m) - 1\<rparr>"
    using inv Cons by (auto simp: op_lists_def um_op_alloc_def)
  have "opnext ?m' = opnext m" using al by (simp add: opnext_def fun_eq_iff)
  moreover have "dlist (opnext ?m') (opprev ?m') None p ts \<longleftrightarrow> dlist (opnext m) (opprev m) None p ts" for p
    using al by (intro dlist_cong) (simp add: opnext_def opprev_def)
  ultimately have "op_lists ?m' q fl' ts" "a \<notin> set (q @ fl' @ ts)" "a < op_fresh m"
    using inv Cons al by (auto simp: op_lists_def rq_rel_def opnext_def)
  with al Cons show ?thesis
    by (intro exI [of _ a] exI [of _ ?m'] exI [of _ fl']) (simp add: um_op_acquire_def)
qed

lemma free_lists:
  assumes inv: "op_lists m q fl ts" and a: "a \<notin> set (q @ fl @ ts)" "a < op_fresh m"
  shows "op_lists (um_op_free m a) q (a # fl) ts"
proof -
  have same: "x \<in> set (q @ fl @ ts) \<Longrightarrow> ops (um_op_free m a) x = ops m x" for x
    using a by (auto simp: um_op_free_def)
  have "chain (opnext (um_op_free m a)) p as \<longleftrightarrow> chain (opnext m) p as"
    if "set as \<subseteq> set (q @ fl @ ts)" for p as
    using that same by (intro chain_cong) (auto simp: opnext_def subset_iff)
  then have "chain (opnext (um_op_free m a)) p q \<longleftrightarrow> chain (opnext m) p q"
    "chain (opnext (um_op_free m a)) p fl \<longleftrightarrow> chain (opnext m) p fl" for p by auto
  moreover have "dlist (opnext (um_op_free m a)) (opprev (um_op_free m a)) None p ts \<longleftrightarrow> dlist (opnext m) (opprev m) None p ts" for p
    using same by (intro dlist_cong) (simp add: opnext_def opprev_def)
  ultimately show ?thesis using inv a
    by (auto simp: op_lists_def rq_rel_def um_op_free_def)
qed

lemma opprev_simps [simp]:
  "opprev (m\<lparr>transient_head := p\<rparr>) = opprev m"
  "opprev (upd_metrics f m) = opprev m"
  "opprev (upd_op a g m) = (opprev m)(a := op_prev (g (ops m a)))"
  "opprev (clear_flags a g2 m) = opprev m" "opnext (clear_flags a g2 m) = opnext m"
  by (simp_all add: opprev_def opnext_def fun_eq_iff)

lemma transient_add_lists:
  assumes inv: "op_lists m q fl ts" and a: "a \<notin> set (q @ fl @ ts)" "a < op_fresh m"
    and clear: "op_prev (ops m a) = None" "op_next (ops m a) = None"
  shows "op_lists (um_op_transient_add m a) q fl (a # ts)"
proof -
  let ?m' = "um_op_transient_add m a"
  have d: "dlist (opnext m) (opprev m) None (transient_head m) ts" "distinct ts"
    using inv by (simp_all add: op_lists_def)
  have nx: "opnext ?m' = (opnext m)(a := transient_head m)"
    and pv: "opprev ?m' = (case transient_head m of None \<Rightarrow> opprev m | Some h \<Rightarrow> (opprev m)(h := Some a))"
    using a(1) d clear
    by (auto simp: um_op_transient_add_def Let_def opnext_def opprev_def fun_eq_iff split: option.split)
  have "dlist (opnext ?m') (opprev ?m') None (Some a) (a # ts)"
    using d a(1) clear unfolding nx pv
    by (cases ts) (auto simp: opprev_def split: option.splits)
  moreover have "chain (opnext ?m') p as \<longleftrightarrow> chain (opnext m) p as" if "a \<notin> set as" for p as
    using that by (simp add: nx)
  then have "rq_rel ?m' q" "chain (opnext ?m') (op_freelist ?m') fl"
    using inv a(1) by (auto simp: op_lists_def rq_rel_def um_op_transient_add_def Let_def split: option.split)
  ultimately show ?thesis using inv a
    by (auto simp: op_lists_def um_op_transient_add_def Let_def split: option.split)
qed

text \<open>An operation can leave the transient list from any position.\<close>

lemma transient_remove_lists:
  assumes inv: "op_lists m q fl ts" and a: "a \<in> set ts"
  shows "op_lists (um_op_transient_remove m a) q fl (remove1 a ts) \<and>
    a \<notin> set (q @ fl @ remove1 a ts) \<and> \<not> op_has (um_op_transient_remove m a) a OP_F_TRANSIENT"
proof -
  let ?m' = "um_op_transient_remove m a"
  have d: "dlist (opnext m) (opprev m) None (transient_head m) ts" and dist: "distinct (q @ fl @ ts)"
    using inv by (simp_all add: op_lists_def)
  obtain us vs where ts: "ts = us @ a # vs" using a by (auto simp: in_set_conv_decomp)
  have rem: "remove1 a ts = us @ vs" using dist by (simp add: ts remove1_append)
  have succ: "opnext m a = (case vs of [] \<Rightarrow> None | n # _ \<Rightarrow> Some n)" using d ts dlist_succ by simp
  have pred: "opprev m a = (if us = [] then None else Some (last us))" using d ts dlist_pred by simp
  have na: "opnext m a \<noteq> Some a" "opprev m a \<noteq> Some a"
    using succ pred dist ts last_in_set [of us] by (auto split: list.splits)
  have nx: "opnext ?m' = (case opprev m a of None \<Rightarrow> opnext m | Some b \<Rightarrow> (opnext m)(b := opnext m a))"
    and pv: "opprev ?m' = (case opnext m a of None \<Rightarrow> opprev m | Some n \<Rightarrow> (opprev m)(n := opprev m a))"
    using na by (auto simp: um_op_transient_remove_def Let_def opnext_def opprev_def fun_eq_iff
        split: option.split)
  have head: "transient_head ?m' = (if us = [] then opnext m a else transient_head m)"
    using d dist na unfolding ts
    by (cases us) (auto simp: um_op_transient_remove_def Let_def opnext_def opprev_def split: option.splits)
  have "dlist (opnext ?m') (opprev ?m') None (transient_head ?m') (us @ vs)"
  proof (cases us rule: rev_cases)
    case Nil
    then show ?thesis using dlist_unlink_head [of "opnext m" "opprev m" None _ a vs] d dist pred
      unfolding nx pv head ts by (simp split: option.splits)
  next
    case (snoc us' b)
    then show ?thesis
      using dlist_unlink [of "opnext m" "opprev m" None "transient_head m" us' b a vs] d dist pred
      unfolding nx pv head ts by (simp split: option.splits)
  qed
  moreover have "chain (opnext ?m') p as \<longleftrightarrow> chain (opnext m) p as" if "set as \<inter> set ts = {}" for p as
    using that pred ts unfolding nx
    by (intro chain_cong) (auto split: if_splits option.splits dest!: last_in_set)
  then have "chain (opnext ?m') p q \<longleftrightarrow> chain (opnext m) p q" "chain (opnext ?m') p fl \<longleftrightarrow> chain (opnext m) p fl" for p
    using dist by auto
  moreover have "runqueue_head ?m' = runqueue_head m" "runqueue_tail ?m' = runqueue_tail m"
    "op_freelist ?m' = op_freelist m" "op_fresh ?m' = op_fresh m"
    "metrics ?m' = (metrics m)\<lparr>ops_transient := ops_transient (metrics m) - 1\<rparr>"
    by (auto simp: um_op_transient_remove_def Let_def split: option.split)
  moreover have "\<not> op_has ?m' a OP_F_TRANSIENT"
    using na by (auto simp: um_op_transient_remove_def Let_def op_has_def um_flag_defs opnext_def opprev_def
        split: option.split)
  ultimately show ?thesis using inv dist ts
    unfolding op_lists_def rq_rel_def rem by auto
qed

end
