(* ===== verification/UM_Op_Props.thy ===== *)
theory UM_Op_Props
  imports UM_Op_Inv
begin

text \<open>
  Properties of \<^verbatim>\<open>um_op.c\<close>: the order of the run queue, acquiring and releasing
  operations, and the list of results of a multishot operation.
\<close>

section \<open>The results of a multishot operation\<close>

definition result_view :: "um_op_result \<Rightarrow> int \<times> u32 \<times> addr option" where
  "result_view y = (res y, res_flags y, res_segment y)"

definition rnext :: "um \<Rightarrow> addr \<Rightarrow> addr option" where
  "rnext m r = res_next (results m r)"

text \<open>
  \<open>op_results m a rs xs\<close>: operation \<open>a\<close> holds the results \<open>xs\<close>, oldest first; the first is stored
  in the operation, the others in the records \<open>rs\<close>.
\<close>

definition op_results :: "um \<Rightarrow> addr \<Rightarrow> addr list \<Rightarrow> (int \<times> u32 \<times> addr option) list \<Rightarrow> bool" where
  "op_results m a rs xs \<longleftrightarrow>
     op_result_count (ops m a) = of_nat (length xs) \<and> length xs < 2 ^ 32 \<and>
     (if xs = [] then rs = []
      else result_view (op_result (ops m a)) # map (\<lambda>r. result_view (results m r)) rs = xs \<and>
        chain (rnext m) (res_next (op_result (ops m a))) rs \<and>
        op_result_tail (ops m a) = Some (if rs = [] then Inline else Heap (last rs)))"

lemma rnext_upd_op [simp]: "rnext (upd_op a g m) = rnext m"
  by (simp add: rnext_def fun_eq_iff)

lemma count_zero_iff: "op_results m a rs xs \<Longrightarrow> op_result_count (ops m a) = 0 \<longleftrightarrow> xs = []"
  using of_nat_u32_eq_iff [of "length xs" 0] by (auto simp: op_results_def)

lemma rfl_rel_upd_next:
  "rfl_rel m fl n \<Longrightarrow> r \<notin> set fl \<Longrightarrow> results m' = (results m)(r := y) \<Longrightarrow>
   result_freelist m' = result_freelist m \<Longrightarrow> result_fresh m' = result_fresh m \<Longrightarrow> rfl_rel m' fl n"
proof -
  assume a: "rfl_rel m fl n" "r \<notin> set fl" "results m' = (results m)(r := y)"
    "result_freelist m' = result_freelist m" "result_fresh m' = result_fresh m"
  have "chain (\<lambda>r. res_next (results m' r)) p fl \<longleftrightarrow> chain (\<lambda>r. res_next (results m r)) p fl" for p
    using a by (intro chain_cong) auto
  with a show ?thesis by (simp add: rfl_rel_def)
qed

lemma alloc_result_fields:
  assumes "multishot_result_alloc m = (x, m')"
  shows "ops m' = ops m" "r \<noteq> x \<Longrightarrow> r < result_fresh m \<Longrightarrow> results m' r = results m r"
    "res_segment (results m' x) = None"
    "op_fresh m' = op_fresh m" "op_freelist m' = op_freelist m" "metrics m' = metrics m"
    "runqueue_head m' = runqueue_head m" "runqueue_tail m' = runqueue_tail m"
    "transient_head m' = transient_head m"
  using assms
  by (auto simp: multishot_result_alloc_def Let_def result_zero_def UM_OP_RESULT_ALLOC_BATCH_SIZE_def
      split: option.splits)

text \<open>A concrete operation with two results, the second in the only record allocated.\<close>

definition demo_op :: um where
  "demo_op = um_zero\<lparr>op_fresh := 1, result_fresh := 1,
     results := (\<lambda>_. result_zero\<lparr>res := 6\<rparr>),
     ops := (\<lambda>_. op_zero\<lparr>op_flags := OP_F_MULTISHOT, op_ref_count := 1, op_result_count := 2,
       op_result := result_zero\<lparr>res := 5, res_next := Some 0\<rparr>, op_result_tail := Some (Heap 0)\<rparr>)\<rparr>"

lemma demo_op_ok:
  "op_results demo_op 0 [0] [(5, 0, None), (6, 0, None)]" "result_pool.pool_ok demo_op {0} [] 1"
  "op_lists demo_op [] [] []"
  by (simp_all add: demo_op_def um_zero_def op_results_def result_view_def result_zero_def rnext_def
      result_pool.pool_ok_def rfl_rel_def op_lists_def rq_rel_def metrics_zero_def lessThan_Suc)

lemma op_lists_upd_op:
  assumes "\<And>x. op_next (g x) = op_next x \<and> op_prev (g x) = op_prev x"
  shows "op_lists (upd_op a g m) q fl ts \<longleftrightarrow> op_lists m q fl ts"
proof -
  have "opnext (upd_op a g m) = opnext m" "opprev (upd_op a g m) = opprev m"
    using assms by (auto simp: opnext_def opprev_def fun_eq_iff)
  then show ?thesis by (simp add: op_lists_def rq_rel_def)
qed

lemma results_push:
  assumes xs: "op_results m a rs xs" and pool: "result_pool.pool_ok m live fl n"
    and rs: "set rs \<subseteq> live" and len: "length xs + 1 < 2 ^ 32"
    and plain: "\<not> op_has m a OP_F_BUFFER_POOL \<or> r < 0"
  shows "\<exists>m' rs' live' fl' n'. um_op_multishot_results_push m a r flags = Some m' \<and>
    op_results m' a rs' (xs @ [(r, flags, if xs = [] then res_segment (op_result (ops m a)) else None)]) \<and>
    result_pool.pool_ok m' live' fl' n' \<and> set rs' \<subseteq> live' \<and> live \<subseteq> live' \<and>
    (\<forall>q fl ts. op_lists m' q fl ts \<longleftrightarrow> op_lists m q fl ts) \<and> op_fresh m' = op_fresh m \<and>
    op_flags (ops m' a) = op_flags (ops m a) \<and> op_ref_count (ops m' a) = op_ref_count (ops m a)"
proof (cases "xs = []")
  case True
  then have "op_result_count (ops m a) = 0" "rs = []" using xs count_zero_iff
    by (auto simp: op_results_def)
  moreover define m' where "m' = upd_op a (\<lambda>x. x\<lparr>op_result := (op_result x)\<lparr>res := r, res_flags := flags,
      res_next := None\<rparr>, op_result_tail := Some Inline, op_result_count := 1\<rparr>) m"
  ultimately have "um_op_multishot_results_push m a r flags = Some m'" "op_results m' a []
      [(r, flags, res_segment (op_result (ops m a)))]"
    using plain True
    by (auto simp: um_op_multishot_results_push_def upd_result_def op_has_def op_results_def
        result_view_def m'_def upd_op_def)
  moreover have "result_pool.pool_ok m' live fl n"
    using pool by (simp add: result_pool.pool_ok_def rfl_rel_def m'_def)
  moreover have "\<forall>q fl ts. op_lists m' q fl ts \<longleftrightarrow> op_lists m q fl ts"
    by (simp add: m'_def op_lists_upd_op)
  moreover have "op_fresh m' = op_fresh m" "op_flags (ops m' a) = op_flags (ops m a)"
    "op_ref_count (ops m' a) = op_ref_count (ops m a)" by (simp_all add: m'_def)
  ultimately show ?thesis using True
    by (intro exI [of _ m'] exI [of _ "[]"] exI [of _ live] exI [of _ fl] exI [of _ n]) simp
next
  case False
  then have cnt: "op_result_count (ops m a) \<noteq> 0" using xs count_zero_iff by blast
  obtain x m1 fl' n' where al: "multishot_result_alloc m = (x, m1)" "x \<notin> live"
    "result_pool.pool_ok m1 (insert x live) fl' n'"
    using result_pool.alloc_ok [OF pool] by blast
  let ?t = "if rs = [] then Inline else Heap (last rs)"
  let ?y = "(results m1 x)\<lparr>res := r, res_flags := flags, res_next := None\<rparr>"
  have t: "op_result_tail (ops m a) = Some ?t" using xs False by (simp add: op_results_def)
  note f = alloc_result_fields [OF al(1)]
  have fresh: "live \<subseteq> {..<result_fresh m}" using pool by (auto simp: result_pool.pool_ok_def rfl_rel_def)
  have old: "results m1 q = results m q" if "q \<in> set rs" for q
    using that rs fresh al(2) by (intro f(2)) auto
  have xrs: "x \<notin> set rs" and dist: "distinct rs"
    using al(2) rs xs False chain_distinct by (auto simp: op_results_def)
  obtain m2 where m2: "um_op_multishot_results_push m a r flags = Some m2"
    and res: "results m2 = (if rs = [] then (results m1)(x := ?y)
      else (results m1)(last rs := (results m1 (last rs))\<lparr>res_next := Some x\<rparr>, x := ?y))"
    and op: "ops m2 = (ops m)(a := (ops m a)\<lparr>op_result := (if rs = []
        then (op_result (ops m a))\<lparr>res_next := Some x\<rparr> else op_result (ops m a)),
        op_result_tail := Some (Heap x), op_result_count := op_result_count (ops m a) + 1\<rparr>)"
    and fr: "result_freelist m2 = result_freelist m1" "result_fresh m2 = result_fresh m1"
    and fr2: "op_fresh m2 = op_fresh m" "op_freelist m2 = op_freelist m" "metrics m2 = metrics m"
      "runqueue_head m2 = runqueue_head m" "runqueue_tail m2 = runqueue_tail m"
      "transient_head m2 = transient_head m"
    using cnt al(1) t plain f(1,4-) xrs
    by (cases "rs = []")
      (auto simp: um_op_multishot_results_push_def upd_result_def op_has_def upd_op_def)
  have chain: "chain (rnext m) (res_next (op_result (ops m a))) rs" using xs False by (simp add: op_results_def)
  have chain2: "chain (rnext m2) (res_next (op_result (ops m2 a))) (rs @ [x])"
  proof (cases "rs = []")
    case True
    then show ?thesis using op res by (simp add: rnext_def)
  next
    case ne: False
    have "chain ((rnext m)(last rs := Some x, x := None)) (res_next (op_result (ops m a))) (rs @ [x])"
      by (rule chain_push_tail [OF chain dist xrs ne])
    moreover have "chain (rnext m2) p (rs @ [x]) \<longleftrightarrow>
        chain ((rnext m)(last rs := Some x, x := None)) p (rs @ [x])" for p
      using res ne old xrs by (intro chain_cong) (auto simp: rnext_def)
    ultimately show ?thesis using op ne by simp
  qed
  have view: "map (\<lambda>q. result_view (results m2 q)) rs = map (\<lambda>q. result_view (results m q)) rs"
    using res old xrs by (auto simp: result_view_def)
  have "op_results m2 a (rs @ [x]) (xs @ [(r, flags, None)])"
    using xs False chain2 view op res len f(3)
    by (auto simp: op_results_def result_view_def add.commute)
  moreover have "result_pool.pool_ok m2 (insert x live) fl' n'"
  proof -
    have ok: "rfl_rel m1 fl' n'" "insert x live \<inter> set fl' = {}"
      using al(3) by (simp_all only: result_pool.pool_ok_def)
    have "x \<notin> set fl'" "rs \<noteq> [] \<Longrightarrow> last rs \<notin> set fl'" using ok(2) rs last_in_set [of rs] by blast+
    then have "chain (\<lambda>q. res_next (results m2 q)) p fl' \<longleftrightarrow> chain (\<lambda>q. res_next (results m1 q)) p fl'" for p
      using res by (intro chain_cong) auto
    then have "rfl_rel m2 fl' n'" using ok(1) fr by (simp add: rfl_rel_def)
    then show ?thesis using al(3) by (simp add: result_pool.pool_ok_def)
  qed
  moreover have "opnext m2 = opnext m" "opprev m2 = opprev m"
    using op by (auto simp: opnext_def opprev_def fun_eq_iff)
  then have "\<forall>q fl ts. op_lists m2 q fl ts \<longleftrightarrow> op_lists m q fl ts"
    using fr2 by (simp add: op_lists_def rq_rel_def)
  moreover have "op_flags (ops m2 a) = op_flags (ops m a)" "op_ref_count (ops m2 a) = op_ref_count (ops m a)"
    using op by simp_all
  moreover have "set (rs @ [x]) \<subseteq> insert x live" "live \<subseteq> insert x live" using rs by auto
  ultimately show ?thesis using m2 False fr2(1) unfolding if_not_P [OF False] by blast
qed



text \<open>What the operations on results leave alone.\<close>

definition ops_view where
  "ops_view m =
     ((ops m, op_fresh m, transient_head m, pending_fibers m, op_freelist m),
      (runqueue_head m, runqueue_tail m, sqes m, sqe_slots m, current_fiber m),
      (ops_runqueue (metrics m), ops_free (metrics m), ops_transient (metrics m)),
      (ops_pending (metrics m), ops_unsubmitted (metrics m), iovecs_live m))"

lemma op_lists_view: "ops_view m' = ops_view m \<Longrightarrow> op_lists m' q fl ts \<longleftrightarrow> op_lists m q fl ts"
  by (simp add: ops_view_def op_lists_def rq_rel_def opnext_def [abs_def] opprev_def [abs_def])

lemma free_result_fields:
  "ops_view (multishot_result_free m r) = ops_view m"
  "ops (multishot_result_free m r) = ops m" "buffers (multishot_result_free m r) = buffers m"
  "q \<noteq> r \<Longrightarrow> rnext (multishot_result_free m r) q = rnext m q"
  by (auto simp: multishot_result_free_def um_segment_free_def Let_def rnext_def ops_view_def
      split: option.split)

lemma free_results_chain:
  "chain (rnext m) p rs \<Longrightarrow> distinct rs \<Longrightarrow> result_pool.pool_ok m live fl n \<Longrightarrow> set rs \<subseteq> live \<Longrightarrow>
   \<exists>m'. free_results m p = Some m' \<and> result_pool.pool_ok m' (live - set rs) (rev rs @ fl) n \<and>
     ops_view m' = ops_view m \<and> ops m' = ops m \<and> buffers m' = buffers m"
proof (induction rs arbitrary: m p live fl)
  case Nil
  then show ?case by (subst free_results.simps) simp
next
  case (Cons r rs)
  let ?m1 = "multishot_result_free m r"
  have "chain (rnext ?m1) q rs \<longleftrightarrow> chain (rnext m) q rs" for q
    using Cons.prems(2) by (intro chain_cong free_result_fields(4)) auto
  then have "chain (rnext ?m1) (rnext m r) rs" using Cons.prems(1) by simp
  moreover have "result_pool.pool_ok ?m1 (live - {r}) (r # fl) n"
    using Cons.prems by (intro result_pool.release_ok) auto
  moreover have "set rs \<subseteq> live - {r}" "distinct rs" using Cons.prems by auto
  ultimately obtain m' where m': "free_results ?m1 (rnext m r) = Some m'"
    "result_pool.pool_ok m' (live - {r} - set rs) (rev rs @ r # fl) n"
    "ops_view m' = ops_view ?m1" "ops m' = ops ?m1" "buffers m' = buffers ?m1"
    using Cons.IH by blast
  have "free_results m p = Some m'"
    using Cons.prems(1) m'(1) by (subst free_results.simps) (simp add: rnext_def)
  moreover have "live - {r} - set rs = live - set (r # rs)" by auto
  ultimately show ?case using m' free_result_fields(1-3) by (intro exI [of _ m']) simp
qed

lemma results_clear:
  assumes xs: "op_results m a rs xs" and pool: "result_pool.pool_ok m live fl n" and rs: "set rs \<subseteq> live"
  shows "\<exists>m'. um_op_multishot_results_clear m a = Some m' \<and> op_results m' a [] [] \<and>
    result_pool.pool_ok m' (live - set rs) (rev rs @ fl) n \<and> buffers m' = buffers m \<and>
    op_fresh m' = op_fresh m \<and> (\<forall>q fl ts. op_lists m' q fl ts \<longleftrightarrow> op_lists m q fl ts)"
proof (cases "xs = []")
  case True
  then have "op_result_count (ops m a) = 0" "rs = []" using xs count_zero_iff
    by (auto simp: op_results_def)
  with xs pool True show ?thesis by (simp add: um_op_multishot_results_clear_def)
next
  case False
  have "op_result_count (ops m a) \<noteq> 0" using xs False count_zero_iff by blast
  then have cnt: "\<not> op_result_count (ops m a) < 1" using word_less_1 by blast
  have ch: "chain (rnext m) (res_next (op_result (ops m a))) rs" using xs False by (simp add: op_results_def)
  obtain m' where m': "free_results m (res_next (op_result (ops m a))) = Some m'"
    "result_pool.pool_ok m' (live - set rs) (rev rs @ fl) n" "ops_view m' = ops_view m"
    "ops m' = ops m" "buffers m' = buffers m"
    using free_results_chain [OF ch chain_distinct [OF ch] pool rs] by blast
  let ?m2 = "upd_op a (\<lambda>x. x\<lparr>op_result := (op_result x)\<lparr>res_next := None\<rparr>,
    op_result_tail := None, op_result_count := 0\<rparr>) m'"
  have "um_op_multishot_results_clear m a = Some ?m2"
    using cnt m'(1) by (simp add: um_op_multishot_results_clear_def)
  moreover have "op_results ?m2 a [] []" by (simp add: op_results_def)
  moreover have "result_pool.pool_ok ?m2 (live - set rs) (rev rs @ fl) n"
    using m'(2) by (simp add: result_pool.pool_ok_def rfl_rel_def)
  moreover have "op_lists ?m2 q fl ts \<longleftrightarrow> op_lists m q fl ts" for q fl ts
    using op_lists_upd_op [of _ a m' q fl ts] op_lists_view [OF m'(3)] by simp
  moreover have "op_fresh m' = op_fresh m" using m'(3) by (simp add: ops_view_def)
  ultimately show ?thesis using m'(5) by (intro exI [of _ ?m2]) simp
qed

text \<open>Clearing the results of an operation returns every extra result record to the pool, once, and
  leaves the operation with no results. It checks no buffer in: the buffers, and with them their
  reference counts, are exactly as before, even when the results dropped hold segments.\<close>

theorem multishot_clear:
  assumes "op_results m a rs xs" "result_pool.pool_ok m live fl n" "set rs \<subseteq> live"
  shows "\<exists>m'. um_op_multishot_results_clear m a = Some m' \<and> op_results m' a [] [] \<and>
    result_pool.pool_ok m' (live - set rs) (rev rs @ fl) n \<and> buffers m' = buffers m"
  using results_clear [OF assms] by blast

theorem multishot_clear_witness:
  "\<exists>m'. um_op_multishot_results_clear demo_op 0 = Some m' \<and> op_results m' 0 [] [] \<and>
    result_pool.pool_ok m' ({0} - set [0]) (rev [0] @ []) 1 \<and> buffers m' = buffers demo_op"
  by (rule multishot_clear [OF demo_op_ok(1,2)]) simp

section \<open>The lists of operations\<close>

text \<open>Operations leave the run queue in the order in which they were pushed, behind those already there.\<close>

theorem runqueue_fifo:
  assumes q: "rq_rel m q" and as: "distinct as" "set as \<inter> set q = {}"
  shows "fst (rq.drain (length q + length as) (foldl um_runqueue_push m as)) = q @ as"
proof -
  have "rq_rel (foldl um_runqueue_push m as) (q @ as)"
    by (rule rq.foldl_push_rel [OF q]) (use as in auto)
  from rq.drain_rel [OF this, of "length q + length as"] show ?thesis by simp
qed

theorem runqueue_fifo_witness:
  "fst (rq.drain (length ([] :: addr list) + length [7, 3, 5 :: addr])
    (foldl um_runqueue_push um_zero [7, 3, 5])) = [] @ [7, 3, 5]"
  by (rule runqueue_fifo) (simp_all add: rq_rel_def um_zero_def)

text \<open>C7. The run queue, the free list and the transient list are kept disjoint and counted by their
  metrics by every operation on them: pushing, shifting, acquiring (the operation handed out is on no
  list), freeing, and adding to and removing from the transient list, at any position.\<close>

theorem op_lists_preserved:
  assumes inv: "op_lists m q fl ts"
  shows "(\<forall>a < op_fresh m. a \<notin> set (q @ fl @ ts) \<longrightarrow>
      op_lists (um_runqueue_push m a) (q @ [a]) fl ts \<and> op_lists (um_op_free m a) q (a # fl) ts \<and>
      (op_prev (ops m a) = None \<longrightarrow> op_next (ops m a) = None \<longrightarrow>
        op_lists (um_op_transient_add m a) q fl (a # ts))) \<and>
    (q \<noteq> [] \<longrightarrow> (\<exists>m'. um_runqueue_shift m = (Some (hd q), m') \<and> op_lists m' (tl q) fl ts)) \<and>
    (\<exists>a m' fl'. um_op_acquire m = (a, m') \<and> op_lists m' q fl' ts \<and>
      a \<notin> set (q @ fl' @ ts) \<and> a < op_fresh m') \<and>
    (\<forall>a \<in> set ts. op_lists (um_op_transient_remove m a) q fl (remove1 a ts))"
proof (intro conjI)
  show "q \<noteq> [] \<longrightarrow> (\<exists>m'. um_runqueue_shift m = (Some (hd q), m') \<and> op_lists m' (tl q) fl ts)"
    using shift_lists [of m "hd q" "tl q" fl ts] inv by (cases q) auto
  show "\<exists>a m' fl'. um_op_acquire m = (a, m') \<and> op_lists m' q fl' ts \<and>
      a \<notin> set (q @ fl' @ ts) \<and> a < op_fresh m'"
    using acquire_lists [OF inv] by blast
qed (use push_lists [OF inv] free_lists [OF inv] transient_add_lists [OF inv]
    transient_remove_lists [OF inv] in blast)+

lemma op_lists_zero: "op_lists um_zero [] [] []"
  by (simp add: op_lists_def rq_rel_def um_zero_def metrics_zero_def)

theorem op_lists_preserved_witness:
  "\<exists>a m' fl'. um_op_acquire um_zero = (a, m') \<and> op_lists m' [] fl' [] \<and> a < op_fresh m'"
  using op_lists_preserved [OF op_lists_zero] by blast

text \<open>Releasing drops one reference; only the last one frees the operation, after its results, and
  puts it at the head of the free list.\<close>

theorem op_release_refs:
  assumes inv: "op_lists m q fl ts" and a: "a \<notin> set (q @ fl @ ts)" "a < op_fresh m"
    and res: "op_results m a rs xs" "result_pool.pool_ok m live rfl n" "set rs \<subseteq> live"
    and multi: "op_has m a OP_F_MULTISHOT \<or> rs = []" and plain: "\<not> op_has m a OP_F_FREE_IOVECS"
  shows "if op_ref_count (ops m a) \<noteq> 1
    then um_op_release m a = Some (upd_op a (\<lambda>x. x\<lparr>op_ref_count := op_ref_count x - 1\<rparr>) m)
    else \<exists>m'. um_op_release m a = Some m' \<and> op_lists m' q (a # fl) ts \<and>
      result_pool.pool_ok m' (live - set rs) (rev rs @ rfl) n"
proof (cases "op_ref_count (ops m a) = 1")
  case False
  then show ?thesis by (simp add: um_op_release_def)
next
  case True
  let ?m1 = "upd_op a (\<lambda>x. x\<lparr>op_ref_count := op_ref_count x - 1\<rparr>) m"
  have r1: "op_results ?m1 a rs xs"
    using res(1) by (simp add: op_results_def)
  have p1: "result_pool.pool_ok ?m1 live rfl n"
    using res(2) by (simp add: result_pool.pool_ok_def rfl_rel_def)
  have l1: "op_lists ?m1 q fl ts" using inv by (simp add: op_lists_upd_op)
  have f: "op_has ?m1 a f \<longleftrightarrow> op_has m a f" for f by (simp add: op_has_def)
  show ?thesis
  proof (cases "op_has m a OP_F_MULTISHOT")
    case multi: True
    obtain m2 where m2: "um_op_multishot_results_clear ?m1 a = Some m2"
      "result_pool.pool_ok m2 (live - set rs) (rev rs @ rfl) n" "op_fresh m2 = op_fresh ?m1"
      "\<forall>q fl ts. op_lists m2 q fl ts \<longleftrightarrow> op_lists ?m1 q fl ts"
      using results_clear [OF r1 p1 res(3)] by blast
    have "op_lists (um_op_free m2 a) q (a # fl) ts"
      using m2(3,4) l1 a by (intro free_lists) auto
    moreover have "result_pool.pool_ok (um_op_free m2 a) (live - set rs) (rev rs @ rfl) n"
      using m2(2) by (simp add: result_pool.pool_ok_def rfl_rel_def um_op_free_def)
    moreover have "um_op_release m a = Some (um_op_free m2 a)"
      using True multi plain m2(1) f by (simp add: um_op_release_def)
    ultimately show ?thesis using True by auto
  next
    case single: False
    have "op_lists (um_op_free ?m1 a) q (a # fl) ts" using l1 a by (intro free_lists) auto
    moreover have "result_pool.pool_ok (um_op_free ?m1 a) live rfl n"
      using p1 by (simp add: result_pool.pool_ok_def rfl_rel_def um_op_free_def)
    moreover have "um_op_release m a = Some (um_op_free ?m1 a)"
      using True single plain f by (simp add: um_op_release_def)
    ultimately show ?thesis using True single multi by auto
  qed
qed

theorem op_release_refs_witness:
  "\<exists>m'. um_op_release demo_op 0 = Some m' \<and> op_lists m' [] [0] []"
proof -
  have "op_has demo_op 0 OP_F_MULTISHOT" "\<not> op_has demo_op 0 OP_F_FREE_IOVECS"
    "op_ref_count (ops demo_op 0) = 1" "0 < op_fresh demo_op"
    by (simp_all add: demo_op_def op_has_def um_flag_defs)
  then show ?thesis using op_release_refs [OF demo_op_ok(3) _ _ demo_op_ok(1,2)] by auto
qed

section \<open>Marking and compaction\<close>

definition op_values :: "um \<Rightarrow> addr \<Rightarrow> rvalue list" where
  "op_values m a = [op_fiber (ops m a), op_value (ops m a), op_async_op (ops m a)]"

lemma mark_chain:
  "chain (opnext m) p as \<Longrightarrow> um_op_list_mark m p = Some (concat (map (op_values m) as))"
proof (induction as arbitrary: p)
  case Nil
  then show ?case by (subst um_op_list_mark.simps) simp
next
  case (Cons a as)
  have "concat (map (op_values m) (a # as)) = op_values m a @ concat (map (op_values m) as)" by simp
  then show ?case using Cons.IH [of "opnext m a"] Cons.prems
    by (subst um_op_list_mark.simps) (simp add: op_values_def [of m a] flip: opnext_def)
qed

lemma compact_chain:
  "chain (opnext m) p as \<Longrightarrow> distinct as \<Longrightarrow>
   \<exists>m'. um_op_list_compact loc m p = Some m' \<and>
     (\<forall>a. op_values m' a = (if a \<in> set as then map loc (op_values m a) else op_values m a)) \<and>
     opnext m' = opnext m"
proof (induction as arbitrary: p m)
  case Nil
  then show ?case by (subst um_op_list_compact.simps) simp
next
  case (Cons a as)
  let ?m1 = "upd_op a (\<lambda>x. x\<lparr>op_fiber := loc (op_fiber x), op_value := loc (op_value x),
    op_async_op := loc (op_async_op x)\<rparr>) m"
  have nx: "opnext ?m1 = opnext m" by (auto simp: opnext_def fun_eq_iff)
  then have "chain (opnext ?m1) (opnext m a) as" using Cons.prems(1) by simp
  moreover have "distinct as" using Cons.prems(2) by simp
  ultimately have "\<exists>m'. um_op_list_compact loc ?m1 (opnext m a) = Some m' \<and>
     (\<forall>b. op_values m' b = (if b \<in> set as then map loc (op_values ?m1 b) else op_values ?m1 b)) \<and>
     opnext m' = opnext ?m1"
    by (rule Cons.IH)
  then obtain m' where m': "um_op_list_compact loc ?m1 (opnext m a) = Some m'"
    "\<forall>b. op_values m' b = (if b \<in> set as then map loc (op_values ?m1 b) else op_values ?m1 b)"
    "opnext m' = opnext ?m1" by blast
  have "um_op_list_compact loc m p = Some m'"
    using Cons.prems(1) m'(1) by (subst um_op_list_compact.simps) (simp add: opnext_def)
  moreover have "op_values ?m1 b = (if b = a then map loc (op_values m b) else op_values m b)" for b
    by (simp add: op_values_def)
  ultimately show ?case using m'(2,3) nx Cons.prems(2) by (intro exI [of _ m']) auto
qed



end
