(* ===== verification/UM_Monad.thy ===== *)
theory UM_Monad
  imports UM_Op_Props
begin

text \<open>
  Computations of the extension. A C function that runs in a fiber is a function of the machine that
  faults or does not end (\<open>None\<close>), raises (\<open>Inl\<close>) or returns (\<open>Inr\<close>); a raise keeps the state, which
  \<open>rb_ensure\<close> handlers go on with. A parameter \<open>sw\<close> of a computation is what happens between the
  moment a fiber transfers control away in \<open>um_switch\<close> and the moment it is transferred back to: other
  fibers run, the kernel completes operations, and a value is passed to the fiber.
\<close>

type_synonym 'a outcome = "(um_error + 'a) \<times> um"
type_synonym 'a comp = "um \<Rightarrow> 'a outcome option"

definition ret :: "'a \<Rightarrow> 'a comp" where
  "ret x m = Some (Inr x, m)"

definition raise :: "um_error \<Rightarrow> 'a comp" where
  "raise e m = Some (Inl e, m)"

definition andthen :: "'a comp \<Rightarrow> ('a \<Rightarrow> 'b comp) \<Rightarrow> 'b comp" where
  "andthen c k m =
     (case c m of
        None \<Rightarrow> None
      | Some (Inl e, m') \<Rightarrow> Some (Inl e, m')
      | Some (Inr x, m') \<Rightarrow> k x m')"

definition gets :: "(um \<Rightarrow> 'a) \<Rightarrow> 'a comp" where
  "gets f m = Some (Inr (f m), m)"

definition modify :: "(um \<Rightarrow> um) \<Rightarrow> unit comp" where
  "modify f m = Some (Inr (), f m)"

definition modify_opt :: "(um \<Rightarrow> um option) \<Rightarrow> unit comp" where
  "modify_opt f m = map_option (\<lambda>m'. (Inr (), m')) (f m)"

definition state_op :: "(um \<Rightarrow> 'a \<times> um) \<Rightarrow> 'a comp" where
  "state_op f m = (case f m of (x, m') \<Rightarrow> Some (Inr x, m'))"

definition of_sum :: "um_error + 'a \<Rightarrow> 'a comp" where
  "of_sum r = (case r of Inl e \<Rightarrow> raise e | Inr x \<Rightarrow> ret x)"

text \<open>\<open>RAISE_IF_EXCEPTION(v)\<close>\<close>

definition check :: "rvalue \<Rightarrow> rvalue comp" where
  "check v = (case v of Exn e \<Rightarrow> raise e | _ \<Rightarrow> ret v)"

text \<open>\<open>rb_ensure\<close>: the handler always runs; what it raises replaces the outcome.\<close>

definition rb_ensure :: "'a comp \<Rightarrow> 'b comp \<Rightarrow> 'a comp" where
  "rb_ensure c h m =
     (case c m of
        None \<Rightarrow> None
      | Some (r, m') \<Rightarrow>
          (case h m' of
             None \<Rightarrow> None
           | Some (Inl e, m'') \<Rightarrow> Some (Inl e, m'')
           | Some (Inr _, m'') \<Rightarrow> Some (r, m'')))"

lemmas comp_defs = ret_def raise_def andthen_def gets_def modify_def modify_opt_def state_op_def

lemma andthen_simps [simp]:
  "andthen (ret x) k = k x"
  "andthen (raise e) k = raise e"
  "andthen (andthen c k) l = andthen c (\<lambda>x. andthen (k x) l)"
  by (auto simp: comp_defs fun_eq_iff split: option.splits sum.splits)

lemma andthen_ret [simp]: "andthen c ret = c"
  by (auto simp: comp_defs fun_eq_iff split: option.splits sum.splits)

lemma andthen_step:
  "c m = Some (Inr x, m') \<Longrightarrow> andthen c k m = k x m'"
  "c m = Some (Inl e, m') \<Longrightarrow> andthen c k m = Some (Inl e, m')"
  "c m = None \<Longrightarrow> andthen c k m = None"
  by (simp_all add: andthen_def)

lemma comp_run [simp]:
  "andthen (gets f) k m = k (f m) m"
  "gets f m = Some (Inr (f m), m)"
  by (simp_all add: comp_defs)

lemma modify_run [simp]:
  "andthen (modify g) k m = k () (g m)"
  "modify g m = Some (Inr (), g m)"
  by (simp_all add: comp_defs)

lemma ret_run [simp]: "ret x m = Some (Inr x, m)"
  by (simp add: comp_defs)

lemma raise_run [simp]: "raise e m = Some (Inl e, m)"
  by (simp add: comp_defs)

lemma modify_opt_run:
  "f m = Some m' \<Longrightarrow> andthen (modify_opt f) k m = k () m'"
  "f m = None \<Longrightarrow> andthen (modify_opt f) k m = None"
  by (simp_all add: comp_defs)

lemma state_op_run: "f m = (x, m') \<Longrightarrow> andthen (state_op f) k m = k x m'"
  by (simp add: comp_defs)

lemma check_simps [simp]:
  "\<not> um_value_is_exception_p v \<Longrightarrow> check v = ret v"
  "check (Exn e) = raise e"
  by (cases v) (simp_all add: check_def)

lemma andthen_eq_Some:
  "andthen c k m = Some r \<longleftrightarrow>
     (\<exists>e m'. c m = Some (Inl e, m') \<and> r = (Inl e, m')) \<or>
     (\<exists>x m'. c m = Some (Inr x, m') \<and> k x m' = Some r)"
  by (auto simp: andthen_def split: option.splits sum.splits)

lemma rb_ensure_run:
  "c m = Some (r, m') \<Longrightarrow> h m' = Some (Inr x, m'') \<Longrightarrow> rb_ensure c h m = Some (r, m'')"
  "c m = Some (r, m') \<Longrightarrow> h m' = Some (Inl e, m'') \<Longrightarrow> rb_ensure c h m = Some (Inl e, m'')"
  by (simp_all add: rb_ensure_def)

end
