(* ===== verification/UM_Sidecar.thy ===== *)
theory UM_Sidecar
  imports UM_Monad
begin

text \<open>
  \<^verbatim>\<open>ext/um/um_sidecar.c\<close>. In sidecar mode a second thread sits in \<open>io_uring_enter2\<close> and signals the
  machine's thread through a word of memory, the signal: 0 is idle, 1 is signalled. The machine waits
  for 1 and resets it; the sidecar waits for 0 and sets it. Both use a compare-and-exchange in a loop,
  one sleeping on a futex, the other polling. The two threads are an interleaving step relation over
  the word; the pthread calls are environment.
\<close>

section \<open>Starting and stopping the thread\<close>

text \<open>
  \<open>err k\<close> is what \<open>errno\<close> holds when the \<open>k\<close>-th of the pthread calls fails. A failure of the last one
  leaves the thread running.
\<close>

definition um_sidecar_setup :: "(nat \<Rightarrow> int option) \<Rightarrow> um \<Rightarrow> unit outcome" where
  "um_sidecar_setup err m =
     (if sidecar_thread m then (Inr (), m)
      else
        (case err 0 of Some e \<Rightarrow> (Inl (SysErr e), m) | None \<Rightarrow>
        (case err 1 of Some e \<Rightarrow> (Inl (SysErr e), m) | None \<Rightarrow>
        (case err 2 of Some e \<Rightarrow> (Inl (SysErr e), m) | None \<Rightarrow>
        (case err 3 of Some e \<Rightarrow> (Inl (SysErr e), m) | None \<Rightarrow>
          (let m = m\<lparr>sidecar_thread := True\<rparr> in
           case err 4 of Some e \<Rightarrow> (Inl (SysErr e), m) | None \<Rightarrow> (Inr (), m)))))))"

definition um_sidecar_teardown :: "um \<Rightarrow> um" where
  "um_sidecar_teardown m = (if sidecar_thread m then m\<lparr>sidecar_thread := False\<rparr> else m)"

section \<open>The handshake\<close>

text \<open>
  Whether the exchange took place, the word after it, and the variable \<open>expected\<close> after it: C11 stores
  the word found in it when the exchange fails.
\<close>

definition atomic_compare_exchange_strong :: "u32 \<Rightarrow> u32 \<Rightarrow> u32 \<Rightarrow> bool \<times> u32 \<times> u32" where
  "atomic_compare_exchange_strong cell expected desired =
     (if cell = expected then (True, desired, expected) else (False, cell, cell))"

text \<open>
  Where each thread is. The number is the local variable \<open>newval\<close>, the value expected.
  \<open>At_futex\<close>: about to call \<open>FUTEX_WAIT\<close>; \<open>Asleep\<close>: blocked in it; \<open>At_wake\<close>: the exchange is done
  and \<open>FUTEX_WAKE\<close> is next.
\<close>

datatype waiter = Waiter_out | Waiter_xchg u32 | At_futex u32 | Asleep u32
datatype waker = In_enter | Waker_xchg u32 | In_usleep u32 | At_wake

text \<open>\<open>waits\<close> counts the waits that have returned, \<open>signals\<close> the times the sidecar thread signals.\<close>

record sidecar =
  signal :: u32
  waiter :: waiter
  waker :: waker
  waits :: nat
  signals :: nat

definition sidecar_init :: sidecar where
  "sidecar_init = \<lparr>signal = 0, waiter = Waiter_out, waker = In_enter, waits = 0, signals = 0\<rparr>"

text \<open>One iteration of the loop of \<open>xchg_futex_wait\<close> up to the futex call.\<close>

definition xchg_futex_wait :: "u32 \<Rightarrow> u32 \<Rightarrow> sidecar \<Rightarrow> sidecar" where
  "xchg_futex_wait oldval newval s =
     (case atomic_compare_exchange_strong (signal s) newval oldval of
        (True, w, _) \<Rightarrow> s\<lparr>signal := w, waiter := Waiter_out, waits := Suc (waits s)\<rparr>
      | (False, w, newval) \<Rightarrow> s\<lparr>signal := w, waiter := At_futex newval\<rparr>)"

text \<open>\<open>FUTEX_WAIT\<close> blocks only while the word is the value given.\<close>

definition futex_wait_without_gvl :: "u32 \<Rightarrow> u32 \<Rightarrow> sidecar \<Rightarrow> sidecar" where
  "futex_wait_without_gvl oldval newval s =
     s\<lparr>waiter := (if signal s = oldval then Asleep newval else Waiter_xchg newval)\<rparr>"

text \<open>The exchange of \<open>xchg_futex_wake\<close>.\<close>

definition xchg_futex_wake :: "u32 \<Rightarrow> u32 \<Rightarrow> sidecar \<Rightarrow> sidecar" where
  "xchg_futex_wake oldval newval s =
     (case atomic_compare_exchange_strong (signal s) newval oldval of
        (True, w, _) \<Rightarrow> s\<lparr>signal := w, waker := At_wake\<rparr>
      | (False, w, newval) \<Rightarrow> s\<lparr>signal := w, waker := In_usleep newval\<rparr>)"

definition futex_wake :: "sidecar \<Rightarrow> sidecar" where
  "futex_wake s =
     s\<lparr>waker := In_enter, waiter := (case waiter s of Asleep n \<Rightarrow> Waiter_xchg n | w \<Rightarrow> w)\<rparr>"

definition um_sidecar_signal_wait :: "sidecar \<Rightarrow> sidecar" where
  "um_sidecar_signal_wait s = s\<lparr>waiter := Waiter_xchg 1\<rparr>"

definition um_sidecar_signal_wake :: "sidecar \<Rightarrow> sidecar" where
  "um_sidecar_signal_wake s = s\<lparr>waker := Waker_xchg 0, signals := Suc (signals s)\<rparr>"

text \<open>
  The two threads. The futex call also ends on a signal to the process or for no reason; \<open>intr\<close> says
  whether such wake-ups are considered.
\<close>

inductive sidecar_step :: "bool \<Rightarrow> sidecar \<Rightarrow> sidecar \<Rightarrow> bool" for intr where
  wait_call: "waiter s = Waiter_out \<Longrightarrow> sidecar_step intr s (um_sidecar_signal_wait s)"
| wait_xchg: "waiter s = Waiter_xchg n \<Longrightarrow> sidecar_step intr s (xchg_futex_wait 0 n s)"
| wait_futex: "waiter s = At_futex n \<Longrightarrow> sidecar_step intr s (futex_wait_without_gvl 0 n s)"
| wait_interrupted: "intr \<Longrightarrow> waiter s = Asleep n \<Longrightarrow> sidecar_step intr s (s\<lparr>waiter := Waiter_xchg n\<rparr>)"
| enter_returned: "waker s = In_enter \<Longrightarrow> sidecar_step intr s (um_sidecar_signal_wake s)"
| wake_xchg: "waker s = Waker_xchg n \<Longrightarrow> sidecar_step intr s (xchg_futex_wake 1 n s)"
| wake_usleep: "waker s = In_usleep n \<Longrightarrow> sidecar_step intr s (s\<lparr>waker := Waker_xchg n\<rparr>)"
| wake_futex: "waker s = At_wake \<Longrightarrow> sidecar_step intr s (futex_wake s)"

inductive sidecar_reach :: "bool \<Rightarrow> sidecar \<Rightarrow> bool" for intr where
  start: "sidecar_reach intr sidecar_init"
| step: "sidecar_reach intr s \<Longrightarrow> sidecar_step intr s t \<Longrightarrow> sidecar_reach intr t"

inductive_cases sidecar_stepE: "sidecar_step intr s t"

lemmas sidecar_ops = um_sidecar_signal_wait_def xchg_futex_wait_def futex_wait_without_gvl_def
  um_sidecar_signal_wake_def xchg_futex_wake_def futex_wake_def atomic_compare_exchange_strong_def

section \<open>No wake-up is lost\<close>

definition sidecar_inv :: "sidecar \<Rightarrow> bool" where
  "sidecar_inv s \<longleftrightarrow> (signal s = 0 \<or> signal s = 1) \<and>
     (\<forall>n. waiter s \<in> {Waiter_xchg n, At_futex n, Asleep n} \<longrightarrow> n = 0 \<or> n = 1) \<and>
     (\<forall>n. waker s \<in> {Waker_xchg n, In_usleep n} \<longrightarrow> n = 0 \<or> n = 1) \<and>
     (\<forall>n. waiter s = Asleep n \<and> signal s = 1 \<longrightarrow> waker s = At_wake)"

lemma sidecar_inv_step: "sidecar_inv s \<Longrightarrow> sidecar_step intr s t \<Longrightarrow> sidecar_inv t"
  by (erule sidecar_stepE)
    (auto simp: sidecar_inv_def sidecar_ops split: waiter.splits if_splits)

lemma sidecar_inv_reach: "sidecar_reach intr s \<Longrightarrow> sidecar_inv s"
proof (induction rule: sidecar_reach.induct)
  case start
  show ?case by (simp add: sidecar_inv_def sidecar_init_def)
next
  case (step s t)
  then show ?case by (blast intro: sidecar_inv_step)
qed

text \<open>The steps of the waiter alone, on a word that holds 1.\<close>

lemma waiter_takes:
  assumes "signal s = 1" "waiter s \<in> {Waiter_xchg n, At_futex n}" "n = 0 \<or> n = 1"
  shows "\<exists>t. (sidecar_step intr)\<^sup>*\<^sup>* s t \<and> signal t = 0 \<and> waiter t = Waiter_out \<and> waits t = Suc (waits s)"
proof -
  have take: "\<exists>t. (sidecar_step intr)\<^sup>*\<^sup>* u t \<and> signal t = 0 \<and> waiter t = Waiter_out \<and> waits t = Suc (waits u)"
    if "signal u = 1" "waiter u = Waiter_xchg 1" for u
    using wait_xchg [of u 1 intr] that by (auto simp: sidecar_ops)
  have again: "\<exists>t. (sidecar_step intr)\<^sup>*\<^sup>* u t \<and> signal t = 0 \<and> waiter t = Waiter_out \<and> waits t = Suc (waits u)"
    if u: "signal u = 1" "waiter u = At_futex 1" for u
    using take [of "futex_wait_without_gvl 0 1 u"] wait_futex [of u 1 intr] u
    by (auto simp: sidecar_ops intro: converse_rtranclp_into_rtranclp)
  have stale: "\<exists>t. (sidecar_step intr)\<^sup>*\<^sup>* u t \<and> signal t = 0 \<and> waiter t = Waiter_out \<and> waits t = Suc (waits u)"
    if u: "signal u = 1" "waiter u = Waiter_xchg 0" for u
    using again [of "xchg_futex_wait 0 0 u"] wait_xchg [of u 0 intr] u
    by (auto simp: sidecar_ops intro: converse_rtranclp_into_rtranclp)
  have late: "\<exists>t. (sidecar_step intr)\<^sup>*\<^sup>* u t \<and> signal t = 0 \<and> waiter t = Waiter_out \<and> waits t = Suc (waits u)"
    if u: "signal u = 1" "waiter u = At_futex 0" for u
    using stale [of "futex_wait_without_gvl 0 0 u"] wait_futex [of u 0 intr] u
    by (auto simp: sidecar_ops intro: converse_rtranclp_into_rtranclp)
  show ?thesis using assms take again stale late by auto
qed

text \<open>C27. A signal is never lost: in every state the two threads can reach, a waiter asleep while the signal is set
  is about to be woken, and from every state in which the signal is set and the machine waits, the waiter
  can go on to take the signal: it returns and the signal is reset.\<close>

theorem sidecar_no_lost_wakeup:
  assumes "sidecar_reach intr s" "signal s = 1" "waiter s \<noteq> Waiter_out"
  shows "(\<forall>n. waiter s = Asleep n \<longrightarrow> waker s = At_wake) \<and>
    (\<exists>t. (sidecar_step intr)\<^sup>*\<^sup>* s t \<and> signal t = 0 \<and> waiter t = Waiter_out \<and> waits t = Suc (waits s))"
proof -
  have inv: "sidecar_inv s" using sidecar_inv_reach [OF assms(1)] .
  then have awake: "\<forall>n. waiter s = Asleep n \<longrightarrow> waker s = At_wake"
    using assms(2) by (simp add: sidecar_inv_def)
  show ?thesis
  proof (cases "\<exists>n. waiter s = Asleep n")
    case True
    then obtain n where n: "waiter s = Asleep n" by blast
    then have "n = 0 \<or> n = 1" using inv by (simp add: sidecar_inv_def)
    then obtain t where "(sidecar_step intr)\<^sup>*\<^sup>* (futex_wake s) t" "signal t = 0" "waiter t = Waiter_out"
        "waits t = Suc (waits s)"
      using waiter_takes [of "futex_wake s" n intr] n assms(2) by (auto simp: sidecar_ops)
    moreover have "sidecar_step intr s (futex_wake s)"
      using awake n by (auto intro: sidecar_step.wake_futex)
    ultimately show ?thesis using awake by (blast intro: converse_rtranclp_into_rtranclp)
  next
    case False
    then obtain n where "waiter s \<in> {Waiter_xchg n, At_futex n}" using assms(3) by (cases "waiter s") auto
    moreover have "n = 0 \<or> n = 1" using inv calculation by (auto simp: sidecar_inv_def)
    ultimately show ?thesis using waiter_takes [OF assms(2)] awake by blast
  qed
qed

text \<open>A signal set while the waiter is asleep.\<close>

definition asleep_signalled :: sidecar where
  "asleep_signalled = xchg_futex_wake 1 0 (um_sidecar_signal_wake (futex_wait_without_gvl 0 0
     (xchg_futex_wait 0 1 (um_sidecar_signal_wait sidecar_init))))"

lemma asleep_signalled_reach: "sidecar_reach intr asleep_signalled"
  unfolding asleep_signalled_def
  by (intro sidecar_reach.step [OF _ wake_xchg] sidecar_reach.step [OF _ enter_returned]
      sidecar_reach.step [OF _ wait_futex] sidecar_reach.step [OF _ wait_xchg]
      sidecar_reach.step [OF _ wait_call] sidecar_reach.start)
    (simp_all add: sidecar_ops sidecar_init_def)

theorem sidecar_no_lost_wakeup_witness:
  "\<exists>t. (sidecar_step False)\<^sup>*\<^sup>* asleep_signalled t \<and> signal t = 0 \<and> waits t = Suc (waits asleep_signalled)"
  using sidecar_no_lost_wakeup [OF asleep_signalled_reach [of False]]
  by (auto simp: asleep_signalled_def sidecar_ops sidecar_init_def)

section \<open>The expected value is overwritten\<close>

text \<open>
  The waiter has taken the signal before the wake-up call for it is made; the call then wakes the waiter
  out of its next wait, and the value expected is by then 0.
\<close>

definition woken_late :: sidecar where
  "woken_late = futex_wake (futex_wait_without_gvl 0 0 (xchg_futex_wait 0 1 (um_sidecar_signal_wait
     (xchg_futex_wait 0 1 (um_sidecar_signal_wait
       (xchg_futex_wake 1 0 (um_sidecar_signal_wake sidecar_init)))))))"

lemma woken_late_reach: "sidecar_reach False woken_late"
  unfolding woken_late_def
  by (intro sidecar_reach.step [OF _ wake_futex] sidecar_reach.step [OF _ wait_futex]
      sidecar_reach.step [OF _ wait_xchg] sidecar_reach.step [OF _ wait_call]
      sidecar_reach.step [OF _ wake_xchg] sidecar_reach.step [OF _ enter_returned] sidecar_reach.start)
    (simp_all add: sidecar_ops sidecar_init_def)

text \<open>The sidecar signals a second time while the first signal has not been taken.\<close>

definition signalled_twice :: sidecar where
  "signalled_twice = futex_wake (xchg_futex_wake 1 1 ((xchg_futex_wake 1 0 (um_sidecar_signal_wake
     (futex_wake (xchg_futex_wake 1 0 (um_sidecar_signal_wake sidecar_init)))))\<lparr>waker := Waker_xchg 1\<rparr>))"

lemma signalled_twice_reach: "sidecar_reach False signalled_twice"
  unfolding signalled_twice_def
  by (intro sidecar_reach.step [OF _ wake_futex] sidecar_reach.step [OF _ wake_xchg]
      sidecar_reach.step [OF _ wake_usleep] sidecar_reach.step [OF _ enter_returned] sidecar_reach.start)
    (simp_all add: sidecar_ops sidecar_init_def)

text \<open>A failed compare-and-exchange overwrites the value expected, which neither loop restores. So, without
  any interruption, two waits can return for one signal; and the sidecar, which is to wait until the
  signal has been taken, can signal twice and go back to the ring before any wait has returned.\<close>

theorem sidecar_expected_overwritten:
  "(\<exists>s. sidecar_reach False s \<and> signals s = 1 \<and> waits s = 2) \<and>
   (\<exists>s. sidecar_reach False s \<and> signals s = 2 \<and> waits s = 0 \<and> waker s = In_enter)"
proof
  have "sidecar_reach False (xchg_futex_wait 0 0 woken_late)"
    by (rule sidecar_reach.step [OF woken_late_reach wait_xchg])
      (simp add: woken_late_def sidecar_ops sidecar_init_def)
  then show "\<exists>s. sidecar_reach False s \<and> signals s = 1 \<and> waits s = 2"
    by (rule_tac x = "xchg_futex_wait 0 0 woken_late" in exI)
      (simp add: woken_late_def sidecar_ops sidecar_init_def)
  show "\<exists>s. sidecar_reach False s \<and> signals s = 2 \<and> waits s = 0 \<and> waker s = In_enter"
    by (rule exI [of _ signalled_twice])
      (simp add: signalled_twice_reach, simp add: signalled_twice_def sidecar_ops sidecar_init_def)
qed

end
