(* ===== verification/UM_Loop.thy ===== *)
theory UM_Loop
  imports UM_Sidecar
begin

text \<open>
  \<^verbatim>\<open>ext/um/um.c\<close>, the machine itself: set-up and teardown, submission, the processing of
  completions, the scheduler (\<open>um_switch\<close> and \<open>um_yield\<close>), cancellation and the verification of a
  completed operation. The kernel's side is an argument: a completion is a \<open>cqe\<close>, and \<open>wait_env\<close> is
  what one wait for completions finds.
\<close>

section \<open>Set-up and teardown\<close>

definition DEFAULT_SIZE :: nat where "DEFAULT_SIZE = 4096"

record io_uring_params =
  params_submit_all :: bool
  params_sqpoll :: bool
  params_coop_taskrun :: bool
  params_sq_thread_idle :: nat

definition prepare_io_uring_params :: "nat \<Rightarrow> io_uring_params" where
  "prepare_io_uring_params sqpoll_timeout_msec =
     (let p = \<lparr>params_submit_all = True, params_sqpoll = False, params_coop_taskrun = False,
               params_sq_thread_idle = 0\<rparr> in
      if sqpoll_timeout_msec \<noteq> 0
      then p\<lparr>params_sqpoll := True, params_sq_thread_idle := sqpoll_timeout_msec\<rparr>
      else p\<lparr>params_coop_taskrun := True\<rparr>)"

text \<open>
  \<open>init\<close> is what \<open>io_uring_queue_init_params\<close> returns for the ring size and parameters given, with the number of
  submission entries of the ring it makes (the kernel rounds the size up), \<open>br\<close> what setting up the buffer ring
  reports, \<open>pt\<close> the errors of the calls that start the sidecar thread. An error leaves the machine as far as
  it was set up.
\<close>

definition um_setup ::
  "(nat \<Rightarrow> io_uring_params \<Rightarrow> int \<times> nat) \<Rightarrow> int option \<Rightarrow> (nat \<Rightarrow> int option) \<Rightarrow> nat \<Rightarrow> nat \<Rightarrow> bool \<Rightarrow> unit comp" where
  "um_setup init br pt sz sqpoll_timeout_msec sidecar m =
     (let m = (um_memset m)\<lparr>um_size := (if sz > 0 then sz else DEFAULT_SIZE),
                      sqpoll_mode := (sqpoll_timeout_msec \<noteq> 0), sidecar_mode := sidecar\<rparr>;
          (r, entries) = init (um_size m) (prepare_io_uring_params sqpoll_timeout_msec) in
      if r \<noteq> 0 then Some (Inl (SysErr (- r)), m)
      else
        (let m = m\<lparr>ring_initialized := True, sqe_slots := entries\<rparr> in
         case bp_setup br m of
           Inl e \<Rightarrow> Some (Inl e, m)
         | Inr m \<Rightarrow> if sidecar_mode m then Some (um_sidecar_setup pt m) else Some (Inr (), m)))"

definition um_teardown :: "um \<Rightarrow> um option" where
  "um_teardown m =
     (if \<not> ring_initialized m then Some m
      else do {
        let m = (if sidecar_mode m then um_sidecar_teardown m else m);
        m \<leftarrow> bp_discard_buffer_freelist (m\<lparr>ring_initialized := False\<rparr>);
        bp_teardown m
      })"

section \<open>Submission\<close>

definition um_raise_internal_error :: "string \<Rightarrow> 'a comp" where
  "um_raise_internal_error msg = raise (UMError (''UringMachine error: '' @ msg))"

definition um_get_sqe :: "addr option \<Rightarrow> unit comp" where
  "um_get_sqe op m =
     (if sqe_slots m = 0
      then um_raise_internal_error ''Submission queue full. Consider raising the machine size.'' m
      else Some (Inr (),
        upd_metrics
          (\<lambda>x. if op = None then x\<lparr>ops_unsubmitted := ops_unsubmitted x + 1\<rparr>
                else x\<lparr>ops_unsubmitted := ops_unsubmitted x + 1, ops_pending := ops_pending x + 1,
                       total_ops := total_ops x + 1\<rparr>)
          (m\<lparr>sqe_slots := sqe_slots m - 1,
             sqes := sqes m @ [\<lparr>user_data = op, sqe_op = Prep_unset, sqe_skip_success = False\<rparr>]\<rparr>)))"

text \<open>The \<open>io_uring_prep_\<close> call that fills the entry just obtained.\<close>

definition prep_sqe :: "sqe_op \<Rightarrow> um \<Rightarrow> um" where
  "prep_sqe p m = m\<lparr>sqes := butlast (sqes m) @ [(last (sqes m))\<lparr>sqe_op := p\<rparr>]\<rparr>"

definition sqe_skip_flag :: "um \<Rightarrow> um" where
  "sqe_skip_flag m = m\<lparr>sqes := butlast (sqes m) @ [(last (sqes m))\<lparr>sqe_skip_success := True\<rparr>]\<rparr>"

text \<open>The kernel takes \<open>r\<close> entries, whose places in the ring are free again.\<close>

definition submitted :: "int \<Rightarrow> um \<Rightarrow> um" where
  "submitted r m = m\<lparr>sqes := drop (nat r) (sqes m), sqe_slots := sqe_slots m + min (nat r) (length (sqes m))\<rparr>"

text \<open>\<open>r\<close> is what \<open>io_uring_submit\<close> returns; \<open>sq_ring_needs_enter\<close> is true in every case.\<close>

definition sq_ring_needs_enter :: "bool \<Rightarrow> um \<Rightarrow> bool" where
  "sq_ring_needs_enter need_wakeup m = (if sqpoll_mode m then (if need_wakeup then True else True) else True)"

definition um_submit :: "int \<Rightarrow> int comp" where
  "um_submit r m =
     (if ops_unsubmitted (metrics m) = 0 then Some (Inr 0, m)
      else if r < 0 then Some (Inl (SysErr (- r)), m)
      else Some (Inr r, upd_metrics (\<lambda>x. x\<lparr>ops_unsubmitted := 0\<rparr>) (submitted r m)))"

section \<open>Completions\<close>

record cqe =
  cqe_op :: "addr option"
  cqe_res :: int
  cqe_flags :: u32

definition um_schedule_op :: "um \<Rightarrow> addr \<Rightarrow> um" where
  "um_schedule_op m a =
     (let m = set_flags a OP_F_SCHEDULED m;
          m = um_runqueue_push m a
      in upd_op a (\<lambda>x. x\<lparr>op_ref_count := op_ref_count x + 1\<rparr>) m)"

definition set_result :: "addr \<Rightarrow> int \<Rightarrow> u32 \<Rightarrow> um \<Rightarrow> um" where
  "set_result a r f = upd_op a (\<lambda>x. x\<lparr>op_result := (op_result x)\<lparr>res := r, res_flags := f\<rparr>\<rparr>)"

definition dec_pending :: "um \<Rightarrow> um" where
  "dec_pending = upd_metrics (\<lambda>x. x\<lparr>ops_pending := ops_pending x - 1\<rparr>)"

definition um_process_cqe :: "um \<Rightarrow> cqe \<Rightarrow> um option" where
  "um_process_cqe m c =
     (case cqe_op c of
        None \<Rightarrow> Some m
      | Some a \<Rightarrow>
          (let done = (if op_has m a OP_F_MULTISHOT then \<not> has_flag (cqe_flags c) IORING_CQE_F_MORE
                       else True) in
           if op_has m a OP_F_TRANSIENT then
             (let m = um_op_transient_remove (dec_pending m) a;
                  m = (if op_ref_count (ops m a) > 1
                       then set_flags a (OP_F_CQE_SEEN OR OP_F_CQE_DONE)
                              (set_result a (cqe_res c) (cqe_flags c) m)
                       else m)
              in um_op_release m a)
           else do {
             m \<leftarrow> (if done then um_op_release (dec_pending m) a else Some m);
             if op_has m a OP_F_CANCELED then
               (if done then um_op_release (set_flags a (OP_F_CQE_SEEN OR OP_F_CQE_DONE) m) a
                else Some m)
             else if op_has m a OP_F_MULTISHOT then do {
               m \<leftarrow> um_op_multishot_results_push m a (cqe_res c) (cqe_flags c);
               let m = set_flags a (if done then OP_F_CQE_SEEN OR OP_F_CQE_DONE else OP_F_CQE_SEEN) m;
               Some (if \<not> op_has m a (OP_F_SCHEDULED OR OP_F_ASYNC) then um_schedule_op m a else m)
             }
             else do {
               let m = set_flags a (OP_F_CQE_SEEN OR OP_F_CQE_DONE)
                         (set_result a (cqe_res c) (cqe_flags c) m);
               Some (if \<not> op_has m a OP_F_ASYNC then um_schedule_op m a else m)
             }
           }))"

fun process_cqes :: "cqe list \<Rightarrow> um \<Rightarrow> um option" where
  "process_cqes [] m = Some m"
| "process_cqes (c # cs) m = Option.bind (um_process_cqe m c) (process_cqes cs)"

text \<open>
  \<open>cs\<close> are the completions in the ring; every element of \<open>flush\<close> stands for one time the overflow flag
  is set: what \<open>io_uring_enter\<close> returns, and the completions then in the ring. The variable
  \<open>overflow_checked\<close> is declared after the label and so is false whenever it is tested.
\<close>

fun um_process_ready_cqes :: "cqe list \<Rightarrow> (int \<times> cqe list) list \<Rightarrow> nat \<Rightarrow> nat comp" where
  "um_process_ready_cqes cs [] n m =
     Option.bind (process_cqes cs m) (\<lambda>m. Some (Inr (n + length cs), m))"
| "um_process_ready_cqes cs ((r, cs') # flush) n m =
     Option.bind (process_cqes cs m) (\<lambda>m.
       if r < 0 then Some (Inl (SysErr (- r)), m)
       else um_process_ready_cqes cs' flush (n + length cs) m)"

text \<open>One wait: what liburing's call returns, the completion it points to, and what follows in the ring.\<close>

record wait_env =
  wait_ret :: int
  wait_cqe :: "cqe option"
  wait_ready :: "cqe list"
  wait_flush :: "(int \<times> cqe list) list"

definition um_wait_for_cqe_without_gvl :: "wait_env \<Rightarrow> um \<Rightarrow> int \<times> um" where
  "um_wait_for_cqe_without_gvl w m =
     (if ops_unsubmitted (metrics m) \<noteq> 0
      then (if wait_ret w > 0 \<and> wait_cqe w = None then - EINTR else wait_ret w,
            upd_metrics (\<lambda>x. x\<lparr>ops_unsubmitted := 0\<rparr>) (submitted (wait_ret w) m))
      else (wait_ret w, m))"

definition um_wait_for_and_process_ready_cqes :: "wait_env \<Rightarrow> unit comp" where
  "um_wait_for_and_process_ready_cqes w m =
     (let m = upd_metrics (\<lambda>x. x\<lparr>total_waits := total_waits x + 1\<rparr>) m in
      if sidecar_mode m then
        (let m = (if ops_unsubmitted (metrics m) \<noteq> 0
                  then upd_metrics (\<lambda>x. x\<lparr>ops_unsubmitted := 0\<rparr>) (submitted (wait_ret w) m) else m)
         in andthen (um_process_ready_cqes (wait_ready w) (wait_flush w) 0) (\<lambda>_. ret ()) m)
      else
        (let (r, m) = um_wait_for_cqe_without_gvl w m in
         if r < 0 \<and> r \<noteq> - EINTR \<and> r \<noteq> - EAGAIN then Some (Inl (SysErr (- r)), m)
         else
           (case wait_cqe w of
              None \<Rightarrow> Some (Inr (), m)
            | Some c \<Rightarrow>
                Option.bind (um_process_cqe m c)
                  (andthen (um_process_ready_cqes (wait_ready w) (wait_flush w) 0) (\<lambda>_. ret ())))))"

section \<open>The scheduler\<close>

text \<open>
  \<open>Transfer f v\<close>: control goes to fiber \<open>f\<close>, with value \<open>v\<close>. \<open>Blocked\<close>: the waits given are used up
  and the loop waits for the next completion. In test mode a scheduled operation makes the loop look
  for completions without waiting: the next of the waits given, or one that finds nothing.
\<close>

definition no_cqes :: wait_env where
  "no_cqes = \<lparr>wait_ret = 0, wait_cqe = None, wait_ready = [], wait_flush = []\<rparr>"

datatype switch_result = Transfer rvalue rvalue | Blocked

definition process_runqueue_op :: "um \<Rightarrow> addr \<Rightarrow> (switch_result \<times> um) option" where
  "process_runqueue_op m a = do {
     let m = upd_metrics (\<lambda>x. x\<lparr>total_switches := total_switches x + 1\<rparr>) m;
     let f = op_fiber (ops m a);
     let v = op_value (ops m a);
     m \<leftarrow> um_op_release (clear_flags a OP_F_SCHEDULED m) a;
     Some (Transfer f v, m)
   }"

partial_function (option) um_switch :: "wait_env list \<Rightarrow> switch_result comp" where
  "um_switch ws m =
     (case um_runqueue_shift m of
        (Some a, m) \<Rightarrow>
          if op_has m a OP_F_SKIP then
            Option.bind (um_op_release (clear_flags a OP_F_SCHEDULED m) a) (um_switch ws)
          else if test_mode m \<and> op_kind (ops m a) = OP_SCHEDULE then
            andthen (um_wait_for_and_process_ready_cqes (case ws of [] \<Rightarrow> no_cqes | w # _ \<Rightarrow> w))
              (\<lambda>_ m. map_option (apfst Inr) (process_runqueue_op m a)) m
          else map_option (apfst Inr) (process_runqueue_op m a)
      | (None, m) \<Rightarrow>
          (case ws of
             [] \<Rightarrow> Some (Inr Blocked, m)
           | w # ws' \<Rightarrow>
               Option.bind (um_wait_for_and_process_ready_cqes w m)
                 (\<lambda>r. case fst r of
                        Inl e \<Rightarrow> Some (Inl e, snd r)
                      | Inr _ \<Rightarrow> um_switch ws' (snd r))))"

definition um_yield :: "rvalue comp \<Rightarrow> rvalue comp" where
  "um_yield sw =
     andthen (gets current_fiber) (\<lambda>f.
     andthen (modify (\<lambda>m. m\<lparr>pending_fibers := insert f (pending_fibers m)\<rparr>)) (\<lambda>_.
     andthen sw (\<lambda>v.
     andthen (modify (\<lambda>m. m\<lparr>pending_fibers := pending_fibers m - {f}\<rparr>)) (\<lambda>_.
     ret v))))"

section \<open>Cancellation and verification\<close>

definition um_cancel_op :: "addr \<Rightarrow> unit comp" where
  "um_cancel_op a =
     andthen (um_get_sqe None) (\<lambda>_. modify (sqe_skip_flag \<circ> prep_sqe (Prep_cancel a)))"

definition um_cancel_op_and_discard_cqe :: "addr \<Rightarrow> unit comp" where
  "um_cancel_op_and_discard_cqe a =
     andthen (um_cancel_op a) (\<lambda>_. modify (set_flags a OP_F_CANCELED))"

text \<open>One iteration's work before the switch: \<open>n\<close> counts the iterations of a multishot operation.\<close>

definition await_iteration :: "addr \<Rightarrow> nat \<Rightarrow> nat comp" where
  "await_iteration a n m =
     (if op_has m a OP_F_MULTISHOT
      then andthen (if (n + 1) mod 4 = 0 then um_cancel_op a else ret ()) (\<lambda>_.
           andthen (modify_opt (\<lambda>m. um_op_multishot_results_clear m a)) (\<lambda>_.
           andthen (modify (clear_flags a OP_F_CQE_SEEN)) (\<lambda>_. ret (n + 1)))) m
      else ret n m)"

text \<open>\<open>sw k\<close> is the \<open>k\<close>-th time the fiber switches away and back.\<close>

partial_function (option) await_loop :: "(nat \<Rightarrow> rvalue comp) \<Rightarrow> addr \<Rightarrow> nat \<Rightarrow> nat \<Rightarrow> unit comp" where
  "await_loop sw a k n m =
     (if op_has m a OP_F_CQE_DONE then Some (Inr (), m)
      else
        Option.bind (andthen (await_iteration a n) (\<lambda>n'. andthen (sw k) (\<lambda>_. ret n')) m)
          (\<lambda>r. case fst r of
                 Inl e \<Rightarrow> Some (Inl e, snd r)
               | Inr n' \<Rightarrow> await_loop sw a (Suc k) n' (snd r)))"

definition um_cancel_op_and_await_cqe :: "(nat \<Rightarrow> rvalue comp) \<Rightarrow> addr \<Rightarrow> unit comp" where
  "um_cancel_op_and_await_cqe sw a =
     andthen (um_cancel_op a) (\<lambda>_.
     andthen (gets current_fiber) (\<lambda>f.
     andthen (modify (\<lambda>m. m\<lparr>pending_fibers := insert f (pending_fibers m)\<rparr>)) (\<lambda>_.
     andthen (await_loop sw a 0 0) (\<lambda>_.
     modify (\<lambda>m. m\<lparr>pending_fibers := pending_fibers m - {f}\<rparr>)))))"

definition um_raise_on_error_result :: "int \<Rightarrow> unit comp" where
  "um_raise_on_error_result r = (if r < 0 then raise (SysErr (- r)) else ret ())"

definition op_release :: "addr \<Rightarrow> unit comp" where
  "op_release a = modify_opt (\<lambda>m. um_op_release m a)"

definition um_verify_op_completion :: "(nat \<Rightarrow> rvalue comp) \<Rightarrow> addr \<Rightarrow> bool \<Rightarrow> bool comp" where
  "um_verify_op_completion sw a await_cancelled m =
     (if \<not> op_has m a OP_F_CQE_DONE then
        andthen (if await_cancelled then um_cancel_op_and_await_cqe sw a
                 else um_cancel_op_and_discard_cqe a) (\<lambda>_. ret False) m
      else
        (let r = res (op_result (ops m a)) in
         if r < 0 \<and> r \<noteq> - ETIME
         then andthen (op_release a) (\<lambda>_. andthen (um_raise_on_error_result r) (\<lambda>_. ret True)) m
         else ret True m))"

text \<open>\<open>r\<close> is what \<open>io_uring_submit\<close> returns, which is not looked at.\<close>

definition um_wakeup :: "int \<Rightarrow> rvalue comp" where
  "um_wakeup r =
     andthen (um_get_sqe None) (\<lambda>_. andthen (modify (submitted r \<circ> prep_sqe Prep_nop)) (\<lambda>_. ret Qnil))"

section \<open>Preparing and scheduling operations\<close>

definition um_prep_op :: "addr \<Rightarrow> um_op_kind \<Rightarrow> u32 \<Rightarrow> u32 \<Rightarrow> um \<Rightarrow> um" where
  "um_prep_op a kind ref_count flags m =
     (let m = upd_op a (\<lambda>_. op_zero\<lparr>op_kind := kind, op_ref_count := ref_count, op_flags := flags\<rparr>) m;
          fiber = (if op_has m a OP_F_ASYNC then Qnil else Fiber (current_fiber m));
          m = (if op_has m a OP_F_TRANSIENT then um_op_transient_add m a else m)
      in upd_op a (\<lambda>x. x\<lparr>op_fiber := fiber, op_value := Qnil, op_async_op := Qnil\<rparr>) m)"

definition um_schedule :: "rvalue \<Rightarrow> rvalue \<Rightarrow> um \<Rightarrow> um" where
  "um_schedule fiber v m =
     (let (a, m) = um_op_acquire m;
          m = upd_op a (\<lambda>_. op_zero\<lparr>op_kind := OP_SCHEDULE, op_ref_count := 1,
                op_flags := OP_F_SCHEDULED, op_fiber := fiber, op_value := v, op_async_op := Qnil\<rparr>) m
      in um_runqueue_push m a)"

definition um_timeout_complete :: "addr \<Rightarrow> rvalue comp" where
  "um_timeout_complete a m =
     andthen (if \<not> op_has m a OP_F_CQE_DONE then um_cancel_op_and_discard_cqe a else ret ()) (\<lambda>_.
     andthen (op_release a) (\<lambda>_. ret Qnil)) m"

text \<open>
  \<open>NUM2DBL\<close> of what is no number is a \<open>TypeError\<close> (exception class 0 of \<open>RubyExn\<close>). \<open>obj\<close> is the
  exception to pass to the fiber (already instantiated when a class was given), \<open>blk\<close> the block run under
  the timeout.
\<close>

definition num2dbl :: "rvalue \<Rightarrow> rat comp" where
  "num2dbl v = (case v of Fixnum n \<Rightarrow> ret (of_int n) | Flonum x \<Rightarrow> ret x | _ \<Rightarrow> raise (RubyExn 0))"

definition um_timeout :: "rvalue comp \<Rightarrow> rvalue \<Rightarrow> rvalue \<Rightarrow> rvalue comp" where
  "um_timeout blk interval obj =
     andthen (state_op um_op_acquire) (\<lambda>a.
     andthen (modify (um_prep_op a OP_TIMEOUT 2 0)) (\<lambda>_.
     andthen (num2dbl interval) (\<lambda>ts.
     andthen (modify (\<lambda>m. upd_op a (\<lambda>x. x\<lparr>op_ts := ts, op_fiber := Fiber (current_fiber m),
                                          op_value := obj, op_async_op := Qnil\<rparr>) m)) (\<lambda>_.
     andthen (um_get_sqe (Some a)) (\<lambda>_.
     andthen (modify (prep_sqe (Prep_timeout ts False))) (\<lambda>_.
     rb_ensure blk (um_timeout_complete a)))))))"

end
