(* ===== verification/UM_Loop_Inv.thy ===== *)
theory UM_Loop_Inv
  imports UM_Loop
begin

text \<open>
  Properties of the machine's loop: what a completion does to its operation, and how the scheduler
  hands control to fibers.
\<close>

section \<open>Auxiliary facts\<close>

lemma op_lists_set_flags [simp]: "op_lists (set_flags a f m) q fl ts \<longleftrightarrow> op_lists m q fl ts"
  by (simp add: set_flags_def op_lists_upd_op)

lemma op_lists_clear_flags [simp]: "op_lists (clear_flags a f m) q fl ts \<longleftrightarrow> op_lists m q fl ts"
  by (simp add: clear_flags_def op_lists_upd_op)

lemma op_lists_set_result [simp]: "op_lists (set_result a r f m) q fl ts \<longleftrightarrow> op_lists m q fl ts"
  by (simp add: set_result_def op_lists_upd_op)

lemma op_lists_upd_metrics:
  "(\<And>x. ops_runqueue (f x) = ops_runqueue x \<and> ops_free (f x) = ops_free x \<and>
     ops_transient (f x) = ops_transient x) \<Longrightarrow>
   op_lists (upd_metrics f m) q fl ts \<longleftrightarrow> op_lists m q fl ts"
  by (simp add: op_lists_def rq_rel_def)

lemma op_lists_dec_pending [simp]: "op_lists (dec_pending m) q fl ts \<longleftrightarrow> op_lists m q fl ts"
  by (simp add: dec_pending_def op_lists_upd_metrics)

lemma dec_pending_simps [simp]:
  "ops (dec_pending m) = ops m" "op_fresh (dec_pending m) = op_fresh m"
  "op_has (dec_pending m) a f \<longleftrightarrow> op_has m a f"
  by (simp_all add: dec_pending_def op_has_def)

lemma set_result_simps [simp]:
  "ops (set_result a r f m) = (ops m)(a := (ops m a)\<lparr>op_result := (op_result (ops m a))\<lparr>res := r, res_flags := f\<rparr>\<rparr>)"
  "op_fresh (set_result a r f m) = op_fresh m"
  by (simp_all add: set_result_def)

text \<open>The operation pushed keeps everything but its links.\<close>

lemma push_op_fields:
  "op_flags (ops (um_runqueue_push m a) x) = op_flags (ops m x)"
  "op_ref_count (ops (um_runqueue_push m a) x) = op_ref_count (ops m x)"
  "op_fiber (ops (um_runqueue_push m a) x) = op_fiber (ops m x)"
  "op_value (ops (um_runqueue_push m a) x) = op_value (ops m x)"
  "op_result (ops (um_runqueue_push m a) x) = op_result (ops m x)"
  "op_kind (ops (um_runqueue_push m a) x) = op_kind (ops m x)"
  by (auto simp: um_runqueue_push_def Let_def split: option.split)

text \<open>An operation on none of the lists can be overwritten.\<close>

lemma op_lists_other:
  assumes "a \<notin> set (q @ fl @ ts)"
  shows "op_lists (upd_op a g m) q fl ts \<longleftrightarrow> op_lists m q fl ts"
proof -
  have nx: "opnext (upd_op a g m) x = opnext m x" "opprev (upd_op a g m) x = opprev m x"
    if "x \<in> set (q @ fl @ ts)" for x
    using that assms by (auto simp: opnext_def opprev_def)
  have "chain (opnext (upd_op a g m)) p q \<longleftrightarrow> chain (opnext m) p q"
    "chain (opnext (upd_op a g m)) p fl \<longleftrightarrow> chain (opnext m) p fl"
    "dlist (opnext (upd_op a g m)) (opprev (upd_op a g m)) None p ts \<longleftrightarrow> dlist (opnext m) (opprev m) None p ts" for p
    using nx by (auto intro!: chain_cong dlist_cong simp del: opnext_simps opprev_simps)
  then show ?thesis by (simp add: op_lists_def rq_rel_def del: opnext_simps opprev_simps)
qed

lemma push_machine_fields:
  "test_mode (um_runqueue_push m a) = test_mode m" "current_fiber (um_runqueue_push m a) = current_fiber m"
  "heap (um_runqueue_push m a) = heap m"
  by (auto simp: um_runqueue_push_def Let_def split: option.split)

lemma schedule_op_lists:
  assumes "op_lists m q fl ts" "a \<notin> set (q @ fl @ ts)" "a < op_fresh m"
  shows "op_lists (um_schedule_op m a) (q @ [a]) fl ts"
  using assms by (simp add: um_schedule_op_def op_lists_upd_op push_lists)

lemma schedule_op_fields:
  "op_ref_count (ops (um_schedule_op m a) a) = op_ref_count (ops m a) + 1"
  "op_flags (ops (um_schedule_op m a) a) = op_flags (ops m a) OR OP_F_SCHEDULED"
  "op_fiber (ops (um_schedule_op m a) a) = op_fiber (ops m a)"
  "op_value (ops (um_schedule_op m a) a) = op_value (ops m a)"
  "op_result (ops (um_schedule_op m a) a) = op_result (ops m a)"
  by (simp_all add: um_schedule_op_def push_op_fields)

lemma release_shared:
  "op_ref_count (ops m a) \<noteq> 1 \<Longrightarrow>
   um_op_release m a = Some (upd_op a (\<lambda>x. x\<lparr>op_ref_count := op_ref_count x - 1\<rparr>) m)"
  by (simp add: um_op_release_def)

lemma release_last_plain:
  "op_ref_count (ops m a) = 1 \<Longrightarrow> \<not> op_has m a OP_F_FREE_IOVECS \<Longrightarrow> \<not> op_has m a OP_F_MULTISHOT \<Longrightarrow>
   um_op_release m a = Some (um_op_free (upd_op a (\<lambda>x. x\<lparr>op_ref_count := op_ref_count x - 1\<rparr>) m) a)"
  by (simp add: um_op_release_def op_has_def)

lemma transient_add_fields:
  "op_flags (ops (um_op_transient_add m a) x) = op_flags (ops m x)"
  "op_ref_count (ops (um_op_transient_add m a) x) = op_ref_count (ops m x)"
  "op_fresh (um_op_transient_add m a) = op_fresh m" "sqe_slots (um_op_transient_add m a) = sqe_slots m" "sqes (um_op_transient_add m a) = sqes m"
  "current_fiber (um_op_transient_add m a) = current_fiber m" "heap (um_op_transient_add m a) = heap m"
  "test_mode (um_op_transient_add m a) = test_mode m" "sidecar_mode (um_op_transient_add m a) = sidecar_mode m"
  by (auto simp: um_op_transient_add_def Let_def split: option.split)

lemma transient_remove_fields:
  "op_flags (ops (um_op_transient_remove m a) a) = op_flags (ops m a) AND NOT OP_F_TRANSIENT"
  "x \<noteq> a \<Longrightarrow> op_flags (ops (um_op_transient_remove m a) x) = op_flags (ops m x)"
  "op_ref_count (ops (um_op_transient_remove m a) x) = op_ref_count (ops m x)"
  "op_fiber (ops (um_op_transient_remove m a) x) = op_fiber (ops m x)"
  "op_value (ops (um_op_transient_remove m a) x) = op_value (ops m x)"
  "op_fresh (um_op_transient_remove m a) = op_fresh m" "sqes (um_op_transient_remove m a) = sqes m"
  "current_fiber (um_op_transient_remove m a) = current_fiber m" "heap (um_op_transient_remove m a) = heap m"
  "test_mode (um_op_transient_remove m a) = test_mode m" "sidecar_mode (um_op_transient_remove m a) = sidecar_mode m"
  by (auto simp: um_op_transient_remove_def Let_def split: option.split)

text \<open>An operation in the hands of its fiber: on no list, allocated, with a plain set of flags.\<close>

definition detached :: "um \<Rightarrow> addr list \<Rightarrow> addr list \<Rightarrow> addr list \<Rightarrow> addr \<Rightarrow> bool" where
  "detached m q fl ts a \<longleftrightarrow> op_lists m q fl ts \<and> a \<notin> set (q @ fl @ ts) \<and> a < op_fresh m"

definition plain_op :: "um \<Rightarrow> addr \<Rightarrow> bool" where
  "plain_op m a \<longleftrightarrow> \<not> op_has m a OP_F_MULTISHOT \<and> \<not> op_has m a OP_F_TRANSIENT \<and>
     \<not> op_has m a OP_F_ASYNC \<and> \<not> op_has m a OP_F_FREE_IOVECS"

section \<open>Completions\<close>

text \<open>The completion of a blocking operation stores the result, marks the operation done and puts it at
  the end of the run queue, where the reference of the completion becomes that of the queue.\<close>

lemma cqe_schedules_op:
  assumes d: "detached m q fl ts a" and p: "plain_op m a" "\<not> op_has m a OP_F_CANCELED"
    and ref: "op_ref_count (ops m a) \<noteq> 1" and c: "cqe_op c = Some a"
  shows "\<exists>m'. um_process_cqe m c = Some m' \<and> op_lists m' (q @ [a]) fl ts \<and>
    op_has m' a OP_F_CQE_DONE \<and> op_has m' a OP_F_SCHEDULED \<and>
    op_ref_count (ops m' a) = op_ref_count (ops m a) \<and>
    res (op_result (ops m' a)) = cqe_res c \<and> op_fiber (ops m' a) = op_fiber (ops m a) \<and>
    op_value (ops m' a) = op_value (ops m a) \<and>
    op_flags (ops m' a) = op_flags (ops m a) OR (OP_F_CQE_SEEN OR OP_F_CQE_DONE) OR OP_F_SCHEDULED \<and>
    test_mode m' = test_mode m \<and> current_fiber m' = current_fiber m \<and> op_fresh m' = op_fresh m \<and>
    heap m' = heap m \<and> (\<forall>x. x \<noteq> a \<longrightarrow> op_flags (ops m' x) = op_flags (ops m x) \<and>
      op_ref_count (ops m' x) = op_ref_count (ops m x))"
proof -
  let ?m1 = "upd_op a (\<lambda>x. x\<lparr>op_ref_count := op_ref_count x - 1\<rparr>) (dec_pending m)"
  let ?m2 = "set_flags a (OP_F_CQE_SEEN OR OP_F_CQE_DONE) (set_result a (cqe_res c) (cqe_flags c) ?m1)"
  have "um_process_cqe m c = Some (um_schedule_op ?m2 a)"
    using p c release_shared [of "dec_pending m" a] ref
    by (simp add: um_process_cqe_def plain_op_def op_has_def um_flag_defs has_flag_or
        Let_def)
  moreover have "op_lists (um_schedule_op ?m2 a) (q @ [a]) fl ts"
    using d by (intro schedule_op_lists) (auto simp: detached_def op_lists_upd_op)
  moreover have "test_mode (um_schedule_op ?m2 a) = test_mode m" "current_fiber (um_schedule_op ?m2 a) = current_fiber m"
    "op_fresh (um_schedule_op ?m2 a) = op_fresh m" "heap (um_schedule_op ?m2 a) = heap m"
    by (simp_all add: um_schedule_op_def push_machine_fields set_result_def dec_pending_def)
  moreover have "op_flags (ops (um_schedule_op ?m2 a) x) = op_flags (ops m x) \<and>
      op_ref_count (ops (um_schedule_op ?m2 a) x) = op_ref_count (ops m x)" if "x \<noteq> a" for x
    using that by (simp add: um_schedule_op_def push_op_fields)
  ultimately show ?thesis
    by (simp add: schedule_op_fields op_has_def um_flag_defs or.assoc)
qed

lemma free_fields:
  "op_flags (ops (um_op_free m a) x) = op_flags (ops m x)"
  "op_ref_count (ops (um_op_free m a) x) = op_ref_count (ops m x)"
  "op_fiber (ops (um_op_free m a) x) = op_fiber (ops m x)"
  "op_value (ops (um_op_free m a) x) = op_value (ops m x)"
  "op_result (ops (um_op_free m a) x) = op_result (ops m x)"
  by (simp_all add: um_op_free_def)

lemma free_upd_lists:
  assumes "detached m q fl ts a" "\<And>x. op_next (g x) = op_next x \<and> op_prev (g x) = op_prev x"
  shows "op_lists (um_op_free (upd_op a g m) a) q (a # fl) ts"
  using assms by (intro free_lists) (auto simp: detached_def op_lists_upd_op)

lemma discarded_cqe_run:
  assumes d: "detached m q fl ts a" and p: "plain_op m a" "op_has m a OP_F_CANCELED"
    and ref: "op_ref_count (ops m a) = 1" and c: "cqe_op c = Some a"
  shows "\<exists>m'. um_process_cqe m c = Some m' \<and> op_lists m' q (a # fl) ts \<and>
    op_ref_count (ops m' a) = - 1 \<and> op_fresh m' = op_fresh m \<and> test_mode m' = test_mode m \<and>
    (\<forall>x. x \<noteq> a \<longrightarrow> op_flags (ops m' x) = op_flags (ops m x) \<and> op_ref_count (ops m' x) = op_ref_count (ops m x))"
proof -
  let ?m1 = "um_op_free (upd_op a (\<lambda>x. x\<lparr>op_ref_count := op_ref_count x - 1\<rparr>) (dec_pending m)) a"
  let ?m2 = "set_flags a (OP_F_CQE_SEEN OR OP_F_CQE_DONE) ?m1"
  let ?m3 = "upd_op a (\<lambda>x. x\<lparr>op_ref_count := op_ref_count x - 1\<rparr>) ?m2"
  have r1: "um_op_release (dec_pending m) a = Some ?m1"
    using p ref by (intro release_last_plain) (simp_all add: plain_op_def)
  have r2: "um_op_release ?m2 a = Some ?m3"
    using ref by (intro release_shared) (simp add: free_fields)
  have "um_process_cqe m c = Some ?m3"
    using p c r1 r2
    by (simp add: um_process_cqe_def plain_op_def op_has_def um_flag_defs Let_def free_fields)
  moreover have "detached (dec_pending m) q fl ts a" using d by (simp add: detached_def)
  then have "op_lists ?m1 q (a # fl) ts" by (rule free_upd_lists) simp
  then have "op_lists ?m3 q (a # fl) ts" by (simp add: op_lists_upd_op)
  moreover have "op_ref_count (ops ?m3 a) = - 1" using ref by (simp add: free_fields)
  moreover have "op_fresh ?m3 = op_fresh m" "test_mode ?m3 = test_mode m"
    by (simp_all add: um_op_free_def dec_pending_def)
  moreover have "op_flags (ops ?m3 x) = op_flags (ops m x) \<and> op_ref_count (ops ?m3 x) = op_ref_count (ops m x)"
    if "x \<noteq> a" for x
    using that by (simp add: free_fields)
  ultimately show ?thesis by blast
qed

text \<open>C10. An operation whose result is to be discarded is released twice by its completion, although after
  its fiber released it one reference is left: it goes to the free list once, and its reference count
  ends at the largest 32-bit number instead of 0.\<close>

theorem discarded_cqe_double_release:
  assumes d: "detached m q fl ts a" and p: "plain_op m a" "op_has m a OP_F_CANCELED"
    and ref: "op_ref_count (ops m a) = 1" and c: "cqe_op c = Some a"
  shows "\<exists>m'. um_process_cqe m c = Some m' \<and> op_lists m' q (a # fl) ts \<and>
    op_ref_count (ops m' a) = - 1"
  using discarded_cqe_run [OF assms] by blast

lemma transient_cqe_run:
  assumes l: "op_lists m q fl ts" and a: "a \<in> set ts" "op_has m a OP_F_TRANSIENT"
    and p: "\<not> op_has m a OP_F_MULTISHOT" "\<not> op_has m a OP_F_FREE_IOVECS"
    and ref: "op_ref_count (ops m a) \<noteq> 0" and c: "cqe_op c = Some a"
  shows "\<exists>m'. um_process_cqe m c = Some m' \<and> op_fresh m' = op_fresh m \<and> test_mode m' = test_mode m \<and>
    (\<forall>x. x \<noteq> a \<longrightarrow> op_flags (ops m' x) = op_flags (ops m x) \<and> op_ref_count (ops m' x) = op_ref_count (ops m x)) \<and>
    (op_ref_count (ops m a) \<noteq> 1 \<longrightarrow> op_flags (ops m' a) = (op_flags (ops m a) AND NOT OP_F_TRANSIENT) OR (OP_F_CQE_SEEN OR OP_F_CQE_DONE)) \<and>
    (if op_ref_count (ops m a) = 1 then op_lists m' q (a # fl) (remove1 a ts)
     else op_lists m' q fl (remove1 a ts) \<and> op_ref_count (ops m' a) = op_ref_count (ops m a) - 1 \<and>
       op_has m' a OP_F_CQE_DONE \<and> res (op_result (ops m' a)) = cqe_res c)"
proof -
  let ?m1 = "um_op_transient_remove (dec_pending m) a"
  have l1: "op_lists ?m1 q fl (remove1 a ts)" "a \<notin> set (q @ fl @ remove1 a ts)"
    using transient_remove_lists [of "dec_pending m" q fl ts a] l a by auto
  have f: "op_flags (ops ?m1 a) = op_flags (ops m a) AND NOT OP_F_TRANSIENT"
    "op_ref_count (ops ?m1 a) = op_ref_count (ops m a)" "op_fresh ?m1 = op_fresh m" "test_mode ?m1 = test_mode m"
    by (simp_all add: transient_remove_fields dec_pending_def)
  have fr: "op_flags (ops ?m1 x) = op_flags (ops m x)" "op_ref_count (ops ?m1 x) = op_ref_count (ops m x)" if "x \<noteq> a" for x
    using that by (simp_all add: transient_remove_fields)
  have fresh: "a < op_fresh m" using l a by (auto simp: op_lists_def)
  have gt: "op_ref_count (ops m a) > 1 \<longleftrightarrow> op_ref_count (ops m a) \<noteq> 1"
    using ref by (metis linorder_neqE word_less_1)
  show ?thesis
  proof (cases "op_ref_count (ops m a) = 1")
    case True
    let ?m2 = "um_op_free (upd_op a (\<lambda>x. x\<lparr>op_ref_count := op_ref_count x - 1\<rparr>) ?m1) a"
    have "um_op_release ?m1 a = Some ?m2"
      using True f p by (intro release_last_plain) (simp_all add: op_has_def um_flag_defs)
    then have "um_process_cqe m c = Some ?m2" using True a c f by (simp add: um_process_cqe_def)
    moreover have "op_lists ?m2 q (a # fl) (remove1 a ts)"
      by (rule free_upd_lists) (use l1 f fresh in \<open>auto simp: detached_def\<close>)
    ultimately show ?thesis using True f fr by (auto simp: free_fields um_op_free_def)
  next
    case False
    let ?m2 = "set_flags a (OP_F_CQE_SEEN OR OP_F_CQE_DONE)
      (set_result a (cqe_res c) (cqe_flags c) ?m1)"
    let ?m3 = "upd_op a (\<lambda>x. x\<lparr>op_ref_count := op_ref_count x - 1\<rparr>) ?m2"
    have "um_op_release ?m2 a = Some ?m3" using False f by (intro release_shared) simp
    then have "um_process_cqe m c = Some ?m3" using False gt a c f by (simp add: um_process_cqe_def)
    moreover have "op_lists ?m3 q fl (remove1 a ts)" using l1 by (simp add: op_lists_upd_op)
    ultimately show ?thesis using False f fr by (simp add: op_has_def um_flag_defs set_result_def)
  qed
qed

text \<open>The completion of a transient operation takes it off the transient list; it is freed when nobody
  else holds it, otherwise its result is stored for the holder.\<close>

theorem transient_cqe:
  assumes l: "op_lists m q fl ts" and a: "a \<in> set ts" "op_has m a OP_F_TRANSIENT"
    and p: "\<not> op_has m a OP_F_MULTISHOT" "\<not> op_has m a OP_F_FREE_IOVECS"
    and ref: "op_ref_count (ops m a) \<noteq> 0" and c: "cqe_op c = Some a"
  shows "\<exists>m'. um_process_cqe m c = Some m' \<and>
    (if op_ref_count (ops m a) = 1 then op_lists m' q (a # fl) (remove1 a ts)
     else op_lists m' q fl (remove1 a ts) \<and> op_ref_count (ops m' a) = op_ref_count (ops m a) - 1 \<and>
       op_has m' a OP_F_CQE_DONE \<and> res (op_result (ops m' a)) = cqe_res c)"
  using transient_cqe_run [OF assms] by blast

text \<open>The completion of an operation nobody waits for, and which is on no list, frees it; its result is written into
  the freed operation.\<close>

lemma async_cqe_run:
  assumes d: "detached m q fl ts a" and f: "op_flags (ops m a) = OP_F_ASYNC" "op_ref_count (ops m a) = 1"
    and c: "cqe_op c = Some a"
  shows "\<exists>m'. um_process_cqe m c = Some m' \<and> op_lists m' q (a # fl) ts \<and> op_fresh m' = op_fresh m \<and>
    test_mode m' = test_mode m \<and>
    (\<forall>x. x \<noteq> a \<longrightarrow> op_flags (ops m' x) = op_flags (ops m x) \<and> op_ref_count (ops m' x) = op_ref_count (ops m x))"
proof -
  let ?m1 = "um_op_free (upd_op a (\<lambda>x. x\<lparr>op_ref_count := op_ref_count x - 1\<rparr>) (dec_pending m)) a"
  let ?m2 = "set_flags a (OP_F_CQE_SEEN OR OP_F_CQE_DONE) (set_result a (cqe_res c) (cqe_flags c) ?m1)"
  have "um_op_release (dec_pending m) a = Some ?m1"
    using f by (intro release_last_plain) (simp_all add: op_has_def um_flag_defs)
  then have "um_process_cqe m c = Some ?m2"
    using f c by (simp add: um_process_cqe_def op_has_def um_flag_defs has_flag_or Let_def free_fields)
  moreover have "detached (dec_pending m) q fl ts a" using d by (simp add: detached_def)
  then have "op_lists ?m1 q (a # fl) ts" by (rule free_upd_lists) simp
  then have "op_lists ?m2 q (a # fl) ts" by simp
  moreover have "op_fresh ?m2 = op_fresh m" "test_mode ?m2 = test_mode m"
    by (simp_all add: um_op_free_def dec_pending_def set_result_def)
  moreover have "op_flags (ops ?m2 x) = op_flags (ops m x) \<and> op_ref_count (ops ?m2 x) = op_ref_count (ops m x)"
    if "x \<noteq> a" for x
    using that by (simp add: free_fields)
  ultimately show ?thesis by blast
qed

section \<open>The scheduler\<close>

lemma switch_head:
  assumes l: "op_lists m (a # q) fl ts" and p: "\<not> op_has m a OP_F_SKIP" "\<not> test_mode m"
    and rel: "um_op_release (clear_flags a OP_F_SCHEDULED (upd_metrics
      (\<lambda>x. x\<lparr>total_switches := total_switches x + 1\<rparr>) (snd (um_runqueue_shift m)))) a = Some m'"
  shows "um_switch ws m = Some (Inr (Transfer (op_fiber (ops m a)) (op_value (ops m a))), m')"
proof -
  obtain m1 where m1: "um_runqueue_shift m = (Some a, m1)" "ops m1 = ops m"
    using shift_lists [OF l] by blast
  have "test_mode m1 = test_mode m"
    using m1(1) by (auto simp: um_runqueue_shift_def Let_def split: option.splits if_splits)
  then show ?thesis using m1 p rel
    by (subst um_switch.simps) (simp add: process_runqueue_op_def op_has_def)
qed

text \<open>Switching transfers control to the fiber of the operation at the head of the run queue, with the
  operation's value, and drops the queue's reference; an operation held by nobody else is freed.\<close>

lemma switch_transfers_head:
  assumes l: "op_lists m (a # q) fl ts" and p: "\<not> op_has m a OP_F_SKIP" "\<not> test_mode m" "plain_op m a"
  shows "\<exists>m'. um_switch ws m = Some (Inr (Transfer (op_fiber (ops m a)) (op_value (ops m a))), m') \<and>
    \<not> op_has m' a OP_F_SCHEDULED \<and> op_ref_count (ops m' a) = op_ref_count (ops m a) - 1 \<and>
    op_lists m' q (if op_ref_count (ops m a) = 1 then a # fl else fl) ts \<and>
    (\<forall>x. x \<noteq> a \<longrightarrow> ops m' x = ops m x) \<and> test_mode m' = test_mode m \<and>
    op_flags (ops m' a) = op_flags (ops m a) AND NOT OP_F_SCHEDULED \<and>
    op_result (ops m' a) = op_result (ops m a) \<and> op_fresh m' = op_fresh m \<and> heap m' = heap m"
proof -
  obtain m1 where m1: "um_runqueue_shift m = (Some a, m1)" "op_lists m1 q fl ts" "ops m1 = ops m"
    using shift_lists [OF l] by blast
  have fresh: "op_fresh m1 = op_fresh m" "test_mode m1 = test_mode m" "heap m1 = heap m"
    using m1(1) by (auto simp: um_runqueue_shift_def Let_def split: option.splits if_splits)
  have d: "a \<notin> set (q @ fl @ ts)" "a < op_fresh m1" using l fresh by (auto simp: op_lists_def)
  let ?m2 = "clear_flags a OP_F_SCHEDULED (upd_metrics
      (\<lambda>x. x\<lparr>total_switches := total_switches x + 1\<rparr>) m1)"
  have l2: "op_lists ?m2 q fl ts" using m1(2) by (simp add: op_lists_upd_metrics)
  have f: "op_ref_count (ops ?m2 a) = op_ref_count (ops m a)"
    "op_flags (ops ?m2 a) = op_flags (ops m a) AND NOT OP_F_SCHEDULED" using m1(3) by simp_all
  let ?m3 = "upd_op a (\<lambda>x. x\<lparr>op_ref_count := op_ref_count x - 1\<rparr>) ?m2"
  show ?thesis
  proof (cases "op_ref_count (ops m a) = 1")
    case True
    have "um_op_release ?m2 a = Some (um_op_free ?m3 a)"
      using True f p(3) by (intro release_last_plain) (simp_all add: plain_op_def op_has_def um_flag_defs)
    moreover have "op_lists (um_op_free ?m3 a) q (a # fl) ts"
      by (rule free_upd_lists) (use l2 d in \<open>auto simp: detached_def\<close>)
    ultimately show ?thesis using switch_head [OF l p(1,2), of "um_op_free ?m3 a"] m1(1,3) True f fresh
      by (simp add: um_op_free_def op_has_def um_flag_defs)
  next
    case False
    have "um_op_release ?m2 a = Some ?m3" using False f by (intro release_shared) simp
    moreover have "op_lists ?m3 q fl ts" using l2 by (simp add: op_lists_upd_op)
    ultimately show ?thesis using switch_head [OF l p(1,2), of ?m3] m1(1,3) False f fresh
      by (simp add: op_has_def um_flag_defs)
  qed
qed

lemma switch_empty: "um_runqueue_shift m = (None, m) \<Longrightarrow> um_switch [] m = Some (Inr Blocked, m)"
  by (subst um_switch.simps) simp

lemma switch_skip:
  assumes "um_runqueue_shift m = (Some a, m1)" "op_has m1 a OP_F_SKIP"
    "um_op_release (clear_flags a OP_F_SCHEDULED m1) a = Some m2"
  shows "um_switch ws m = um_switch ws m2"
  using assms by (subst um_switch.simps) simp

text \<open>The operations of a fiber that was resumed by another one are passed over.\<close>

lemma switch_skips:
  assumes "op_lists m (sk @ a # q) fl ts" "\<not> test_mode m" "\<not> op_has m a OP_F_SKIP" "plain_op m a"
    and "\<forall>b \<in> set sk. op_has m b OP_F_SKIP \<and> plain_op m b \<and> op_ref_count (ops m b) = 1"
  shows "\<exists>m'. um_switch ws m = Some (Inr (Transfer (op_fiber (ops m a)) (op_value (ops m a))), m') \<and>
    op_ref_count (ops m' a) = op_ref_count (ops m a) - 1 \<and>
    op_lists m' q ((if op_ref_count (ops m a) = 1 then [a] else []) @ rev sk @ fl) ts"
  using assms
proof (induction sk arbitrary: m fl)
  case Nil
  then show ?case using switch_transfers_head [of m a q fl ts ws]
    by (cases "op_ref_count (ops m a) = 1") auto
next
  case (Cons b sk)
  obtain m1 where m1: "um_runqueue_shift m = (Some b, m1)" "op_lists m1 (sk @ a # q) fl ts" "ops m1 = ops m"
    using shift_lists [of m b "sk @ a # q"] Cons.prems(1) by auto
  have fr: "op_fresh m1 = op_fresh m" "test_mode m1 = test_mode m"
    using m1(1) by (auto simp: um_runqueue_shift_def Let_def split: option.splits if_splits)
  have d: "b \<notin> set ((sk @ a # q) @ fl @ ts)" "b < op_fresh m1"
    using Cons.prems(1) fr by (auto simp: op_lists_def)
  let ?m3 = "upd_op b (\<lambda>x. x\<lparr>op_ref_count := op_ref_count x - 1\<rparr>) (clear_flags b OP_F_SCHEDULED m1)"
  let ?m2 = "um_op_free ?m3 b"
  have b: "op_has m b OP_F_SKIP" "plain_op m b" "op_ref_count (ops m b) = 1"
    using Cons.prems(5) by auto
  have r: "um_op_release (clear_flags b OP_F_SCHEDULED m1) b = Some ?m2"
    using b m1(3) by (intro release_last_plain) (simp_all add: plain_op_def op_has_def um_flag_defs)
  have l2: "op_lists ?m2 (sk @ a # q) (b # fl) ts"
    by (rule free_upd_lists) (use m1(2) d in \<open>auto simp: detached_def\<close>)
  have same: "ops ?m2 x = ops m x" if "x \<noteq> b" for x using that m1(3) by (simp add: um_op_free_def)
  have t2: "test_mode ?m2 = test_mode m" using fr by (simp add: um_op_free_def)
  have has: "op_has ?m2 x f \<longleftrightarrow> op_has m x f" if "x \<noteq> b" for x f using same that by (simp add: op_has_def)
  have ab: "a \<noteq> b" "\<forall>x \<in> set sk. x \<noteq> b" using d by auto
  have "\<exists>m'. um_switch ws ?m2 = Some (Inr (Transfer (op_fiber (ops ?m2 a)) (op_value (ops ?m2 a))), m') \<and>
      op_ref_count (ops m' a) = op_ref_count (ops ?m2 a) - 1 \<and>
      op_lists m' q ((if op_ref_count (ops ?m2 a) = 1 then [a] else []) @ rev sk @ b # fl) ts"
  proof (rule Cons.IH [OF l2])
    show "\<forall>x \<in> set sk. op_has ?m2 x OP_F_SKIP \<and> plain_op ?m2 x \<and> op_ref_count (ops ?m2 x) = 1"
      using Cons.prems(5) ab same has unfolding plain_op_def by simp
  qed (use Cons.prems t2 has ab same in \<open>simp_all add: plain_op_def\<close>)
  moreover have "um_switch ws m = um_switch ws ?m2"
    using switch_skip [OF m1(1) _ r] b(1) m1(3) by (simp add: op_has_def)
  ultimately show ?case using same [OF ab(1)] by simp
qed

text \<open>The scheduler passes over the operations marked to be skipped, freeing each, and transfers control to
  the fiber of the first other operation of the run queue.\<close>

theorem switch_skips_marked:
  assumes "op_lists m (sk @ a # q) fl ts" "\<not> test_mode m" "\<not> op_has m a OP_F_SKIP" "plain_op m a"
    and "\<forall>b \<in> set sk. op_has m b OP_F_SKIP \<and> plain_op m b \<and> op_ref_count (ops m b) = 1"
  shows "\<exists>m'. um_switch ws m = Some (Inr (Transfer (op_fiber (ops m a)) (op_value (ops m a))), m') \<and>
    op_ref_count (ops m' a) = op_ref_count (ops m a) - 1 \<and>
    op_lists m' q ((if op_ref_count (ops m a) = 1 then [a] else []) @ rev sk @ fl) ts"
  by (rule switch_skips [OF assms])

section \<open>Scheduling fibers\<close>

text \<open>A machine whose run queue holds scheduled fibers only, in the order \<open>xs\<close>.\<close>

definition sched_rel :: "um \<Rightarrow> (rvalue \<times> rvalue) list \<Rightarrow> bool" where
  "sched_rel m xs \<longleftrightarrow> \<not> test_mode m \<and> (\<exists>q fl ts. op_lists m q fl ts \<and>
     map (\<lambda>a. (op_fiber (ops m a), op_value (ops m a))) q = xs \<and>
     (\<forall>a \<in> set q. \<not> op_has m a OP_F_SKIP \<and> plain_op m a \<and> op_ref_count (ops m a) = 1))"

definition sched_push :: "um \<Rightarrow> rvalue \<times> rvalue \<Rightarrow> um" where
  "sched_push m x = um_schedule (fst x) (snd x) m"

definition sched_next :: "um \<Rightarrow> (rvalue \<times> rvalue) option \<times> um" where
  "sched_next m =
     (case um_switch [] m of
        Some (Inr (Transfer f v), m') \<Rightarrow> (Some (f, v), m')
      | Some (_, m') \<Rightarrow> (None, m')
      | None \<Rightarrow> (None, m))"

lemma schedule_rel:
  assumes "sched_rel m xs"
  shows "sched_rel (um_schedule f v m) (xs @ [(f, v)])"
proof -
  obtain q fl ts where t: "\<not> test_mode m" and l: "op_lists m q fl ts"
    and xs: "map (\<lambda>a. (op_fiber (ops m a), op_value (ops m a))) q = xs"
    and ok: "\<forall>a \<in> set q. \<not> op_has m a OP_F_SKIP \<and> plain_op m a \<and> op_ref_count (ops m a) = 1"
    using assms by (auto simp: sched_rel_def)
  obtain a m1 fl' where m1: "um_op_acquire m = (a, m1)" "op_lists m1 q fl' ts"
    "a \<notin> set (q @ fl' @ ts)" "a < op_fresh m1"
    using acquire_lists [OF l] by blast
  have old: "op_flags (ops m1 x) = op_flags (ops m x)" "op_fiber (ops m1 x) = op_fiber (ops m x)"
    "op_value (ops m1 x) = op_value (ops m x)" "op_ref_count (ops m1 x) = op_ref_count (ops m x)"
    "test_mode m1 = test_mode m" for x
    using m1(1) by (auto simp: um_op_acquire_def um_op_alloc_def Let_def split: option.splits)
  let ?op = "op_zero\<lparr>op_kind := OP_SCHEDULE, op_ref_count := 1, op_flags := OP_F_SCHEDULED,
    op_fiber := f, op_value := v, op_async_op := Qnil\<rparr>"
  let ?m2 = "upd_op a (\<lambda>_. ?op) m1"
  have "op_lists ?m2 q fl' ts \<longleftrightarrow> op_lists m1 q fl' ts"
    using m1(3) by (rule op_lists_other)
  then have l3: "op_lists (um_runqueue_push ?m2 a) (q @ [a]) fl' ts"
    using m1 by (intro push_lists) auto
  have eq: "um_schedule f v m = um_runqueue_push ?m2 a"
    using m1(1) by (simp add: um_schedule_def)
  have t3: "test_mode (um_runqueue_push ?m2 a) = test_mode m1"
    by (auto simp: um_runqueue_push_def Let_def split: option.split)
  have v3: "map (\<lambda>x. (op_fiber (ops (um_runqueue_push ?m2 a) x), op_value (ops (um_runqueue_push ?m2 a) x)))
      (q @ [a]) = xs @ [(f, v)]"
    using xs m1(3) old by (auto simp: push_op_fields)
  have ok3: "\<forall>x \<in> set (q @ [a]). \<not> op_has (um_runqueue_push ?m2 a) x OP_F_SKIP \<and>
      plain_op (um_runqueue_push ?m2 a) x \<and> op_ref_count (ops (um_runqueue_push ?m2 a) x) = 1"
    using ok old by (auto simp: push_op_fields op_has_def plain_op_def um_flag_defs)
  have "\<not> test_mode (um_runqueue_push ?m2 a)" using t t3 old(5) by simp
  then show ?thesis unfolding sched_rel_def eq using l3 v3 ok3 by blast
qed

lemma sched_shift:
  assumes "sched_rel m (x # xs)"
  shows "\<exists>m'. sched_next m = (Some x, m') \<and> sched_rel m' xs"
proof -
  obtain q fl ts where t: "\<not> test_mode m" and l: "op_lists m q fl ts"
    and xs: "map (\<lambda>a. (op_fiber (ops m a), op_value (ops m a))) q = x # xs"
    and ok: "\<forall>a \<in> set q. \<not> op_has m a OP_F_SKIP \<and> plain_op m a \<and> op_ref_count (ops m a) = 1"
    using assms by (auto simp: sched_rel_def)
  then obtain a q' where q: "q = a # q'" by (cases q) auto
  have m': "\<exists>m'. um_switch [] m = Some (Inr (Transfer (op_fiber (ops m a)) (op_value (ops m a))), m') \<and>
      op_lists m' q' (a # fl) ts \<and> (\<forall>x. x \<noteq> a \<longrightarrow> ops m' x = ops m x) \<and> test_mode m' = test_mode m"
    using switch_transfers_head [of m a q' fl ts "[]"] l t ok q by auto
  then obtain m' where m': "um_switch [] m = Some (Inr (Transfer (op_fiber (ops m a)) (op_value (ops m a))), m')"
    "op_lists m' q' (a # fl) ts" "\<forall>x. x \<noteq> a \<longrightarrow> ops m' x = ops m x" "test_mode m' = test_mode m"
    by blast
  have "a \<notin> set q'" using l q by (auto simp: op_lists_def)
  then have same: "\<forall>x \<in> set q'. ops m' x = ops m x" using m'(3) by metis
  have "map (\<lambda>x. (op_fiber (ops m' x), op_value (ops m' x))) q' = xs"
    using xs q same by auto
  moreover have "\<forall>x \<in> set q'. \<not> op_has m' x OP_F_SKIP \<and> plain_op m' x \<and> op_ref_count (ops m' x) = 1"
    using ok q same by (simp add: op_has_def plain_op_def)
  ultimately have "sched_rel m' xs" using m'(2,4) t unfolding sched_rel_def by auto
  moreover have "sched_next m = (Some x, m')" using m'(1) xs q by (simp add: sched_next_def)
  ultimately show ?thesis by blast
qed

interpretation sched: fifo sched_push sched_next sched_rel "\<lambda>_ _. True"
proof
  fix m xs x
  show "sched_rel m xs \<Longrightarrow> sched_rel (sched_push m x) (xs @ [x])"
    using schedule_rel [of m xs "fst x" "snd x"] by (simp add: sched_push_def)
  show "sched_rel m [] \<Longrightarrow> sched_next m = (None, m)"
    using rq.shift_Nil [of m] switch_empty [of m]
    by (auto simp: sched_rel_def sched_next_def op_lists_def)
  show "sched_rel m (x # xs) \<Longrightarrow> \<exists>m'. sched_next m = (Some x, m') \<and> sched_rel m' xs"
    by (rule sched_shift)
qed

text \<open>C11. Fibers scheduled on an idle machine are resumed in the order in which they were scheduled, each once
  and with the value it was scheduled with.\<close>

theorem schedule_order:
  assumes "op_lists m [] fl ts" "\<not> test_mode m"
  shows "fst (sched.drain (length xs) (foldl (\<lambda>m (f, v). um_schedule f v m) m xs)) = xs"
proof -
  have "sched_rel m []" using assms by (auto simp: sched_rel_def)
  moreover have "(\<lambda>m (f, v). um_schedule f v m) = sched_push" by (auto simp: fun_eq_iff sched_push_def)
  ultimately show ?thesis using sched.fifo_order [of m xs] by simp
qed

theorem schedule_order_witness:
  "fst (sched.drain (length [(Fiber 1, Qnil), (Fiber 2, Fixnum 7), (Fiber 1, Qtrue)])
     (foldl (\<lambda>m (f, v). um_schedule f v m) um_zero [(Fiber 1, Qnil), (Fiber 2, Fixnum 7), (Fiber 1, Qtrue)])) =
   [(Fiber 1, Qnil), (Fiber 2, Fixnum 7), (Fiber 1, Qtrue)]"
  by (rule schedule_order [OF op_lists_zero]) (simp add: um_zero_def)

end
