(* ===== verification/UM_Loop_Props.thy ===== *)
theory UM_Loop_Props
  imports UM_Loop_Inv
begin

text \<open>
  Properties of the machine's loop, with their witnesses.
\<close>

lemma op_lists_fresh: "op_lists (um_zero\<lparr>op_fresh := n, ops := f\<rparr>) [] [] []"
  by (simp add: op_lists_def rq_rel_def um_zero_def metrics_zero_def)

section \<open>Completions of multishot operations\<close>

lemma op_results_cong:
  "results m' = results m \<Longrightarrow> op_result (ops m' a) = op_result (ops m a) \<Longrightarrow>
   op_result_tail (ops m' a) = op_result_tail (ops m a) \<Longrightarrow>
   op_result_count (ops m' a) = op_result_count (ops m a) \<Longrightarrow>
   op_results m' a rs xs \<longleftrightarrow> op_results m a rs xs"
  by (simp add: op_results_def rnext_def [abs_def])

lemma schedule_op_results:
  "results (um_schedule_op m a) = results m"
  "op_result_tail (ops (um_schedule_op m a) x) = op_result_tail (ops m x)"
  "op_result_count (ops (um_schedule_op m a) x) = op_result_count (ops m x)"
  "op_result (ops (um_schedule_op m a) x) = op_result (ops m x)"
  by (auto simp: um_schedule_op_def um_runqueue_push_def Let_def split: option.split)



section \<open>Waiting\<close>

text \<open>A wait that is interrupted, or that finds nothing ready, does not raise; any other failure of the
  wait raises the error number, before any completion is processed.\<close>

theorem wait_error:
  assumes "\<not> sidecar_mode m" "wait_cqe w = None"
  shows "\<exists>m'. ops m' = ops m \<and> ops_unsubmitted (metrics m') = 0 \<and>
    um_wait_for_and_process_ready_cqes w m =
      Some (if wait_ret w < 0 \<and> wait_ret w \<noteq> - EINTR \<and> wait_ret w \<noteq> - EAGAIN
            then Inl (SysErr (- wait_ret w)) else Inr (), m')"
  using assms
  by (auto simp: um_wait_for_and_process_ready_cqes_def um_wait_for_cqe_without_gvl_def submitted_def
      errno_defs Let_def)

theorem wait_error_witness:
  "\<exists>m'. ops m' = ops um_zero \<and> ops_unsubmitted (metrics m') = 0 \<and>
    um_wait_for_and_process_ready_cqes (no_cqes\<lparr>wait_ret := - EINTR\<rparr>) um_zero = Some (Inr (), m')"
  using wait_error [of um_zero "no_cqes\<lparr>wait_ret := - EINTR\<rparr>"]
  by (simp add: no_cqes_def um_zero_def errno_defs)

section \<open>Verification of a completed operation\<close>

lemma op_lists_frame:
  assumes "ops m' = ops m" "op_fresh m' = op_fresh m" "op_freelist m' = op_freelist m"
    "runqueue_head m' = runqueue_head m" "runqueue_tail m' = runqueue_tail m"
    "transient_head m' = transient_head m" "ops_runqueue (metrics m') = ops_runqueue (metrics m)"
    "ops_free (metrics m') = ops_free (metrics m)" "ops_transient (metrics m') = ops_transient (metrics m)"
  shows "op_lists m' = op_lists m"
  using assms
  by (intro ext) (simp add: op_lists_def rq_rel_def opnext_def [abs_def] opprev_def [abs_def])

lemma op_lists_updates [simp]:
  "op_lists (m\<lparr>sqes := l\<rparr>) = op_lists m" "op_lists (m\<lparr>sqe_slots := k\<rparr>) = op_lists m"
  "op_lists (m\<lparr>pending_fibers := F\<rparr>) = op_lists m" "op_lists (m\<lparr>current_fiber := f\<rparr>) = op_lists m"
  "op_lists (m\<lparr>iovecs_live := V\<rparr>) = op_lists m"
  by (rule op_lists_frame; simp)+

lemma get_sqe_run:
  "sqe_slots m = 0 \<Longrightarrow> \<exists>e. um_get_sqe p m = Some (Inl (UMError e), m)"
  "sqe_slots m \<noteq> 0 \<Longrightarrow> \<exists>m'. um_get_sqe p m = Some (Inr (), m') \<and> ops m' = ops m \<and>
     (\<forall>q fl ts. op_lists m' q fl ts \<longleftrightarrow> op_lists m q fl ts) \<and> op_fresh m' = op_fresh m \<and>
     sqes m' = sqes m @ [\<lparr>user_data = p, sqe_op = Prep_unset, sqe_skip_success = False\<rparr>] \<and>
     sqe_slots m' = sqe_slots m - 1 \<and> current_fiber m' = current_fiber m \<and>
     pending_fibers m' = pending_fibers m \<and> test_mode m' = test_mode m"
  by (simp_all add: um_get_sqe_def um_raise_internal_error_def op_lists_upd_metrics)

lemma prep_sqe_simps [simp]:
  "ops (prep_sqe p m) = ops m" "op_lists (prep_sqe p m) q fl ts \<longleftrightarrow> op_lists m q fl ts"
  "sqes (prep_sqe p m) = butlast (sqes m) @ [(last (sqes m))\<lparr>sqe_op := p\<rparr>]"
  "op_fresh (prep_sqe p m) = op_fresh m" "current_fiber (prep_sqe p m) = current_fiber m"
  "pending_fibers (prep_sqe p m) = pending_fibers m" "test_mode (prep_sqe p m) = test_mode m"
  "ops (sqe_skip_flag m) = ops m" "op_lists (sqe_skip_flag m) q fl ts \<longleftrightarrow> op_lists m q fl ts"
  "sqes (sqe_skip_flag m) = butlast (sqes m) @ [(last (sqes m))\<lparr>sqe_skip_success := True\<rparr>]"
  by (simp_all add: prep_sqe_def sqe_skip_flag_def)

lemma cancel_discard_run:
  "sqe_slots m = 0 \<Longrightarrow> \<exists>e. um_cancel_op_and_discard_cqe a m = Some (Inl (UMError e), m)"
  "sqe_slots m \<noteq> 0 \<Longrightarrow> \<exists>m'. um_cancel_op_and_discard_cqe a m = Some (Inr (), m') \<and>
     (\<forall>q fl ts. op_lists m' q fl ts \<longleftrightarrow> op_lists m q fl ts) \<and> op_has m' a OP_F_CANCELED \<and>
     sqes m' = sqes m @ [\<lparr>user_data = None, sqe_op = Prep_cancel a, sqe_skip_success = True\<rparr>]"
proof -
  assume "sqe_slots m = 0"
  then show "\<exists>e. um_cancel_op_and_discard_cqe a m = Some (Inl (UMError e), m)"
    using get_sqe_run(1) [of m None]
    by (auto simp: um_cancel_op_and_discard_cqe_def um_cancel_op_def andthen_def)
next
  assume "sqe_slots m \<noteq> 0"
  then obtain m1 where m1: "um_get_sqe None m = Some (Inr (), m1)" "ops m1 = ops m"
    "\<forall>q fl ts. op_lists m1 q fl ts \<longleftrightarrow> op_lists m q fl ts"
    "sqes m1 = sqes m @ [\<lparr>user_data = None, sqe_op = Prep_unset, sqe_skip_success = False\<rparr>]"
    using get_sqe_run(2) by blast
  then show "\<exists>m'. um_cancel_op_and_discard_cqe a m = Some (Inr (), m') \<and>
     (\<forall>q fl ts. op_lists m' q fl ts \<longleftrightarrow> op_lists m q fl ts) \<and> op_has m' a OP_F_CANCELED \<and>
     sqes m' = sqes m @ [\<lparr>user_data = None, sqe_op = Prep_cancel a, sqe_skip_success = True\<rparr>]"
    by (simp add: um_cancel_op_and_discard_cqe_def um_cancel_op_def andthen_step op_has_def um_flag_defs)
qed

text \<open>C18. Verifying an operation: when it is done without an error (a timeout counts as none) the fiber goes on
  with its result and keeps its reference; when it failed, the reference is dropped before the error is
  raised; when it is not done and its result is not wanted, it is marked so that its completion is
  discarded, and a cancellation is submitted.\<close>

theorem verify_outcomes:
  assumes d: "detached m q fl ts a" and p: "plain_op m a"
  shows "if op_has m a OP_F_CQE_DONE
    then if res (op_result (ops m a)) < 0 \<and> res (op_result (ops m a)) \<noteq> - ETIME
      then \<exists>m'. um_verify_op_completion sw a await m = Some (Inl (SysErr (- res (op_result (ops m a)))), m') \<and>
        op_lists m' q (if op_ref_count (ops m a) = 1 then a # fl else fl) ts
      else um_verify_op_completion sw a await m = Some (Inr True, m)
    else if sqe_slots m = 0
      then \<exists>e. um_verify_op_completion sw a False m = Some (Inl (UMError e), m)
      else \<exists>m'. um_verify_op_completion sw a False m = Some (Inr False, m') \<and>
        op_lists m' q fl ts \<and> op_has m' a OP_F_CANCELED \<and>
        sqes m' = sqes m @ [\<lparr>user_data = None, sqe_op = Prep_cancel a, sqe_skip_success = True\<rparr>]"
proof (cases "op_has m a OP_F_CQE_DONE")
  case True
  let ?r = "res (op_result (ops m a))"
  let ?m1 = "upd_op a (\<lambda>x. x\<lparr>op_ref_count := op_ref_count x - 1\<rparr>) m"
  have "\<exists>m'. um_op_release m a = Some m' \<and>
      op_lists m' q (if op_ref_count (ops m a) = 1 then a # fl else fl) ts"
  proof (cases "op_ref_count (ops m a) = 1")
    case True
    then show ?thesis
      using free_upd_lists [OF d, of "\<lambda>x. x\<lparr>op_ref_count := op_ref_count x - 1\<rparr>"] p
      by (intro exI [of _ "um_op_free ?m1 a"]) (simp add: release_last_plain plain_op_def)
  next
    case False
    then show ?thesis using d by (simp add: release_shared detached_def op_lists_upd_op)
  qed
  then obtain m' where m': "um_op_release m a = Some m'"
    "op_lists m' q (if op_ref_count (ops m a) = 1 then a # fl else fl) ts" by blast
  have "andthen (op_release a) k m = k () m'" for k :: "unit \<Rightarrow> bool comp"
    unfolding op_release_def by (rule modify_opt_run(1)) (simp add: m'(1))
  then show ?thesis using True m'(2)
    by (auto simp: um_verify_op_completion_def Let_def um_raise_on_error_result_def)
next
  case False
  show ?thesis
  proof (cases "sqe_slots m = 0")
    case True
    then show ?thesis using False cancel_discard_run(1) [of m a]
      by (auto simp: um_verify_op_completion_def andthen_def)
  next
    case slots: False
    obtain m' where m': "um_cancel_op_and_discard_cqe a m = Some (Inr (), m')"
      "\<forall>q fl ts. op_lists m' q fl ts \<longleftrightarrow> op_lists m q fl ts" "op_has m' a OP_F_CANCELED"
      "sqes m' = sqes m @ [\<lparr>user_data = None, sqe_op = Prep_cancel a, sqe_skip_success = True\<rparr>]"
      using cancel_discard_run(2) [OF slots] by blast
    then show ?thesis using False slots d
      by (simp add: um_verify_op_completion_def andthen_step detached_def)
  qed
qed

theorem verify_outcomes_witness:
  "\<exists>m'. um_verify_op_completion (\<lambda>_. ret Qnil) 0 True
     (um_zero\<lparr>op_fresh := 1, ops := (\<lambda>_. op_zero\<lparr>op_ref_count := 1, op_flags := OP_F_CQE_DONE,
        op_result := result_zero\<lparr>res := - EINVAL\<rparr>\<rparr>)\<rparr>) = Some (Inl (SysErr EINVAL), m') \<and>
    op_lists m' [] [0] []"
proof -
  let ?m = "um_zero\<lparr>op_fresh := 1, ops := (\<lambda>_. op_zero\<lparr>op_ref_count := 1, op_flags := OP_F_CQE_DONE,
        op_result := result_zero\<lparr>res := - EINVAL\<rparr>\<rparr>)\<rparr>"
  have "detached ?m [] [] [] 0" "plain_op ?m 0" "op_has ?m 0 OP_F_CQE_DONE"
    by (simp_all add: detached_def op_lists_def rq_rel_def um_zero_def metrics_zero_def plain_op_def
        op_has_def um_flag_defs)
  then show ?thesis using verify_outcomes [of ?m "[]" "[]" "[]" 0 "\<lambda>_. ret Qnil" True]
    by (simp add: errno_defs)
qed

section \<open>Awaiting a cancelled operation\<close>

lemma await_loop_reaches:
  assumes "\<And>i. i < k \<Longrightarrow> sw (j + i) (s i) = Some (Inr (v i), s (Suc i)) \<and>
      \<not> op_has (s i) a OP_F_CQE_DONE \<and> \<not> op_has (s i) a OP_F_MULTISHOT"
    and "op_has (s k) a OP_F_CQE_DONE"
  shows "await_loop sw a j n (s 0) = Some (Inr (), s k)"
  using assms
proof (induction k arbitrary: j s v)
  case 0
  then show ?case by (subst await_loop.simps) simp
next
  case (Suc k)
  have 0: "sw j (s 0) = Some (Inr (v 0), s 1)" "\<not> op_has (s 0) a OP_F_CQE_DONE"
    "\<not> op_has (s 0) a OP_F_MULTISHOT" using Suc.prems(1) [of 0] by simp_all
  have "await_loop sw a (Suc j) n (s (Suc 0)) = Some (Inr (), s (Suc k))"
    using Suc.IH [of "Suc j" "\<lambda>i. s (Suc i)" "\<lambda>i. v (Suc i)"] Suc.prems(1) [of "Suc _"] Suc.prems(2)
    by simp
  then show ?case using 0
    by (subst await_loop.simps) (simp add: await_iteration_def andthen_def)
qed



section \<open>Discarded and transient operations\<close>

theorem discarded_cqe_witness:
  "\<exists>m'. um_process_cqe (um_zero\<lparr>op_fresh := 1, ops := (\<lambda>_. op_zero\<lparr>op_ref_count := 1,
      op_flags := OP_F_CANCELED\<rparr>)\<rparr>) \<lparr>cqe_op = Some 0, cqe_res = - ECANCELED, cqe_flags = 0\<rparr> = Some m' \<and>
    op_lists m' [] [0] [] \<and> op_ref_count (ops m' 0) = - 1"
  by (rule discarded_cqe_double_release)
    (simp_all add: detached_def op_lists_def rq_rel_def um_zero_def metrics_zero_def plain_op_def
      op_has_def um_flag_defs)

theorem transient_cqe_witness:
  "\<exists>m'. um_process_cqe (um_op_transient_add (um_zero\<lparr>op_fresh := 1, ops := (\<lambda>_. op_zero\<lparr>op_ref_count := 1,
      op_flags := OP_F_TRANSIENT\<rparr>)\<rparr>) 0) \<lparr>cqe_op = Some 0, cqe_res = 5, cqe_flags = 0\<rparr> = Some m' \<and>
    op_lists m' [] [0] []"
proof -
  let ?m0 = "um_zero\<lparr>op_fresh := 1, ops := (\<lambda>_. op_zero\<lparr>op_ref_count := 1, op_flags := OP_F_TRANSIENT\<rparr>)\<rparr>"
  have "op_lists (um_op_transient_add ?m0 0) [] [] [0]"
    by (rule transient_add_lists)
      (simp_all add: op_lists_def rq_rel_def um_zero_def metrics_zero_def op_zero_def)
  then show ?thesis
    using transient_cqe [of "um_op_transient_add ?m0 0" "[]" "[]" "[0]" 0 "\<lparr>cqe_op = Some 0, cqe_res = 5, cqe_flags = 0\<rparr>"]
    by (simp add: um_op_transient_add_def op_has_def um_flag_defs um_zero_def)
qed

theorem switch_skips_witness:
  "\<exists>m'. um_switch [] (um_runqueue_push (um_runqueue_push (um_zero\<lparr>op_fresh := 2,
      ops := (\<lambda>a. op_zero\<lparr>op_ref_count := 1, op_fiber := Fiber a,
        op_flags := (if a = 0 then OP_F_SKIP else 0)\<rparr>)\<rparr>) 0) 1) = Some (Inr (Transfer (Fiber 1) Qnil), m') \<and>
    op_lists m' [] ([1] @ rev [0] @ []) []"
proof -
  let ?start = "um_zero\<lparr>op_fresh := 2, ops := (\<lambda>a. op_zero\<lparr>op_ref_count := 1, op_fiber := Fiber a,
        op_flags := (if a = 0 then OP_F_SKIP else 0)\<rparr>)\<rparr>"
  let ?m = "um_runqueue_push (um_runqueue_push ?start 0) 1"
  have "op_lists ?start [] [] []" by (rule op_lists_fresh)
  from push_lists [OF this, of 0] have "op_lists (um_runqueue_push ?start 0) [0] [] []" by simp
  from push_lists [OF this, of 1] have l: "op_lists ?m ([0] @ 1 # []) [] []" by simp
  have t: "\<not> test_mode ?m" by (simp add: um_runqueue_push_def um_zero_def)
  have "\<exists>m'. um_switch [] ?m = Some (Inr (Transfer (op_fiber (ops ?m 1)) (op_value (ops ?m 1))), m') \<and>
      op_ref_count (ops m' 1) = op_ref_count (ops ?m 1) - 1 \<and>
      op_lists m' [] ((if op_ref_count (ops ?m 1) = 1 then [1] else []) @ rev [0] @ []) []"
    by (rule switch_skips_marked)
      (use l t in \<open>simp_all add: push_op_fields op_has_def plain_op_def um_flag_defs\<close>)
  then show ?thesis by (auto simp add: push_op_fields op_zero_def)
qed

end
