(* ===== verification/UM_Utils.thy ===== *)
theory UM_Utils
  imports UM_Loop_Props
begin

text \<open>
  \<^verbatim>\<open>ext/um/um_utils.c\<close>: time values, the preparation of read buffers and their length
  after a read, and the iovec arrays of vectored writes. Doubles are rational numbers: their rounding
  is not modelled.
\<close>

section \<open>Time values\<close>

text \<open>\<open>modf\<close> splits a number into its integral part, rounded towards zero, and the rest.\<close>

definition modf :: "rat \<Rightarrow> int \<times> rat" where
  "modf v = (let i = (if v < 0 then \<lceil>v\<rceil> else \<lfloor>v\<rfloor>) in (i, v - of_int i))"

definition um_double_to_timespec :: "rat \<Rightarrow> int \<times> int" where
  "um_double_to_timespec v = (let (integral, fraction) = modf v in (integral, \<lfloor>fraction * 1000000000\<rfloor>))"

definition um_timestamp_to_double :: "int \<Rightarrow> int \<Rightarrow> rat" where
  "um_timestamp_to_double tv_sec tv_nsec = of_int tv_sec + of_int tv_nsec / 1000000000"

section \<open>Read buffers\<close>

text \<open>
  A \<open>size_t\<close> result is taken modulo \<open>2 ^ 64\<close>. \<open>rb_str_modify_expand\<close> adds room for as many bytes as it
  is given, and raises when it is given a negative number; the pointer returned is an offset into the
  buffer, which can be negative.
\<close>

definition to_ssize :: "int \<Rightarrow> int" where
  "to_ssize n = (n + 2 ^ 63) mod 2 ^ 64 - 2 ^ 63"

definition um_prepare_read_buffer :: "rbuf \<Rightarrow> int \<Rightarrow> int \<Rightarrow> um_error + (rbuf \<times> int)" where
  "um_prepare_read_buffer b len ofs =
     (case b of
        RString cur capa \<Rightarrow>
          (let len = (if len = - 1 then int cur else len);
               ofs = (if ofs < 0 then to_ssize (int cur + ofs + 1) else ofs);
               new_len = (len + ofs) mod 2 ^ 64 in
           if int cur < new_len
           then if to_ssize new_len < 0 then Inl (ArgError ''negative expanding string size'')
                else Inr (RString cur (max capa (cur + nat new_len)), ofs)
           else Inr (b, ofs))
      | RIOBuffer sz \<Rightarrow>
          (let len = (if len = - 1 then int sz else len);
               ofs = (if ofs < 0 then to_ssize (int sz + ofs + 1) else ofs);
               new_size = (len + ofs) mod 2 ^ 64 in
           if int sz < new_size then Inr (RIOBuffer (nat new_size), ofs) else Inr (b, ofs))
      | ROther \<Rightarrow> Inl (UMError ''UringMachine error: Invalid buffer provided''))"

text \<open>The new length is a 32-bit sum; setting it beyond the capacity aborts the process.\<close>

definition adjust_read_buffer_len :: "rbuf \<Rightarrow> int \<Rightarrow> int \<Rightarrow> rbuf option" where
  "adjust_read_buffer_len b result ofs =
     (case b of
        RString cur capa \<Rightarrow>
          (let len = (if result > 0 then result else 0);
               current_len = int cur mod 2 ^ 32;
               ofs = (if ofs < 0 then current_len + ofs + 1 else ofs);
               new_len = nat ((len + ofs mod 2 ^ 32) mod 2 ^ 32) in
           if new_len \<le> capa then Some (RString new_len capa) else None)
      | _ \<Rightarrow> Some b)"

definition um_update_read_buffer :: "rbuf \<Rightarrow> int \<Rightarrow> int \<Rightarrow> rbuf option" where
  "um_update_read_buffer b buffer_offset result =
     (if result = 0 then Some b else adjust_read_buffer_len b result buffer_offset)"

section \<open>Buffers to write\<close>

definition um_get_buffer_bytes_for_writing :: "rbuf \<Rightarrow> nat option" where
  "um_get_buffer_bytes_for_writing b =
     (case b of RString cur _ \<Rightarrow> Some cur | RIOBuffer sz \<Rightarrow> Some sz | ROther \<Rightarrow> None)"

text \<open>An iovec is a base and a length; the base of buffer \<open>i\<close> is \<open>base i\<close>.\<close>

type_synonym iovec = "nat \<times> nat"

fun alloc_iovecs_loop :: "(nat \<Rightarrow> nat) \<Rightarrow> (nat \<Rightarrow> rbuf) \<Rightarrow> nat list \<Rightarrow> (iovec list \<times> nat) option" where
  "alloc_iovecs_loop base bufs [] = Some ([], 0)"
| "alloc_iovecs_loop base bufs (i # is) = do {
     len \<leftarrow> um_get_buffer_bytes_for_writing (bufs i);
     (vs, total) \<leftarrow> alloc_iovecs_loop base bufs is;
     Some ((base i, len) # vs, wrap_add 64 len total)
   }"

definition um_alloc_iovecs_for_writing ::
  "(nat \<Rightarrow> nat) \<Rightarrow> (nat \<Rightarrow> rbuf) \<Rightarrow> nat list \<Rightarrow> um_error + (iovec list \<times> nat)" where
  "um_alloc_iovecs_for_writing base bufs is =
     (case alloc_iovecs_loop base bufs is of
        None \<Rightarrow> Inl (UMError ''UringMachine error: Invalid buffer provided'')
      | Some r \<Rightarrow> Inr r)"

text \<open>\<open>None\<close>: the array is read past its end.\<close>

fun um_advance_iovecs_for_writing :: "iovec list \<Rightarrow> nat \<Rightarrow> iovec list option" where
  "um_advance_iovecs_for_writing vs adv =
     (if adv = 0 then Some vs
      else (case vs of
              [] \<Rightarrow> None
            | (base, len) # vs' \<Rightarrow>
                if adv < len then Some ((base + adv, len - adv) # vs')
                else um_advance_iovecs_for_writing vs' (adv - len)))"

declare um_advance_iovecs_for_writing.simps [simp del]

section \<open>Properties\<close>

text \<open>A duration survives the conversion to seconds and nanoseconds up to less than a nanosecond, is never
  rounded up, and the nanoseconds of a duration that is not negative are a proper fraction of a second.\<close>

theorem timespec_roundtrip:
  "case um_double_to_timespec v of (s, n) \<Rightarrow>
     um_timestamp_to_double s n \<le> v \<and> v < um_timestamp_to_double s n + 1 / 1000000000 \<and>
     (if 0 \<le> v then 0 \<le> n \<and> n < 1000000000 else - 1000000000 \<le> n \<and> n \<le> 0)"
proof -
  obtain s f where sf: "modf v = (s, f)" by (cases "modf v") auto
  then have f: "f = v - of_int s" and b: "if 0 \<le> v then 0 \<le> f \<and> f < 1 else - 1 < f \<and> f \<le> 0"
    by (auto simp: modf_def Let_def not_less) linarith+
  define n where "n = \<lfloor>f * 1000000000\<rfloor>"
  have n: "of_int n \<le> f * 1000000000" "f * 1000000000 < of_int n + 1" unfolding n_def by linarith+
  have nb: "0 \<le> f \<Longrightarrow> 0 \<le> n" "f < 1 \<Longrightarrow> n < 1000000000" "- 1 < f \<Longrightarrow> - 1000000000 \<le> n" "f \<le> 0 \<Longrightarrow> n \<le> 0"
    unfolding n_def by linarith+
  have "um_double_to_timespec v = (s, n)" using sf by (simp add: um_double_to_timespec_def n_def)
  moreover have "of_int s + of_int n / 1000000000 \<le> v" "v < of_int s + of_int n / 1000000000 + 1 / 1000000000"
    using n f by (simp_all add: field_simps)
  ultimately show ?thesis using b nb by (auto simp: um_timestamp_to_double_def split: if_splits)
qed

text \<open>The bytes an iovec array covers, in order.\<close>

definition iovec_bytes :: "iovec list \<Rightarrow> nat list" where
  "iovec_bytes vs = concat (map (\<lambda>(b, l). [b..<b + l]) vs)"

lemma iovec_bytes_simps [simp]:
  "iovec_bytes [] = []" "iovec_bytes ((b, l) # vs) = [b..<b + l] @ iovec_bytes vs"
  by (simp_all add: iovec_bytes_def)

lemma advance_drops:
  "adv \<le> length (iovec_bytes vs) \<Longrightarrow>
   \<exists>vs'. um_advance_iovecs_for_writing vs adv = Some vs' \<and> iovec_bytes vs' = drop adv (iovec_bytes vs)"
proof (induction vs arbitrary: adv)
  case Nil
  then show ?case by (subst um_advance_iovecs_for_writing.simps) simp
next
  case (Cons v vs)
  obtain b l where v: "v = (b, l)" by (cases v)
  consider "adv = 0" | "0 < adv" "adv < l" | "0 < adv" "l \<le> adv" by linarith
  then show ?case
  proof cases
    case 1
    then show ?thesis by (subst um_advance_iovecs_for_writing.simps) simp
  next
    case 2
    then show ?thesis using v
      by (subst um_advance_iovecs_for_writing.simps) (simp add: drop_upt)
  next
    case 3
    then have "adv - l \<le> length (iovec_bytes vs)" using Cons.prems v by simp
    then obtain vs' where "um_advance_iovecs_for_writing vs (adv - l) = Some vs'"
      "iovec_bytes vs' = drop (adv - l) (iovec_bytes vs)" using Cons.IH by blast
    then show ?thesis using 3 v
      by (subst um_advance_iovecs_for_writing.simps) simp
  qed
qed

text \<open>After a partial vectored write the array covers exactly the bytes not yet written, in order; asked to
  advance past the end of the data, the code reads past the array.\<close>

theorem advance_iovecs:
  "if adv \<le> length (iovec_bytes vs)
   then \<exists>vs'. um_advance_iovecs_for_writing vs adv = Some vs' \<and> iovec_bytes vs' = drop adv (iovec_bytes vs)
   else um_advance_iovecs_for_writing vs adv = None"
proof (cases "adv \<le> length (iovec_bytes vs)")
  case True
  then show ?thesis using advance_drops by simp
next
  case False
  have "length (iovec_bytes vs) < adv \<Longrightarrow> um_advance_iovecs_for_writing vs adv = None" for vs adv
  proof (induction vs arbitrary: adv)
    case Nil
    then show ?case by (subst um_advance_iovecs_for_writing.simps) simp
  next
    case (Cons v vs)
    then show ?case
      by (cases v, subst um_advance_iovecs_for_writing.simps) auto
  qed
  with False show ?thesis by simp
qed

text \<open>Reading \<open>r\<close> bytes into a string prepared for \<open>n\<close> bytes at an offset sets its length to the offset plus
  \<open>r\<close> (a negative offset counts from the end, -1 appending), within the capacity that was made, as long as
  the sizes stay below \<open>2 ^ 32\<close> and the offset is not before the start of the string.\<close>

theorem read_buffer_length:
  assumes "0 \<le> n" "0 < r" "r \<le> n" "- int cur - 1 \<le> ofs" "cur \<le> capa" "int cur + n + \<bar>ofs\<bar> + 1 < 2 ^ 32"
  shows "\<exists>capa' ofs'. um_prepare_read_buffer (RString cur capa) n ofs = Inr (RString cur capa', ofs') \<and>
    ofs' = (if ofs < 0 then int cur + ofs + 1 else ofs) \<and> ofs' + n \<le> int capa' \<and>
    um_update_read_buffer (RString cur capa') ofs r = Some (RString (nat (ofs' + r)) capa')"
proof -
  let ?o = "if ofs < 0 then int cur + ofs + 1 else ofs"
  have o: "0 \<le> ?o" "?o + n < 2 ^ 32" "(n + ?o) mod 2 ^ 64 = n + ?o"
    using assms by auto
  have ss: "to_ssize ?o = ?o" "to_ssize (n + ?o) = n + ?o" "n \<noteq> - 1"
    using assms o by (auto simp: to_ssize_def)
  have eo: "(if ofs < 0 then to_ssize (int cur + ofs + 1) else ofs) = ?o" using ss(1) by auto
  let ?capa = "if int cur < n + ?o then max capa (cur + nat (n + ?o)) else capa"
  have p: "um_prepare_read_buffer (RString cur capa) n ofs = Inr (RString cur ?capa, ?o)"
    using o ss eo by (simp add: um_prepare_read_buffer_def Let_def)
  have c: "?o + n \<le> int ?capa" using assms o by auto
  have "int cur mod 2 ^ 32 = int cur" "?o mod 2 ^ 32 = ?o" "(r + ?o) mod 2 ^ 32 = r + ?o"
    using assms o by auto
  then have "adjust_read_buffer_len (RString cur ?capa) r ofs = Some (RString (nat (?o + r)) ?capa)"
    using assms(2,3) c o by (simp add: adjust_read_buffer_len_def Let_def add.commute)
  with p c assms(2) show ?thesis by (auto simp: um_update_read_buffer_def)
qed

theorem read_buffer_length_witness:
  "\<exists>capa' ofs'. um_prepare_read_buffer (RString 5 23) 10 (- 1) = Inr (RString 5 capa', ofs') \<and>
    ofs' = (if - 1 < (0 :: int) then int 5 + - 1 + 1 else - 1) \<and> ofs' + 10 \<le> int capa' \<and>
    um_update_read_buffer (RString 5 capa') (- 1) 3 = Some (RString (nat (ofs' + 3)) capa')"
  by (rule read_buffer_length) simp_all

text \<open>An offset before the start of the string is not rejected: with enough bytes to read, the buffer handed to
  the kernel starts before the string.\<close>

theorem read_buffer_underrun:
  assumes "ofs < - int cur - 1" "- ofs \<le> n" "n < 2 ^ 32" "cur \<le> capa" "cur < 2 ^ 32"
  shows "\<exists>b ofs'. um_prepare_read_buffer (RString cur capa) n ofs = Inr (b, ofs') \<and> ofs' < 0"
proof -
  let ?o = "int cur + ofs + 1"
  have "to_ssize ?o = ?o" "(n + ?o) mod 2 ^ 64 = n + ?o" "to_ssize (n + ?o) = n + ?o" "n \<noteq> - 1" "ofs < 0"
    "?o < 0" using assms by (auto simp: to_ssize_def)
  then show ?thesis by (simp add: um_prepare_read_buffer_def Let_def)
qed

theorem read_buffer_underrun_witness:
  "\<exists>b ofs'. um_prepare_read_buffer (RString 5 23) 100 (- 50) = Inr (b, ofs') \<and> ofs' < 0"
  by (rule read_buffer_underrun) simp_all

end
