(* ===== verification/UM_Calls.thy ===== *)
theory UM_Calls
  imports UM_Utils
begin

text \<open>
  \<^verbatim>\<open>ext/um/um.c\<close>, the blocking single-shot operations and their asynchronous variants.
  Every blocking call acquires an operation, prepares it with two references (one for the fiber, one
  for the completion), fills a submission entry, yields, verifies the completion and releases the
  operation. \<open>sw k\<close> is the fiber's \<open>k\<close>-th switch away and back: the first is the yield of the call, the
  others those of awaiting a cancelled operation.
\<close>

section \<open>Conversions of Ruby numbers\<close>

text \<open>
  \<open>NUM2INT\<close> and \<open>NUM2UINT\<close>: a float is truncated; what is no number is a \<open>TypeError\<close>, a number that does not
  fit a \<open>RangeError\<close> (exception classes 0 and 1 of \<open>RubyExn\<close>). As an unsigned number a negative \<open>int\<close> is
  accepted and wraps.
\<close>

definition int_range :: "int \<Rightarrow> int comp" where
  "int_range n = (if - (2 ^ 31) \<le> n \<and> n < 2 ^ 31 then ret n else raise (RubyExn 1))"

definition num2int :: "rvalue \<Rightarrow> int comp" where
  "num2int v = (case v of Fixnum n \<Rightarrow> int_range n | Flonum x \<Rightarrow> int_range (fst (modf x)) | _ \<Rightarrow> raise (RubyExn 0))"

definition uint_range :: "int \<Rightarrow> nat comp" where
  "uint_range n = (if - (2 ^ 31) \<le> n \<and> n < 2 ^ 32 then ret (nat (n mod 2 ^ 32)) else raise (RubyExn 1))"

definition num2uint :: "rvalue \<Rightarrow> nat comp" where
  "num2uint v =
     (case v of Fixnum n \<Rightarrow> uint_range n | Flonum x \<Rightarrow> uint_range (fst (modf x)) | _ \<Rightarrow> raise (RubyExn 0))"

text \<open>
  \<open>NUM2LONG\<close> and \<open>NUM2ULONG\<close>, for 64 bits, as functions of their own: the readers of a stream use them too.
\<close>

definition num2long :: "rvalue \<Rightarrow> um_error + int" where
  "num2long v =
     (let range = (\<lambda>n. if - (2 ^ 63) \<le> n \<and> n < 2 ^ 63 then Inr n else Inl (RubyExn 1)) in
      case v of Fixnum n \<Rightarrow> range n | Flonum x \<Rightarrow> range (fst (modf x)) | _ \<Rightarrow> Inl (RubyExn 0))"

definition num2ulong :: "rvalue \<Rightarrow> um_error + nat" where
  "num2ulong v =
     (let range = (\<lambda>n. if - (2 ^ 63) \<le> n \<and> n < 2 ^ 64 then Inr (nat (n mod 2 ^ 64)) else Inl (RubyExn 1)) in
      case v of Fixnum n \<Rightarrow> range n | Flonum x \<Rightarrow> range (fst (modf x)) | _ \<Rightarrow> Inl (RubyExn 0))"

section \<open>The shape of a call\<close>

text \<open>What fetches the machine comes first in every method.\<close>

definition um_get_machine :: "'a comp \<Rightarrow> 'a comp" where
  "um_get_machine c =
     andthen (gets ring_initialized) (\<lambda>i. if i then c else um_raise_internal_error ''Machine not initialized'')"

definition acquire_prepared :: "um_op_kind \<Rightarrow> u32 \<Rightarrow> u32 \<Rightarrow> addr comp" where
  "acquire_prepared kind ref_count flags =
     andthen (state_op um_op_acquire) (\<lambda>a.
     andthen (modify (um_prep_op a kind ref_count flags)) (\<lambda>_. ret a))"

definition submit_op :: "addr \<Rightarrow> sqe_op \<Rightarrow> unit comp" where
  "submit_op a p = andthen (um_get_sqe (Some a)) (\<lambda>_. modify (prep_sqe p))"

definition op_res :: "addr \<Rightarrow> rvalue comp" where
  "op_res a = gets (\<lambda>m. Fixnum (res (op_result (ops m a))))"

text \<open>
  \<open>if (um_verify_op_completion(...)) ret = ...; um_op_release(...); RAISE_IF_EXCEPTION(ret); return ret\<close>
\<close>

definition finish_op ::
  "(nat \<Rightarrow> rvalue comp) \<Rightarrow> addr \<Rightarrow> bool \<Rightarrow> rvalue comp \<Rightarrow> rvalue \<Rightarrow> rvalue comp" where
  "finish_op sw a await result v =
     andthen (um_verify_op_completion (\<lambda>k. sw (Suc k)) a await) (\<lambda>ok.
     andthen (if ok then result else ret v) (\<lambda>v'.
     andthen (op_release a) (\<lambda>_. check v')))"

definition blocking_call ::
  "(nat \<Rightarrow> rvalue comp) \<Rightarrow> um_op_kind \<Rightarrow> sqe_op \<Rightarrow> bool \<Rightarrow> (addr \<Rightarrow> rvalue comp) \<Rightarrow> rvalue comp" where
  "blocking_call sw kind p await result =
     andthen (acquire_prepared kind 2 0) (\<lambda>a.
     andthen (submit_op a p) (\<lambda>_.
     andthen (um_yield (sw 0)) (\<lambda>v.
     finish_op sw a await (result a) v)))"

text \<open>The raw variants return the result itself, and raise an exception they were resumed with even when
  the operation is done.\<close>

definition raw_call :: "(nat \<Rightarrow> rvalue comp) \<Rightarrow> um_op_kind \<Rightarrow> sqe_op \<Rightarrow> int comp" where
  "raw_call sw kind p =
     andthen (acquire_prepared kind 2 0) (\<lambda>a.
     andthen (submit_op a p) (\<lambda>_.
     andthen (um_yield (sw 0)) (\<lambda>v.
     andthen (um_verify_op_completion (\<lambda>k. sw (Suc k)) a True) (\<lambda>ok.
     andthen (if ok then gets (\<lambda>m. res (op_result (ops m a))) else ret 0) (\<lambda>r.
     andthen (op_release a) (\<lambda>_.
     andthen (check v) (\<lambda>_. ret r)))))))"

definition lift_sum :: "um_error + 'a \<Rightarrow> 'a comp" where
  "lift_sum r = (case r of Inl e \<Rightarrow> raise e | Inr x \<Rightarrow> ret x)"

section \<open>Timeouts, files\<close>

definition SLEEP_FOREVER_DURATION :: rat where "SLEEP_FOREVER_DURATION = 86400 * 10000"

definition um_sleep :: "(nat \<Rightarrow> rvalue comp) \<Rightarrow> rat \<Rightarrow> rvalue comp" where
  "um_sleep sw duration =
     (let duration = (if duration \<le> 0 then SLEEP_FOREVER_DURATION else duration) in
      andthen (acquire_prepared OP_SLEEP 2 0) (\<lambda>a.
      andthen (modify (upd_op a (\<lambda>x. x\<lparr>op_ts := duration\<rparr>))) (\<lambda>_.
      andthen (submit_op a (Prep_timeout duration False)) (\<lambda>_.
      andthen (um_yield (sw 0)) (\<lambda>v.
      finish_op sw a False (ret (Flonum duration)) v)))))"

text \<open>The lengths \<open>maxlen\<close> are passed to io_uring as 32-bit numbers.\<close>

definition nbytes :: "int \<Rightarrow> nat" where
  "nbytes n = nat (n mod 2 ^ 32)"

definition prepare_rbuf :: "nat \<Rightarrow> int \<Rightarrow> int \<Rightarrow> int comp" where
  "prepare_rbuf buf maxlen ofs =
     andthen (gets (\<lambda>m. rbufs m buf)) (\<lambda>b.
     andthen (lift_sum (um_prepare_read_buffer b maxlen ofs)) (\<lambda>(b', p).
     andthen (modify (\<lambda>m. m\<lparr>rbufs := (rbufs m)(buf := b')\<rparr>)) (\<lambda>_. ret p)))"

definition update_rbuf :: "nat \<Rightarrow> int \<Rightarrow> int \<Rightarrow> unit comp" where
  "update_rbuf buf ofs r =
     modify_opt (\<lambda>m. map_option (\<lambda>b. m\<lparr>rbufs := (rbufs m)(buf := b)\<rparr>)
       (um_update_read_buffer (rbufs m buf) ofs r))"

definition um_read ::
  "(nat \<Rightarrow> rvalue comp) \<Rightarrow> int \<Rightarrow> nat \<Rightarrow> int \<Rightarrow> int \<Rightarrow> int \<Rightarrow> rvalue comp" where
  "um_read sw fd buf maxlen buffer_offset file_offset =
     andthen (prepare_rbuf buf maxlen buffer_offset) (\<lambda>ptr.
     blocking_call sw OP_READ (Prep_read fd buf ptr (nbytes maxlen) file_offset) True (\<lambda>a.
       andthen (gets (\<lambda>m. res (op_result (ops m a)))) (\<lambda>r.
       andthen (update_rbuf buf buffer_offset r) (\<lambda>_. ret (Fixnum r)))))"

definition um_read_raw :: "(nat \<Rightarrow> rvalue comp) \<Rightarrow> int \<Rightarrow> nat \<Rightarrow> int \<Rightarrow> int comp" where
  "um_read_raw sw fd buf maxlen = raw_call sw OP_READ (Prep_read fd buf 0 (nbytes maxlen) (- 1))"

text \<open>The length to write: -1 stands for the whole buffer.\<close>

definition write_len :: "nat \<Rightarrow> int \<Rightarrow> int comp" where
  "write_len buf len =
     andthen (gets (\<lambda>m. um_get_buffer_bytes_for_writing (rbufs m buf))) (\<lambda>b.
     case b of
       None \<Rightarrow> um_raise_internal_error ''Invalid buffer provided''
     | Some sz \<Rightarrow> ret (if len mod 2 ^ 64 = 2 ^ 64 - 1 \<or> len mod 2 ^ 64 > int sz then int sz else len mod 2 ^ 64))"

definition um_write :: "(nat \<Rightarrow> rvalue comp) \<Rightarrow> int \<Rightarrow> nat \<Rightarrow> int \<Rightarrow> int \<Rightarrow> rvalue comp" where
  "um_write sw fd buf len file_offset =
     andthen (write_len buf len) (\<lambda>len.
     if len = 0 then ret (Fixnum 0)
     else blocking_call sw OP_WRITE (Prep_write fd buf (nbytes len) file_offset) True op_res)"

definition um_write_raw :: "(nat \<Rightarrow> rvalue comp) \<Rightarrow> int \<Rightarrow> nat \<Rightarrow> int \<Rightarrow> int comp" where
  "um_write_raw sw fd buf len = raw_call sw OP_WRITE (Prep_write fd buf (nbytes len) 0)"

definition um_write_async :: "int \<Rightarrow> nat \<Rightarrow> int \<Rightarrow> int \<Rightarrow> rvalue comp" where
  "um_write_async fd buf len file_offset =
     andthen (write_len buf len) (\<lambda>len.
     if len = 0 then ret (Fixnum 0)
     else
       andthen (acquire_prepared OP_WRITE_ASYNC 1 (OP_F_ASYNC OR OP_F_TRANSIENT)) (\<lambda>a.
       andthen (modify (upd_op a (\<lambda>x. x\<lparr>op_value := Obj buf\<rparr>))) (\<lambda>_.
       andthen (submit_op a (Prep_write fd buf (nbytes len) file_offset)) (\<lambda>_.
       ret (Obj buf)))))"

definition um_close :: "(nat \<Rightarrow> rvalue comp) \<Rightarrow> int \<Rightarrow> rvalue comp" where
  "um_close sw fd = blocking_call sw OP_CLOSE (Prep_close fd) False (\<lambda>_. ret (Fixnum fd))"

definition um_close_async :: "int \<Rightarrow> rvalue comp" where
  "um_close_async fd =
     andthen (acquire_prepared OP_CLOSE_ASYNC 1 OP_F_ASYNC) (\<lambda>a.
     andthen (submit_op a (Prep_close fd)) (\<lambda>_. ret (Fixnum fd)))"

definition um_open :: "(nat \<Rightarrow> rvalue comp) \<Rightarrow> nat \<Rightarrow> int \<Rightarrow> int \<Rightarrow> rvalue comp" where
  "um_open sw pathname flags mode = blocking_call sw OP_OPEN (Prep_open pathname flags mode) True op_res"

definition um_poll :: "(nat \<Rightarrow> rvalue comp) \<Rightarrow> int \<Rightarrow> nat \<Rightarrow> rvalue comp" where
  "um_poll sw fd events = blocking_call sw OP_POLL (Prep_poll_add fd events) False op_res"

definition um_splice :: "(nat \<Rightarrow> rvalue comp) \<Rightarrow> int \<Rightarrow> int \<Rightarrow> nat \<Rightarrow> rvalue comp" where
  "um_splice sw in_fd out_fd n = blocking_call sw OP_SPLICE (Prep_splice in_fd out_fd n) False op_res"

definition um_tee :: "(nat \<Rightarrow> rvalue comp) \<Rightarrow> int \<Rightarrow> int \<Rightarrow> nat \<Rightarrow> rvalue comp" where
  "um_tee sw in_fd out_fd n = blocking_call sw OP_TEE (Prep_tee in_fd out_fd n) False op_res"

definition um_fsync :: "(nat \<Rightarrow> rvalue comp) \<Rightarrow> int \<Rightarrow> rvalue comp" where
  "um_fsync sw fd = blocking_call sw OP_FSYNC (Prep_fsync fd) False op_res"

section \<open>Sockets\<close>

definition um_accept :: "(nat \<Rightarrow> rvalue comp) \<Rightarrow> int \<Rightarrow> rvalue comp" where
  "um_accept sw fd = blocking_call sw OP_ACCEPT (Prep_accept fd False) False op_res"

definition um_socket :: "(nat \<Rightarrow> rvalue comp) \<Rightarrow> int \<Rightarrow> int \<Rightarrow> int \<Rightarrow> nat \<Rightarrow> rvalue comp" where
  "um_socket sw domain type protocol flags =
     blocking_call sw OP_SOCKET (Prep_socket domain type protocol flags) False op_res"

definition um_connect :: "(nat \<Rightarrow> rvalue comp) \<Rightarrow> int \<Rightarrow> nat \<Rightarrow> nat \<Rightarrow> rvalue comp" where
  "um_connect sw fd address addrlen =
     blocking_call sw OP_CONNECT (Prep_connect fd address addrlen) True op_res"

text \<open>Unlike a write, a send of no bytes goes to the kernel.\<close>

definition um_send :: "(nat \<Rightarrow> rvalue comp) \<Rightarrow> int \<Rightarrow> nat \<Rightarrow> int \<Rightarrow> int \<Rightarrow> rvalue comp" where
  "um_send sw fd buf len flags =
     andthen (write_len buf len) (\<lambda>len.
     blocking_call sw OP_SEND (Prep_send fd buf (nat len) flags) True op_res)"

definition um_send_raw :: "(nat \<Rightarrow> rvalue comp) \<Rightarrow> int \<Rightarrow> nat \<Rightarrow> int \<Rightarrow> int \<Rightarrow> int comp" where
  "um_send_raw sw fd buf len flags = raw_call sw OP_SEND (Prep_send fd buf (nat (len mod 2 ^ 64)) flags)"

definition um_recv :: "(nat \<Rightarrow> rvalue comp) \<Rightarrow> int \<Rightarrow> nat \<Rightarrow> int \<Rightarrow> int \<Rightarrow> rvalue comp" where
  "um_recv sw fd buf maxlen flags =
     andthen (prepare_rbuf buf maxlen 0) (\<lambda>_.
     blocking_call sw OP_RECV (Prep_recv fd buf (nat (maxlen mod 2 ^ 64)) flags) True (\<lambda>a.
       andthen (gets (\<lambda>m. res (op_result (ops m a)))) (\<lambda>r.
       andthen (update_rbuf buf 0 r) (\<lambda>_. ret (Fixnum r)))))"

definition um_bind :: "(nat \<Rightarrow> rvalue comp) \<Rightarrow> int \<Rightarrow> nat \<Rightarrow> nat \<Rightarrow> rvalue comp" where
  "um_bind sw fd address addrlen = blocking_call sw OP_BIND (Prep_bind fd address addrlen) True op_res"

definition um_listen :: "(nat \<Rightarrow> rvalue comp) \<Rightarrow> int \<Rightarrow> int \<Rightarrow> rvalue comp" where
  "um_listen sw fd backlog = blocking_call sw OP_BIND (Prep_listen fd backlog) False op_res"

text \<open>The kernel writes the option's value into the operation itself.\<close>

definition um_getsockopt :: "(nat \<Rightarrow> rvalue comp) \<Rightarrow> int \<Rightarrow> int \<Rightarrow> int \<Rightarrow> rvalue comp" where
  "um_getsockopt sw fd level opt =
     blocking_call sw OP_GETSOCKOPT (Prep_cmd_sock False fd level opt) True
       (\<lambda>a. gets (\<lambda>m. Fixnum (op_int_value (ops m a))))"

definition um_setsockopt :: "(nat \<Rightarrow> rvalue comp) \<Rightarrow> int \<Rightarrow> int \<Rightarrow> int \<Rightarrow> int \<Rightarrow> rvalue comp" where
  "um_setsockopt sw fd level opt v =
     andthen (acquire_prepared OP_SETSOCKOPT 2 0) (\<lambda>a.
     andthen (um_get_sqe (Some a)) (\<lambda>_.
     andthen (modify (upd_op a (\<lambda>x. x\<lparr>op_int_value := v\<rparr>))) (\<lambda>_.
     andthen (modify (prep_sqe (Prep_cmd_sock True fd level opt))) (\<lambda>_.
     andthen (um_yield (sw 0)) (\<lambda>y.
     finish_op sw a True (op_res a) y)))))"

definition um_shutdown :: "(nat \<Rightarrow> rvalue comp) \<Rightarrow> int \<Rightarrow> int \<Rightarrow> rvalue comp" where
  "um_shutdown sw fd how = blocking_call sw OP_SHUTDOWN (Prep_shutdown fd how) True op_res"

definition um_shutdown_async :: "int \<Rightarrow> int \<Rightarrow> rvalue comp" where
  "um_shutdown_async fd how =
     andthen (acquire_prepared OP_SHUTDOWN_ASYNC 1 OP_F_ASYNC) (\<lambda>a.
     andthen (submit_op a (Prep_shutdown fd how)) (\<lambda>_. ret (Fixnum fd)))"

section \<open>Passing file descriptors\<close>

text \<open>
  The control message the context holds when it is handed to the kernel: the descriptor is only
  filled in when it is greater than 0. What the kernel leaves there is \<open>received\<close>.
\<close>

record cmsg =
  cmsg_len :: nat
  cmsg_level :: int
  cmsg_type :: int
  cmsg_fd :: int

definition send_recv_fd_setup_ctx :: "int \<Rightarrow> int option" where
  "send_recv_fd_setup_ctx fd = (if fd > 0 then Some fd else None)"

definition um_send_fd :: "(nat \<Rightarrow> rvalue comp) \<Rightarrow> int \<Rightarrow> int \<Rightarrow> rvalue comp" where
  "um_send_fd sw sock_fd fd =
     blocking_call sw OP_SENDMSG (Prep_sendmsg sock_fd (send_recv_fd_setup_ctx fd) 0) True
       (\<lambda>_. ret (Fixnum fd))"

definition recv_fd_get_fd :: "cmsg option \<Rightarrow> int comp" where
  "recv_fd_get_fd received =
     (case received of
        None \<Rightarrow> raise (SysErr EINVAL)
      | Some c \<Rightarrow>
          if cmsg_len c \<noteq> 20 \<or> cmsg_level c \<noteq> 1 \<or> cmsg_type c \<noteq> 1
          then raise (SysErr EINVAL) else ret (cmsg_fd c))"

definition um_recv_fd :: "(nat \<Rightarrow> rvalue comp) \<Rightarrow> cmsg option \<Rightarrow> int \<Rightarrow> rvalue comp" where
  "um_recv_fd sw received sock_fd =
     blocking_call sw OP_RECVMSG (Prep_recvmsg sock_fd (send_recv_fd_setup_ctx (- 1)) 0) True
       (\<lambda>_. andthen (recv_fd_get_fd received) (\<lambda>fd. ret (Fixnum fd)))"

section \<open>Vectored writes\<close>

text \<open>
  \<open>base\<close> gives the address of a buffer's bytes. The iovec array is allocated before the operation is
  acquired, and stored in it before \<open>um_prep_op\<close> clears it.
\<close>

definition alloc_iovecs :: "(nat \<Rightarrow> nat) \<Rightarrow> nat list \<Rightarrow> (nat \<times> iovec list \<times> nat) comp" where
  "alloc_iovecs base bufs =
     andthen (gets (\<lambda>m. um_alloc_iovecs_for_writing base (rbufs m) bufs)) (\<lambda>r.
     andthen (lift_sum r) (\<lambda>(vs, total_len).
     state_op (\<lambda>m. ((iovecs_fresh m, vs, total_len),
       m\<lparr>iovecs_live := insert (iovecs_fresh m) (iovecs_live m), iovecs_fresh := iovecs_fresh m + 1\<rparr>))))"

definition set_iovecs :: "addr \<Rightarrow> nat \<Rightarrow> um \<Rightarrow> um" where
  "set_iovecs a p = upd_op a (\<lambda>x. x\<lparr>op_iovecs := Some p\<rparr>)"

definition um_sendv :: "(nat \<Rightarrow> rvalue comp) \<Rightarrow> (nat \<Rightarrow> nat) \<Rightarrow> int \<Rightarrow> nat list \<Rightarrow> rvalue comp" where
  "um_sendv sw base fd bufs =
     andthen (alloc_iovecs base bufs) (\<lambda>(p, vs, _).
     andthen (state_op um_op_acquire) (\<lambda>a.
     andthen (modify (set_iovecs a p)) (\<lambda>_.
     andthen (modify (um_prep_op a OP_SEND 2 OP_F_FREE_IOVECS)) (\<lambda>_.
     andthen (submit_op a (Prep_sendv fd vs)) (\<lambda>_.
     andthen (um_yield (sw 0)) (\<lambda>v.
     finish_op sw a True (op_res a) v))))))"

text \<open>One round of \<open>um_writev\<close>; the file offset is a 64-bit number, all ones for none.\<close>

definition writev_attempt ::
  "rvalue comp \<Rightarrow> int \<Rightarrow> addr \<Rightarrow> nat \<Rightarrow> iovec list \<Rightarrow> int \<Rightarrow> rvalue comp" where
  "writev_attempt sw fd a p vs file_offset =
     andthen (modify (set_iovecs a p)) (\<lambda>_.
     andthen (modify (um_prep_op a OP_WRITEV 2 OP_F_FREE_IOVECS)) (\<lambda>_.
     andthen (submit_op a (Prep_writev fd vs file_offset)) (\<lambda>_.
     um_yield sw)))"

text \<open>\<open>r\<close> is the result of the last round, \<open>len\<close> what is left to write.\<close>

partial_function (option) writev_loop ::
  "(nat \<Rightarrow> rvalue comp) \<Rightarrow> int \<Rightarrow> addr \<Rightarrow> nat \<Rightarrow> iovec list \<Rightarrow> int \<Rightarrow> nat \<Rightarrow> int \<Rightarrow> nat \<Rightarrow> (rvalue \<times> int) comp" where
  "writev_loop sw fd a p vs file_offset len r k m =
     Option.bind (writev_attempt (sw k) fd a p vs file_offset m) (\<lambda>(y, m).
       case y of
         Inl e \<Rightarrow> Some (Inl e, m)
       | Inr v \<Rightarrow>
           if \<not> op_has m a OP_F_CQE_DONE
           then andthen (um_cancel_op_and_await_cqe (\<lambda>j. sw (Suc k + j)) a) (\<lambda>_. ret (v, r)) m
           else
             (let r = res (op_result (ops m a)) in
              if r < 0 then Some (Inr (v, r), m)
              else
                (let len = wrap_sub 64 len (nat r) in
                 if len = 0 then Some (Inr (v, r), m)
                 else
                   Option.bind (um_advance_iovecs_for_writing vs (nat r)) (\<lambda>vs.
                     writev_loop sw fd a p vs
                       (if file_offset \<noteq> 2 ^ 64 - 1 then (file_offset + r) mod 2 ^ 64 else file_offset)
                       len r (Suc k) m))))"

definition um_writev ::
  "(nat \<Rightarrow> rvalue comp) \<Rightarrow> (nat \<Rightarrow> nat) \<Rightarrow> int \<Rightarrow> nat list \<Rightarrow> int option \<Rightarrow> rvalue comp" where
  "um_writev sw base fd bufs file_offset =
     andthen (case file_offset of None \<Rightarrow> ret (2 ^ 64 - 1) | Some n \<Rightarrow> andthen (uint_range n) (\<lambda>n. ret (int n))) (\<lambda>offset.
     andthen (alloc_iovecs base bufs) (\<lambda>(p, vs, total_len).
     if total_len = 0 then andthen (modify_opt (free_iovecs (Some p))) (\<lambda>_. ret (Fixnum 0))
     else
       andthen (state_op um_op_acquire) (\<lambda>a.
       andthen (writev_loop sw fd a p vs offset total_len 0 0) (\<lambda>(v, r).
       andthen (op_release a) (\<lambda>_.
       andthen (check v) (\<lambda>_.
       andthen (um_raise_on_error_result r) (\<lambda>_.
       ret (Fixnum (int total_len)))))))))"

end
