(* ===== verification/UM_Select.thy ===== *)
theory UM_Select
  imports UM_Calls
begin

text \<open>
  \<^verbatim>\<open>ext/um/um.c\<close>, the operations with compound results: \<open>select\<close> over several file
  descriptors, \<open>waitid\<close>, \<open>statx\<close>, and the metrics of the machine.
\<close>

section \<open>Select\<close>

definition POLLIN :: nat where "POLLIN = 1"

definition POLLPRI :: nat where "POLLPRI = 2"

definition POLLOUT :: nat where "POLLOUT = 4"

text \<open>The operations are added to those prepared before, \<open>acc\<close>.\<close>

fun prepare_select_poll_ops :: "addr list \<Rightarrow> rvalue list \<Rightarrow> u32 \<Rightarrow> nat \<Rightarrow> addr list comp" where
  "prepare_select_poll_ops acc [] flags event = ret acc"
| "prepare_select_poll_ops acc (fd # fds) flags event =
     andthen (acquire_prepared OP_POLL 2 flags) (\<lambda>a.
     andthen (um_get_sqe (Some a)) (\<lambda>_.
     andthen (modify (upd_op a (\<lambda>x. x\<lparr>op_value := fd\<rparr>))) (\<lambda>_.
     andthen (num2int fd) (\<lambda>n.
     andthen (modify (prep_sqe (Prep_poll_add n event))) (\<lambda>_.
     prepare_select_poll_ops (acc @ [a]) fds flags event)))))"

definition select_arrays :: "rvalue list \<Rightarrow> rvalue list \<Rightarrow> rvalue list \<Rightarrow> rvalue" where
  "select_arrays r w e = Ary [Ary r, Ary w, Ary e]"

text \<open>Whether the operation is done is not looked at: the value the fiber is resumed with is the answer.\<close>

definition um_select_single ::
  "(nat \<Rightarrow> rvalue comp) \<Rightarrow> rvalue list \<Rightarrow> rvalue list \<Rightarrow> rvalue list \<Rightarrow> rvalue comp" where
  "um_select_single sw rfds wfds efds =
     andthen (if rfds \<noteq> [] then prepare_select_poll_ops [] rfds OP_F_SELECT_POLLIN POLLIN
              else if wfds \<noteq> [] then prepare_select_poll_ops [] wfds OP_F_SELECT_POLLOUT POLLOUT
              else prepare_select_poll_ops [] efds OP_F_SELECT_POLLPRI POLLPRI) (\<lambda>as.
     let a = hd as in
     andthen (um_yield (sw 0)) (\<lambda>v.
     andthen (um_verify_op_completion (\<lambda>k. sw (Suc k)) a False) (\<lambda>_.
     andthen (gets (\<lambda>m. op_flags (ops m a))) (\<lambda>flags.
     andthen (op_release a) (\<lambda>_.
     andthen (check v) (\<lambda>_.
     ret (if has_flag flags OP_F_SELECT_POLLIN then select_arrays [v] [] []
          else if has_flag flags OP_F_SELECT_POLLOUT then select_arrays [] [v] []
          else select_arrays [] [] [v])))))))"

text \<open>
  The first pass over the operations collects the ready descriptors and the first error, marks what is
  still on the run queue to be skipped, and cancels what is not done; the second releases them.
\<close>

record select_acc =
  rfds_out :: "rvalue list"
  wfds_out :: "rvalue list"
  efds_out :: "rvalue list"
  error_code :: int

definition select_add :: "um_op \<Rightarrow> select_acc \<Rightarrow> select_acc" where
  "select_add x s =
     (if res (op_result x) < 0 \<and> error_code s = 0 then s\<lparr>error_code := res (op_result x)\<rparr>
      else
        (let s = (if has_flag (op_flags x) OP_F_SELECT_POLLIN
                  then s\<lparr>rfds_out := rfds_out s @ [op_value x]\<rparr> else s);
             s = (if has_flag (op_flags x) OP_F_SELECT_POLLOUT
                  then s\<lparr>wfds_out := wfds_out s @ [op_value x]\<rparr> else s)
         in (if has_flag (op_flags x) OP_F_SELECT_POLLPRI
             then s\<lparr>efds_out := efds_out s @ [op_value x]\<rparr> else s)))"

fun select_collect :: "addr list \<Rightarrow> select_acc \<Rightarrow> select_acc comp" where
  "select_collect [] s = ret s"
| "select_collect (a # as) s =
     andthen (gets (\<lambda>m. op_has m a OP_F_CQE_DONE)) (\<lambda>done.
     if done then
       andthen (modify (\<lambda>m. if op_has m a OP_F_SCHEDULED then set_flags a OP_F_SKIP m else m)) (\<lambda>_.
       andthen (gets (\<lambda>m. select_add (ops m a) s)) (\<lambda>s.
       select_collect as s))
     else
       andthen (um_cancel_op_and_discard_cqe a) (\<lambda>_. select_collect as s))"

fun select_release :: "addr list \<Rightarrow> unit comp" where
  "select_release [] = ret ()"
| "select_release (a # as) = andthen (op_release a) (\<lambda>_. select_release as)"

definition um_select ::
  "(nat \<Rightarrow> rvalue comp) \<Rightarrow> rvalue list \<Rightarrow> rvalue list \<Rightarrow> rvalue list \<Rightarrow> rvalue comp" where
  "um_select sw rfds wfds efds =
     (let total_len = length rfds + length wfds + length efds in
      if total_len = 1 then um_select_single sw rfds wfds efds
      else if total_len = 0 then ret (select_arrays [] [] [])
      else
        andthen (prepare_select_poll_ops [] rfds OP_F_SELECT_POLLIN POLLIN) (\<lambda>as.
        andthen (prepare_select_poll_ops as wfds OP_F_SELECT_POLLOUT POLLOUT) (\<lambda>as.
        andthen (prepare_select_poll_ops as efds OP_F_SELECT_POLLPRI POLLPRI) (\<lambda>as.
        andthen (um_yield (sw 0)) (\<lambda>v.
        andthen (select_collect as \<lparr>rfds_out = [], wfds_out = [], efds_out = [], error_code = 0\<rparr>) (\<lambda>s.
        andthen (select_release as) (\<lambda>_.
        andthen (check v) (\<lambda>_.
        andthen (if error_code s \<noteq> 0 then um_raise_on_error_result (error_code s) else ret ()) (\<lambda>_.
        ret (select_arrays (rfds_out s) (wfds_out s) (efds_out s)))))))))))"

section \<open>Waiting for a child\<close>

definition siginfo_to_array :: "int \<times> int \<times> int \<Rightarrow> rvalue" where
  "siginfo_to_array info = (case info of (pid, status, code) \<Rightarrow> Ary [Fixnum pid, Fixnum status, Fixnum code])"

text \<open>The information is read from the operation after it has been released.\<close>

definition um_waitid :: "(nat \<Rightarrow> rvalue comp) \<Rightarrow> int \<Rightarrow> int \<Rightarrow> int \<Rightarrow> rvalue comp" where
  "um_waitid sw idtype i options =
     andthen (acquire_prepared OP_WAITID 2 0) (\<lambda>a.
     andthen (submit_op a (Prep_waitid idtype i options)) (\<lambda>_.
     andthen (um_yield (sw 0)) (\<lambda>v.
     andthen (finish_op sw a False (op_res a) v) (\<lambda>_.
     gets (\<lambda>m. siginfo_to_array (op_siginfo (ops m a)))))))"

section \<open>File status\<close>

text \<open>\<open>struct statx\<close>, with the fields the code reads; a time is a pair of seconds and nanoseconds.\<close>

record statx =
  stx_dev_major :: nat
  stx_dev_minor :: nat
  stx_rdev_major :: nat
  stx_rdev_minor :: nat
  stx_blksize :: nat
  stx_attributes :: nat
  stx_nlink :: nat
  stx_uid :: nat
  stx_gid :: nat
  stx_mode :: nat
  stx_ino :: nat
  stx_size :: nat
  stx_blocks :: nat
  stx_atime :: "int \<times> int"
  stx_btime :: "int \<times> int"
  stx_ctime :: "int \<times> int"
  stx_mtime :: "int \<times> int"

text \<open>\<open>UINT2NUM\<close> of a number, which is converted to 32 bits first; a device number is a 32-bit expression.\<close>

definition uint2num :: "nat \<Rightarrow> rvalue" where
  "uint2num n = Fixnum (int (n mod 2 ^ 32))"

definition dev_number :: "nat \<Rightarrow> nat \<Rightarrow> nat" where
  "dev_number major minor = unat (push_bit 8 (of_nat major :: u32) OR of_nat minor)"

definition time_value :: "int \<times> int \<Rightarrow> rvalue" where
  "time_value t = Flonum (um_timestamp_to_double (fst t) (snd t))"

definition statx_to_hash :: "statx \<Rightarrow> (string \<times> rvalue) list" where
  "statx_to_hash st =
     [(''dev'', uint2num (dev_number (stx_dev_major st) (stx_dev_minor st))),
      (''rdev'', uint2num (dev_number (stx_rdev_major st) (stx_rdev_minor st))),
      (''blksize'', uint2num (stx_blksize st)),
      (''attributes'', uint2num (stx_attributes st)),
      (''nlink'', uint2num (stx_nlink st)),
      (''uid'', uint2num (stx_uid st)),
      (''gid'', uint2num (stx_gid st)),
      (''mode'', uint2num (stx_mode st)),
      (''ino'', uint2num (stx_ino st)),
      (''size'', uint2num (stx_size st)),
      (''blocks'', uint2num (stx_blocks st)),
      (''atime'', time_value (stx_atime st)),
      (''btime'', time_value (stx_btime st)),
      (''ctime'', time_value (stx_ctime st)),
      (''mtime'', time_value (stx_mtime st))]"

text \<open>\<open>st\<close> is what the kernel leaves in the struct; a missing path is the empty string, \<open>empty_path\<close>.\<close>

definition um_statx ::
  "(nat \<Rightarrow> rvalue comp) \<Rightarrow> statx \<Rightarrow> nat \<Rightarrow> int \<Rightarrow> nat option \<Rightarrow> int \<Rightarrow> nat \<Rightarrow> (string \<times> rvalue) list comp" where
  "um_statx sw st empty_path dirfd path flags stx_mask =
     andthen (blocking_call sw OP_STATX
        (Prep_statx dirfd (case path of None \<Rightarrow> empty_path | Some p \<Rightarrow> p) flags stx_mask) True op_res) (\<lambda>_.
     ret (statx_to_hash st))"

section \<open>Metrics\<close>

text \<open>\<open>cpu\<close> is the processor time read at the call.\<close>

definition um_metrics_hash :: "rat \<Rightarrow> um \<Rightarrow> (string \<times> rvalue) list" where
  "um_metrics_hash cpu m =
     (let x = metrics m; num32 = (\<lambda>w :: u32. Fixnum (uint w)); num64 = (\<lambda>w :: u64. Fixnum (uint w)) in
      [(''size'', uint2num (um_size m)),
       (''total_ops'', num64 (total_ops x)),
       (''total_switches'', num64 (total_switches x)),
       (''total_waits'', num64 (total_waits x)),
       (''ops_pending'', num32 (ops_pending x)),
       (''ops_unsubmitted'', num32 (ops_unsubmitted x)),
       (''ops_runqueue'', num32 (ops_runqueue x)),
       (''ops_free'', num32 (ops_free x)),
       (''ops_transient'', num32 (ops_transient x)),
       (''buffers_allocated'', num32 (buffers_allocated x)),
       (''buffers_free'', num32 (buffers_free x)),
       (''segments_free'', num32 (segments_free x)),
       (''buffer_space_allocated'', num64 (buffer_space_allocated x)),
       (''buffer_space_commited'', num64 (buffer_space_commited x))] @
      (if profile_mode m
       then [(''time_total_cpu'', Flonum (cpu - time_first_cpu x)), (''time_total_wait'', Flonum (time_total_wait x))]
       else []))"

end
