(* ===== verification/UM_Sync.thy ===== *)
theory UM_Sync
  imports UM_Select
begin

text \<open>
  \<^verbatim>\<open>ext/um/um_sync.c\<close>: futex operations on the ring, mutexes, and queues over doubly linked
  lists of entries. The futex of mutex \<open>x\<close> is the number \<open>2 * x\<close>, that of queue \<open>q\<close> is
  \<open>2 * q + 1\<close>. \<open>sw i k\<close> is the \<open>k\<close>-th switch of the \<open>i\<close>-th futex operation of a call.
\<close>

section \<open>Futexes\<close>

definition um_futex_wait :: "(nat \<Rightarrow> rvalue comp) \<Rightarrow> nat \<Rightarrow> nat \<Rightarrow> unit comp" where
  "um_futex_wait sw futex v =
     andthen (acquire_prepared OP_FUTEX_WAIT 2 0) (\<lambda>a.
     andthen (submit_op a (Prep_futex_wait futex v)) (\<lambda>_.
     andthen (um_yield (sw 0)) (\<lambda>y.
     andthen (gets (\<lambda>m. op_has m a OP_F_CQE_DONE)) (\<lambda>done.
     andthen (if \<not> done then um_cancel_op_and_await_cqe (\<lambda>k. sw (Suc k)) a
              else andthen (gets (\<lambda>m. res (op_result (ops m a)))) (\<lambda>r.
                   if r \<noteq> - EAGAIN
                   then andthen (op_release a) (\<lambda>_. um_raise_on_error_result r)
                   else ret ())) (\<lambda>_.
     andthen (op_release a) (\<lambda>_.
     andthen (check y) (\<lambda>_. ret ())))))))"

definition um_futex_wake :: "(nat \<Rightarrow> rvalue comp) \<Rightarrow> nat \<Rightarrow> nat \<Rightarrow> unit comp" where
  "um_futex_wake sw futex num_waiters =
     andthen (acquire_prepared OP_FUTEX_WAKE 2 0) (\<lambda>a.
     andthen (submit_op a (Prep_futex_wake futex num_waiters)) (\<lambda>_.
     andthen (um_yield (sw 0)) (\<lambda>y.
     andthen (um_verify_op_completion (\<lambda>k. sw (Suc k)) a True) (\<lambda>_.
     andthen (op_release a) (\<lambda>_.
     andthen (check y) (\<lambda>_. ret ()))))))"

text \<open>\<open>r\<close> is what \<open>io_uring_submit\<close> returns.\<close>

definition um_futex_wake_transient :: "int \<Rightarrow> nat \<Rightarrow> nat \<Rightarrow> unit comp" where
  "um_futex_wake_transient r futex num_waiters =
     andthen (um_get_sqe None) (\<lambda>_.
     andthen (modify (prep_sqe (Prep_futex_wake futex num_waiters))) (\<lambda>_.
     andthen (um_submit r) (\<lambda>_. ret ())))"

section \<open>Mutexes\<close>

definition MUTEX_LOCKED :: u32 where "MUTEX_LOCKED = 1"

definition MUTEX_UNLOCKED :: u32 where "MUTEX_UNLOCKED = 0"

lemmas mutex_state_defs = MUTEX_LOCKED_def MUTEX_UNLOCKED_def

definition upd_heap :: "(um_heap \<Rightarrow> um_heap) \<Rightarrow> um \<Rightarrow> um" where
  "upd_heap f m = m\<lparr>heap := f (heap m)\<rparr>"

definition upd_mutex :: "nat \<Rightarrow> (um_mutex \<Rightarrow> um_mutex) \<Rightarrow> um \<Rightarrow> um" where
  "upd_mutex x f = upd_heap (\<lambda>h. h\<lparr>mutexes := (mutexes h)(x := f (mutexes h x))\<rparr>)"

abbreviation mutex_of :: "um \<Rightarrow> nat \<Rightarrow> um_mutex" where
  "mutex_of m x \<equiv> mutexes (heap m) x"

definition um_mutex_init :: "nat \<Rightarrow> um \<Rightarrow> um" where
  "um_mutex_init x = upd_mutex x (\<lambda>_. \<lparr>mutex_state = MUTEX_UNLOCKED, mutex_waiters = 0\<rparr>)"

text \<open>What a fiber does to the mutex when it starts waiting, takes it and gives it back.\<close>

definition mutex_enter :: "um_mutex \<Rightarrow> um_mutex" where
  "mutex_enter x = x\<lparr>mutex_waiters := mutex_waiters x + 1\<rparr>"

definition mutex_take :: "um_mutex \<Rightarrow> um_mutex" where
  "mutex_take x = x\<lparr>mutex_waiters := mutex_waiters x - 1, mutex_state := MUTEX_LOCKED\<rparr>"

definition mutex_give :: "um_mutex \<Rightarrow> um_mutex" where
  "mutex_give x = x\<lparr>mutex_state := MUTEX_UNLOCKED\<rparr>"

partial_function (option) mutex_wait_loop :: "(nat \<Rightarrow> nat \<Rightarrow> rvalue comp) \<Rightarrow> nat \<Rightarrow> nat \<Rightarrow> unit comp" where
  "mutex_wait_loop sw x i m =
     (if mutex_state (mutex_of m x) = MUTEX_LOCKED then
        Option.bind (um_futex_wait (sw i) (2 * x) (unat MUTEX_LOCKED) m) (\<lambda>(r, m).
          case r of Inl e \<Rightarrow> Some (Inl e, m) | Inr _ \<Rightarrow> mutex_wait_loop sw x (Suc i) m)
      else Some (Inr (), m))"

definition um_mutex_lock :: "(nat \<Rightarrow> nat \<Rightarrow> rvalue comp) \<Rightarrow> nat \<Rightarrow> unit comp" where
  "um_mutex_lock sw x =
     andthen (modify (upd_mutex x mutex_enter)) (\<lambda>_.
     andthen (mutex_wait_loop sw x 0) (\<lambda>_.
     modify (upd_mutex x mutex_take)))"

definition um_mutex_unlock :: "(nat \<Rightarrow> rvalue comp) \<Rightarrow> nat \<Rightarrow> unit comp" where
  "um_mutex_unlock sw x =
     andthen (modify (upd_mutex x mutex_give)) (\<lambda>_.
     andthen (gets (\<lambda>m. mutex_waiters (mutex_of m x))) (\<lambda>n.
     if n \<noteq> 0 then um_futex_wake sw (2 * x) 1 else ret ()))"

definition synchronize_start :: "(nat \<Rightarrow> nat \<Rightarrow> rvalue comp) \<Rightarrow> rvalue comp \<Rightarrow> nat \<Rightarrow> rvalue comp" where
  "synchronize_start sw blk x = andthen (um_mutex_lock sw x) (\<lambda>_. blk)"

definition synchronize_complete :: "(nat \<Rightarrow> rvalue comp) \<Rightarrow> nat \<Rightarrow> rvalue comp" where
  "synchronize_complete sw x = andthen (um_mutex_unlock sw x) (\<lambda>_. ret Qnil)"

definition um_mutex_synchronize ::
  "(nat \<Rightarrow> nat \<Rightarrow> rvalue comp) \<Rightarrow> (nat \<Rightarrow> rvalue comp) \<Rightarrow> rvalue comp \<Rightarrow> nat \<Rightarrow> rvalue comp" where
  "um_mutex_synchronize sw sw' blk x = rb_ensure (synchronize_start sw blk x) (synchronize_complete sw' x)"

section \<open>Queue entries\<close>

definition QUEUE_EMPTY :: u32 where "QUEUE_EMPTY = 0"

definition QUEUE_READY :: u32 where "QUEUE_READY = 1"

definition upd_queue :: "nat \<Rightarrow> (um_queue \<Rightarrow> um_queue) \<Rightarrow> um_heap \<Rightarrow> um_heap" where
  "upd_queue q f h = h\<lparr>queues := (queues h)(q := f (queues h q))\<rparr>"

definition upd_entry :: "addr \<Rightarrow> (um_queue_entry \<Rightarrow> um_queue_entry) \<Rightarrow> um_heap \<Rightarrow> um_heap" where
  "upd_entry e f h = h\<lparr>entries := (entries h)(e := f (entries h e))\<rparr>"

lemma upd_queue_simps [simp]:
  "queues (upd_queue q f h) = (queues h)(q := f (queues h q))"
  "entries (upd_queue q f h) = entries h"
  "entries_live (upd_queue q f h) = entries_live h"
  "entry_fresh (upd_queue q f h) = entry_fresh h"
  by (simp_all add: upd_queue_def)

lemma upd_entry_simps [simp]:
  "queues (upd_entry e g h) = queues h"
  "entries (upd_entry e g h) = (entries h)(e := g (entries h e))"
  "entries_live (upd_entry e g h) = entries_live h"
  "entry_fresh (upd_entry e g h) = entry_fresh h"
  by (simp_all add: upd_entry_def)

text \<open>\<open>queue->self\<close> and \<open>num_waiters\<close> are not set: a new object's struct is zeroed.\<close>

definition um_queue_init :: "nat \<Rightarrow> um_heap \<Rightarrow> um_heap" where
  "um_queue_init q = upd_queue q (\<lambda>x. x\<lparr>queue_head := None, queue_tail := None, queue_free_head := None,
                                        queue_state := QUEUE_EMPTY, queue_count := 0\<rparr>)"

text \<open>Freeing a list of entries; \<open>None\<close> is a double free, or a list without end.\<close>

partial_function (option) free_entries :: "um_heap \<Rightarrow> addr option \<Rightarrow> um_heap option" where
  "free_entries h p =
     (case p of
        None \<Rightarrow> Some h
      | Some e \<Rightarrow>
          if e \<in> entries_live h
          then free_entries (h\<lparr>entries_live := entries_live h - {e}\<rparr>) (entry_next (entries h e))
          else None)"

definition um_queue_free :: "nat \<Rightarrow> um_heap \<Rightarrow> um_heap option" where
  "um_queue_free q h =
     Option.bind (free_entries h (queue_head (queues h q)))
       (\<lambda>h. free_entries h (queue_free_head (queues h q)))"

text \<open>The values the garbage collector is told about, and their update when it has moved them.\<close>

partial_function (option) queue_mark_list :: "um_heap \<Rightarrow> addr option \<Rightarrow> rvalue list option" where
  "queue_mark_list h p =
     (case p of
        None \<Rightarrow> Some []
      | Some e \<Rightarrow>
          Option.bind (queue_mark_list h (entry_next (entries h e))) (\<lambda>vs. Some (entry_value (entries h e) # vs)))"

definition um_queue_mark :: "nat \<Rightarrow> um_heap \<Rightarrow> rvalue list option" where
  "um_queue_mark q h = map_option (Cons (queue_self (queues h q))) (queue_mark_list h (queue_head (queues h q)))"

partial_function (option) queue_compact_list ::
  "(rvalue \<Rightarrow> rvalue) \<Rightarrow> um_heap \<Rightarrow> addr option \<Rightarrow> um_heap option" where
  "queue_compact_list location h p =
     (case p of
        None \<Rightarrow> Some h
      | Some e \<Rightarrow> queue_compact_list location
                   (upd_entry e (\<lambda>x. x\<lparr>entry_value := location (entry_value x)\<rparr>) h)
                   (entry_next (entries h e)))"

definition um_queue_compact :: "(rvalue \<Rightarrow> rvalue) \<Rightarrow> nat \<Rightarrow> um_heap \<Rightarrow> um_heap option" where
  "um_queue_compact location q h =
     queue_compact_list location (upd_queue q (\<lambda>x. x\<lparr>queue_self := location (queue_self x)\<rparr>) h)
       (queue_head (queues h q))"

definition um_queue_entry_checkout :: "nat \<Rightarrow> um_heap \<Rightarrow> addr \<times> um_heap" where
  "um_queue_entry_checkout q h =
     (case queue_free_head (queues h q) of
        Some e \<Rightarrow> (e, upd_queue q (\<lambda>x. x\<lparr>queue_free_head := entry_next (entries h e)\<rparr>) h)
      | None \<Rightarrow> (entry_fresh h, h\<lparr>entries_live := insert (entry_fresh h) (entries_live h),
                                 entry_fresh := entry_fresh h + 1\<rparr>))"

definition um_queue_entry_checkin :: "nat \<Rightarrow> addr \<Rightarrow> um_heap \<Rightarrow> um_heap" where
  "um_queue_entry_checkin q e h =
     upd_queue q (\<lambda>x. x\<lparr>queue_free_head := Some e\<rparr>)
       (upd_entry e (\<lambda>x. x\<lparr>entry_next := queue_free_head (queues h q)\<rparr>) h)"

definition queue_add_head :: "nat \<Rightarrow> um_heap \<Rightarrow> rvalue \<Rightarrow> um_heap" where
  "queue_add_head q h v =
     (let (e, h) = um_queue_entry_checkout q h;
          hd' = queue_head (queues h q);
          h = upd_entry e (\<lambda>x. x\<lparr>entry_next := hd'\<rparr>) h;
          h = (case hd' of
                 Some x \<Rightarrow> upd_queue q (\<lambda>y. y\<lparr>queue_head := Some e\<rparr>)
                            (upd_entry x (\<lambda>y. y\<lparr>entry_prev := Some e\<rparr>) h)
               | None \<Rightarrow> upd_queue q (\<lambda>y. y\<lparr>queue_head := Some e, queue_tail := Some e\<rparr>) h)
      in upd_entry e (\<lambda>x. x\<lparr>entry_prev := None, entry_value := v\<rparr>) h)"

definition queue_add_tail :: "nat \<Rightarrow> um_heap \<Rightarrow> rvalue \<Rightarrow> um_heap" where
  "queue_add_tail q h v =
     (let (e, h) = um_queue_entry_checkout q h;
          tl' = queue_tail (queues h q);
          h = upd_entry e (\<lambda>x. x\<lparr>entry_prev := tl'\<rparr>) h;
          h = (case tl' of
                 Some x \<Rightarrow> upd_queue q (\<lambda>y. y\<lparr>queue_tail := Some e\<rparr>)
                            (upd_entry x (\<lambda>y. y\<lparr>entry_next := Some e\<rparr>) h)
               | None \<Rightarrow> upd_queue q (\<lambda>y. y\<lparr>queue_head := Some e, queue_tail := Some e\<rparr>) h)
      in upd_entry e (\<lambda>x. x\<lparr>entry_next := None, entry_value := v\<rparr>) h)"

text \<open>\<open>None\<close>: the list is empty and NULL is read.\<close>

definition queue_remove_head :: "nat \<Rightarrow> um_heap \<Rightarrow> (rvalue \<times> um_heap) option" where
  "queue_remove_head q h =
     (case queue_head (queues h q) of
        None \<Rightarrow> None
      | Some e \<Rightarrow>
          (let nxt = entry_next (entries h e);
               h = upd_queue q (\<lambda>x. x\<lparr>queue_head := nxt,
                     queue_tail := (if nxt = None then None else queue_tail x)\<rparr>) h
           in Some (entry_value (entries h e), um_queue_entry_checkin q e h)))"

definition queue_remove_tail :: "nat \<Rightarrow> um_heap \<Rightarrow> (rvalue \<times> um_heap) option" where
  "queue_remove_tail q h =
     (case queue_tail (queues h q) of
        None \<Rightarrow> None
      | Some e \<Rightarrow>
          (let prv = entry_prev (entries h e);
               h = upd_queue q (\<lambda>x. x\<lparr>queue_tail := prv,
                     queue_head := (if prv = None then None else queue_head x)\<rparr>) h
           in Some (entry_value (entries h e), um_queue_entry_checkin q e h)))"

section \<open>Queue operations\<close>

abbreviation queue_of :: "um \<Rightarrow> nat \<Rightarrow> um_queue" where
  "queue_of m q \<equiv> queues (heap m) q"

definition um_queue_add :: "int \<Rightarrow> nat \<Rightarrow> rvalue \<Rightarrow> bool \<Rightarrow> rvalue comp" where
  "um_queue_add r q v add_head =
     andthen (modify (upd_heap (\<lambda>h. if add_head then queue_add_head q h v else queue_add_tail q h v))) (\<lambda>_.
     andthen (modify (upd_heap (upd_queue q
       (\<lambda>x. x\<lparr>queue_count := queue_count x + 1, queue_state := QUEUE_READY\<rparr>)))) (\<lambda>_.
     andthen (gets (\<lambda>m. queue_waiters (queue_of m q))) (\<lambda>n.
     andthen (if n \<noteq> 0 then um_futex_wake_transient r (2 * q + 1) 1 else ret ()) (\<lambda>_.
     gets (\<lambda>m. queue_self (queue_of m q))))))"

definition um_queue_push :: "int \<Rightarrow> nat \<Rightarrow> rvalue \<Rightarrow> rvalue comp" where
  "um_queue_push r q v = um_queue_add r q v False"

definition um_queue_unshift :: "int \<Rightarrow> nat \<Rightarrow> rvalue \<Rightarrow> rvalue comp" where
  "um_queue_unshift r q v = um_queue_add r q v True"

datatype queue_op = QUEUE_POP | QUEUE_SHIFT

partial_function (option) queue_wait_loop :: "(nat \<Rightarrow> nat \<Rightarrow> rvalue comp) \<Rightarrow> nat \<Rightarrow> nat \<Rightarrow> unit comp" where
  "queue_wait_loop sw q i m =
     (if queue_state (queue_of m q) = QUEUE_EMPTY then
        Option.bind (um_futex_wait (sw i) (2 * q + 1) (unat QUEUE_EMPTY) m) (\<lambda>(r, m).
          case r of Inl e \<Rightarrow> Some (Inl e, m) | Inr _ \<Rightarrow> queue_wait_loop sw q (Suc i) m)
      else Some (Inr (), m))"

text \<open>\<open>None\<close> after the loop: an empty list is read.\<close>

definition queue_take :: "nat \<Rightarrow> queue_op \<Rightarrow> rvalue comp" where
  "queue_take q opn m =
     (let h = upd_queue q (\<lambda>x. x\<lparr>queue_count := queue_count x - 1\<rparr>) (heap m) in
      map_option (\<lambda>(v, h). (Inr v, m\<lparr>heap := h\<rparr>))
        (case opn of QUEUE_POP \<Rightarrow> queue_remove_tail q h | QUEUE_SHIFT \<Rightarrow> queue_remove_head q h))"

definition um_queue_remove_start ::
  "(nat \<Rightarrow> nat \<Rightarrow> rvalue comp) \<Rightarrow> nat \<Rightarrow> queue_op \<Rightarrow> rvalue comp" where
  "um_queue_remove_start sw q opn =
     andthen (modify (upd_heap (upd_queue q (\<lambda>x. x\<lparr>queue_waiters := queue_waiters x + 1\<rparr>)))) (\<lambda>_.
     andthen (queue_wait_loop sw q 0) (\<lambda>_.
     queue_take q opn))"

definition um_queue_remove_complete :: "int \<Rightarrow> nat \<Rightarrow> rvalue comp" where
  "um_queue_remove_complete r q =
     andthen (modify (upd_heap (upd_queue q (\<lambda>x. x\<lparr>queue_waiters := queue_waiters x - 1\<rparr>)))) (\<lambda>_.
     andthen (gets (\<lambda>m. queue_of m q)) (\<lambda>x.
     andthen (if queue_waiters x \<noteq> 0 \<and> queue_tail x \<noteq> None
              then um_futex_wake_transient r (2 * q + 1) 1
              else if queue_tail x = None
              then modify (upd_heap (upd_queue q (\<lambda>x. x\<lparr>queue_state := QUEUE_EMPTY\<rparr>)))
              else ret ()) (\<lambda>_.
     ret Qnil)))"

definition um_queue_pop :: "(nat \<Rightarrow> nat \<Rightarrow> rvalue comp) \<Rightarrow> int \<Rightarrow> nat \<Rightarrow> rvalue comp" where
  "um_queue_pop sw r q = rb_ensure (um_queue_remove_start sw q QUEUE_POP) (um_queue_remove_complete r q)"

definition um_queue_shift :: "(nat \<Rightarrow> nat \<Rightarrow> rvalue comp) \<Rightarrow> int \<Rightarrow> nat \<Rightarrow> rvalue comp" where
  "um_queue_shift sw r q = rb_ensure (um_queue_remove_start sw q QUEUE_SHIFT) (um_queue_remove_complete r q)"

end
