(* ===== verification/UM_Multishot.thy ===== *)
theory UM_Multishot
  imports UM_Sync
begin

text \<open>
  \<^verbatim>\<open>ext/um/um.c\<close>, the multishot operations: one operation whose completions are delivered one
  after the other to a block, run under \<open>rb_ensure\<close> with \<open>multishot_complete\<close>; and
  \<^verbatim>\<open>ext/um/um_async_op.c\<close>, \<^verbatim>\<open>um_async_op_class.c\<close>: operations awaited through a handle.
  A block is a computation of what it is given: it may raise, and what other code does meanwhile is
  part of it.
\<close>

section \<open>The loop over the results of an operation\<close>

text \<open>
  What handling a result says about the results after it: go on, stop for now, or return from the
  whole loop.
\<close>

datatype each_flow = Go_on | Stop_results | Leave rvalue

definition result_at :: "um \<Rightarrow> addr \<Rightarrow> result_ref \<Rightarrow> um_op_result" where
  "result_at m a ref = (case ref of Inline \<Rightarrow> op_result (ops m a) | Heap r \<Rightarrow> results m r)"

partial_function (option) each_result ::
  "(result_ref \<Rightarrow> each_flow comp) \<Rightarrow> addr \<Rightarrow> result_ref option \<Rightarrow> each_flow comp" where
  "each_result f a p m =
     (case p of
        None \<Rightarrow> Some (Inr Go_on, m)
      | Some r \<Rightarrow>
          Option.bind (f r m) (\<lambda>(y, m).
            case y of
              Inl e \<Rightarrow> Some (Inl e, m)
            | Inr Go_on \<Rightarrow> each_result f a (map_option Heap (res_next (result_at m a r))) m
            | Inr fl \<Rightarrow> Some (Inr fl, m)))"

text \<open>\<open>yield k\<close> is the \<open>k\<close>-th switch away and back.\<close>

partial_function (option) multishot_loop ::
  "(nat \<Rightarrow> rvalue comp) \<Rightarrow> (result_ref \<Rightarrow> each_flow comp) \<Rightarrow> addr \<Rightarrow> nat \<Rightarrow> rvalue comp" where
  "multishot_loop yield f a k m =
     Option.bind (andthen (yield k) check m) (\<lambda>(y, m).
       case y of
         Inl e \<Rightarrow> Some (Inl e, m)
       | Inr v \<Rightarrow>
           if \<not> op_has m a OP_F_CQE_SEEN then Some (Inr v, m)
           else
             Option.bind (each_result f a (Some Inline) m) (\<lambda>(y, m).
               case y of
                 Inl e \<Rightarrow> Some (Inl e, m)
               | Inr (Leave v) \<Rightarrow> Some (Inr v, m)
               | Inr _ \<Rightarrow>
                   if op_has m a OP_F_CQE_DONE then Some (Inr Qnil, m)
                   else
                     Option.bind (um_op_multishot_results_clear m a) (\<lambda>m.
                       multishot_loop yield f a (Suc k) (clear_flags a OP_F_CQE_SEEN m))))"

definition multishot_complete :: "(nat \<Rightarrow> rvalue comp) \<Rightarrow> addr \<Rightarrow> rvalue comp" where
  "multishot_complete sw a =
     andthen (um_verify_op_completion sw a True) (\<lambda>_. andthen (op_release a) (\<lambda>_. ret Qnil))"

section \<open>Accepting connections\<close>

text \<open>\<open>- EINVAL\<close>: the socket was shut down; the result is set to 0 and the loop goes on waiting.\<close>

definition accept_result :: "(rvalue \<Rightarrow> unit comp) \<Rightarrow> addr \<Rightarrow> result_ref \<Rightarrow> each_flow comp" where
  "accept_result deliver a ref =
     andthen (gets (\<lambda>m. res (result_at m a ref))) (\<lambda>r.
     if r < 0 then
       if r = - EINVAL
       then andthen (modify (upd_result a ref (\<lambda>x. x\<lparr>res := 0\<rparr>))) (\<lambda>_. ret Stop_results)
       else raise (SysErr (- r))
     else andthen (deliver (Fixnum r)) (\<lambda>_. ret Go_on))"

definition accept_each_start ::
  "(nat \<Rightarrow> rvalue comp) \<Rightarrow> (rvalue \<Rightarrow> unit comp) \<Rightarrow> int \<Rightarrow> addr \<Rightarrow> rvalue comp" where
  "accept_each_start sw blk fd a =
     andthen (submit_op a (Prep_accept fd True)) (\<lambda>_.
     multishot_loop (\<lambda>k. um_yield (sw k)) (accept_result blk a) a 0)"

text \<open>\<open>r v\<close> is what \<open>io_uring_submit\<close> returns when the push of \<open>v\<close> wakes up a waiter.\<close>

definition accept_into_queue_start ::
  "(nat \<Rightarrow> rvalue comp) \<Rightarrow> (rvalue \<Rightarrow> int) \<Rightarrow> nat \<Rightarrow> int \<Rightarrow> addr \<Rightarrow> rvalue comp" where
  "accept_into_queue_start sw r q fd a =
     andthen (submit_op a (Prep_accept fd True)) (\<lambda>_.
     multishot_loop (\<lambda>k. um_yield (sw k))
       (accept_result (\<lambda>v. andthen (um_queue_push (r v) q v) (\<lambda>_. ret ())) a) a 0)"

definition um_accept_each ::
  "(nat \<Rightarrow> rvalue comp) \<Rightarrow> (nat \<Rightarrow> rvalue comp) \<Rightarrow> (rvalue \<Rightarrow> unit comp) \<Rightarrow> int \<Rightarrow> rvalue comp" where
  "um_accept_each sw sw' blk fd =
     andthen (acquire_prepared OP_ACCEPT_MULTISHOT 2 OP_F_MULTISHOT) (\<lambda>a.
     rb_ensure (accept_each_start sw blk fd a) (multishot_complete sw' a))"

definition um_accept_into_queue ::
  "(nat \<Rightarrow> rvalue comp) \<Rightarrow> (nat \<Rightarrow> rvalue comp) \<Rightarrow> (rvalue \<Rightarrow> int) \<Rightarrow> int \<Rightarrow> nat \<Rightarrow> rvalue comp" where
  "um_accept_into_queue sw sw' r fd q =
     andthen (acquire_prepared OP_ACCEPT_MULTISHOT 2 OP_F_MULTISHOT) (\<lambda>a.
     rb_ensure (accept_into_queue_start sw r q fd a) (multishot_complete sw' a))"

section \<open>Reading and receiving\<close>

text \<open>
  The string passed to the block is a copy of the segment's bytes, which are not modelled: the block is
  given the segment, already checked in. The running total, which is never read, is left out.
\<close>

definition read_recv_each_multishot_process_result ::
  "(um_segment \<Rightarrow> unit comp) \<Rightarrow> addr \<Rightarrow> result_ref \<Rightarrow> bool comp" where
  "read_recv_each_multishot_process_result blk a ref =
     andthen (gets (\<lambda>m. result_at m a ref)) (\<lambda>x.
     if res x = 0 then ret False
     else
       (case res_segment x of
          None \<Rightarrow> ret True
        | Some s \<Rightarrow>
            andthen (gets (\<lambda>m. segments m s)) (\<lambda>buf.
            andthen (modify_opt (\<lambda>m. um_segment_checkin m s)) (\<lambda>_.
            andthen (modify (upd_result a ref (\<lambda>x. x\<lparr>res_segment := None\<rparr>))) (\<lambda>_.
            andthen (blk buf) (\<lambda>_. ret True))))))"

definition read_recv_each_prep :: "int \<Rightarrow> addr \<Rightarrow> unit comp" where
  "read_recv_each_prep fd a =
     andthen (modify_opt bp_ensure_commit_level) (\<lambda>_.
     andthen (modify (\<lambda>m. upd_op a (\<lambda>x. x\<lparr>op_bp_commit_level := bp_commit_level m\<rparr>) m)) (\<lambda>_.
     andthen (gets (\<lambda>m. op_kind (ops m a))) (\<lambda>kind.
     case kind of
       OP_READ_MULTISHOT \<Rightarrow> modify (prep_sqe (Prep_read_multishot fd 0))
     | OP_RECV_MULTISHOT \<Rightarrow> modify (prep_sqe (Prep_recv_multishot fd 0))
     | _ \<Rightarrow> um_raise_internal_error ''Invalid multishot op'')))"

definition read_recv_each_result :: "(um_segment \<Rightarrow> unit comp) \<Rightarrow> addr \<Rightarrow> result_ref \<Rightarrow> each_flow comp" where
  "read_recv_each_result blk a ref =
     andthen (gets (\<lambda>m. res (result_at m a ref))) (\<lambda>r.
     andthen (um_raise_on_error_result r) (\<lambda>_.
     andthen (read_recv_each_multishot_process_result blk a ref) (\<lambda>more.
     ret (if more then Go_on else Leave Qnil))))"

definition read_recv_each_start ::
  "(nat \<Rightarrow> rvalue comp) \<Rightarrow> (um_segment \<Rightarrow> unit comp) \<Rightarrow> int \<Rightarrow> addr \<Rightarrow> rvalue comp" where
  "read_recv_each_start sw blk fd a =
     andthen (um_get_sqe (Some a)) (\<lambda>_.
     andthen (read_recv_each_prep fd a) (\<lambda>_.
     multishot_loop (\<lambda>k. um_yield (sw k)) (read_recv_each_result blk a) a 0))"

definition um_read_each ::
  "(nat \<Rightarrow> rvalue comp) \<Rightarrow> (nat \<Rightarrow> rvalue comp) \<Rightarrow> (um_segment \<Rightarrow> unit comp) \<Rightarrow> int \<Rightarrow> rvalue comp" where
  "um_read_each sw sw' blk fd =
     andthen (acquire_prepared OP_READ_MULTISHOT 2 (OP_F_MULTISHOT OR OP_F_BUFFER_POOL)) (\<lambda>a.
     rb_ensure (read_recv_each_start sw blk fd a) (multishot_complete sw' a))"

text \<open>The flags given are stored in the context and not used.\<close>

definition um_recv_each ::
  "(nat \<Rightarrow> rvalue comp) \<Rightarrow> (nat \<Rightarrow> rvalue comp) \<Rightarrow> (um_segment \<Rightarrow> unit comp) \<Rightarrow> int \<Rightarrow> int \<Rightarrow> rvalue comp" where
  "um_recv_each sw sw' blk fd flags =
     andthen (acquire_prepared OP_RECV_MULTISHOT 2 (OP_F_MULTISHOT OR OP_F_BUFFER_POOL)) (\<lambda>a.
     rb_ensure (read_recv_each_start sw blk fd a) (multishot_complete sw' a))"

section \<open>Periodic timeouts\<close>

definition periodically_result :: "unit comp \<Rightarrow> addr \<Rightarrow> result_ref \<Rightarrow> each_flow comp" where
  "periodically_result blk a ref =
     andthen (gets (\<lambda>m. res (result_at m a ref))) (\<lambda>r.
     andthen (if r < 0 \<and> r \<noteq> - ETIME then um_raise_on_error_result r else ret ()) (\<lambda>_.
     andthen blk (\<lambda>_. ret Go_on)))"

text \<open>The fiber switches away without entering the set of pending fibers.\<close>

definition periodically_start :: "(nat \<Rightarrow> rvalue comp) \<Rightarrow> unit comp \<Rightarrow> addr \<Rightarrow> rvalue comp" where
  "periodically_start sw blk a =
     andthen (gets (\<lambda>m. op_ts (ops m a))) (\<lambda>ts.
     andthen (submit_op a (Prep_timeout ts True)) (\<lambda>_.
     multishot_loop sw (periodically_result blk a) a 0))"

definition um_periodically ::
  "(nat \<Rightarrow> rvalue comp) \<Rightarrow> (nat \<Rightarrow> rvalue comp) \<Rightarrow> unit comp \<Rightarrow> rat \<Rightarrow> rvalue comp" where
  "um_periodically sw sw' blk interval =
     andthen (acquire_prepared OP_TIMEOUT_MULTISHOT 2 OP_F_MULTISHOT) (\<lambda>a.
     andthen (modify (upd_op a (\<lambda>x. x\<lparr>op_ts := interval\<rparr>))) (\<lambda>_.
     rb_ensure (periodically_start sw blk a) (multishot_complete sw' a)))"

section \<open>Asynchronous operations\<close>

text \<open>Handle \<open>i\<close> is the object \<open>Obj i\<close>.\<close>

abbreviation async_of :: "um \<Rightarrow> nat \<Rightarrow> um_async_op" where
  "async_of m i \<equiv> async_ops (heap m) i"

definition AsyncOp_initialize :: "nat \<Rightarrow> um \<Rightarrow> um" where
  "AsyncOp_initialize i = upd_heap (\<lambda>h. h\<lparr>async_ops := (async_ops h)(i := \<lparr>async_op_op = None\<rparr>)\<rparr>)"

definition um_async_op_set :: "nat \<Rightarrow> addr \<Rightarrow> um \<Rightarrow> um" where
  "um_async_op_set i a = upd_heap (\<lambda>h. h\<lparr>async_ops := (async_ops h)(i := \<lparr>async_op_op = Some a\<rparr>)\<rparr>)"

text \<open>\<open>rb_funcall(cAsyncOp, ID_new, 0)\<close>: a new object, initialized.\<close>

definition AsyncOp_new :: "nat comp" where
  "AsyncOp_new =
     andthen (gets (\<lambda>m. async_fresh (heap m))) (\<lambda>i.
     andthen (modify (upd_heap (\<lambda>h. h\<lparr>async_fresh := i + 1\<rparr>))) (\<lambda>_.
     andthen (modify (AsyncOp_initialize i)) (\<lambda>_. ret i)))"

definition um_prep_timeout :: "rat \<Rightarrow> rvalue comp" where
  "um_prep_timeout interval =
     andthen (acquire_prepared OP_TIMEOUT 2 (OP_F_ASYNC OR OP_F_TRANSIENT)) (\<lambda>a.
     andthen (modify (upd_op a (\<lambda>x. x\<lparr>op_ts := interval\<rparr>))) (\<lambda>_.
     andthen AsyncOp_new (\<lambda>i.
     andthen (modify (um_async_op_set i a)) (\<lambda>_.
     andthen (modify (upd_op a (\<lambda>x. x\<lparr>op_async_op := Obj i\<rparr>))) (\<lambda>_.
     andthen (submit_op a (Prep_timeout interval False)) (\<lambda>_. ret (Obj i)))))))"

text \<open>A handle without an operation is dereferenced as NULL (\<open>None\<close>).\<close>

definition um_async_op_await :: "(nat \<Rightarrow> rvalue comp) \<Rightarrow> nat \<Rightarrow> rvalue comp" where
  "um_async_op_await sw i m =
     Option.bind (async_op_op (async_of m i)) (\<lambda>a.
       if op_has m a OP_F_CQE_DONE then Some (Inr (op_value (ops m a)), m)
       else
         andthen (modify (\<lambda>m. upd_op a (\<lambda>x. x\<lparr>op_fiber := Fiber (current_fiber m)\<rparr>) m)) (\<lambda>_.
         andthen (modify (\<lambda>m. um_op_transient_remove m a)) (\<lambda>_.
         andthen (modify (clear_flags a (OP_F_ASYNC OR OP_F_TRANSIENT))) (\<lambda>_.
         andthen (sw 0) (\<lambda>v.
         andthen (um_verify_op_completion (\<lambda>k. sw (Suc k)) a True) (\<lambda>_.
         andthen (check v) (\<lambda>_. op_res a)))))) m)"

definition um_async_op_cancel :: "nat \<Rightarrow> unit comp" where
  "um_async_op_cancel i m = Option.bind (async_op_op (async_of m i)) (\<lambda>a. um_cancel_op a m)"

text \<open>\<open>self\<close> is the object of the machine. A handle that has not been set has a null pointer to it, which is
  dereferenced.\<close>

definition AsyncOp_mark :: "rvalue \<Rightarrow> um \<Rightarrow> nat \<Rightarrow> rvalue list option" where
  "AsyncOp_mark self m i = (case async_op_op (async_of m i) of None \<Rightarrow> None | Some _ \<Rightarrow> Some [self])"

definition AsyncOp_free :: "nat \<Rightarrow> um \<Rightarrow> um option" where
  "AsyncOp_free i m =
     (case async_op_op (async_of m i) of None \<Rightarrow> Some m | Some a \<Rightarrow> um_op_release m a)"

definition raise_on_missing_op :: "nat \<Rightarrow> addr comp" where
  "raise_on_missing_op i =
     andthen (gets (\<lambda>m. async_op_op (async_of m i))) (\<lambda>p.
     case p of None \<Rightarrow> um_raise_internal_error ''Missing op'' | Some a \<Rightarrow> ret a)"

definition async_op_is_done :: "um \<Rightarrow> addr \<Rightarrow> bool" where
  "async_op_is_done m a = op_has m a OP_F_CQE_DONE"

text \<open>The symbol \<open>:timeout\<close> is written as a string.\<close>

definition AsyncOp_kind :: "nat \<Rightarrow> string comp" where
  "AsyncOp_kind i =
     andthen (raise_on_missing_op i) (\<lambda>a.
     andthen (gets (\<lambda>m. op_kind (ops m a))) (\<lambda>k.
     if k = OP_TIMEOUT then ret ''timeout'' else um_raise_internal_error ''Invalid op kind''))"

definition AsyncOp_done_p :: "nat \<Rightarrow> rvalue comp" where
  "AsyncOp_done_p i =
     andthen (raise_on_missing_op i) (\<lambda>a. gets (\<lambda>m. if async_op_is_done m a then Qtrue else Qfalse))"

definition AsyncOp_result :: "nat \<Rightarrow> rvalue comp" where
  "AsyncOp_result i =
     andthen (raise_on_missing_op i) (\<lambda>a.
     gets (\<lambda>m. if async_op_is_done m a then Fixnum (res (op_result (ops m a))) else Qnil))"

definition AsyncOp_cancelled_p :: "nat \<Rightarrow> rvalue comp" where
  "AsyncOp_cancelled_p i =
     andthen (raise_on_missing_op i) (\<lambda>a.
     gets (\<lambda>m. if \<not> async_op_is_done m a then Qnil
                else if res (op_result (ops m a)) = - ECANCELED then Qtrue else Qfalse))"

definition AsyncOp_await :: "(nat \<Rightarrow> rvalue comp) \<Rightarrow> nat \<Rightarrow> rvalue comp" where
  "AsyncOp_await sw i =
     andthen (raise_on_missing_op i) (\<lambda>a.
     andthen (gets (\<lambda>m. async_op_is_done m a)) (\<lambda>done.
     if done then op_res a else um_async_op_await sw i))"

definition AsyncOp_cancel :: "nat \<Rightarrow> rvalue comp" where
  "AsyncOp_cancel i =
     andthen (raise_on_missing_op i) (\<lambda>a.
     andthen (gets (\<lambda>m. async_op_is_done m a)) (\<lambda>done.
     andthen (if done then ret () else um_async_op_cancel i) (\<lambda>_. ret (Obj i))))"

end
