(* ===== verification/UM_Io.thy ===== *)
theory UM_Io
  imports UM_Multishot
begin

text \<open>
  \<^verbatim>\<open>ext/um/um_ssl.c\<close> and the lower half of \<^verbatim>\<open>ext/um/um_io.c\<close>: how a buffered
  stream obtains its segments (from a multishot operation on the buffer pool, from an SSL connection,
  from a file), and how it is cleared. A stream is \<open>ios (heap m) i\<close>. OpenSSL's \<open>SSL_read\<close> and
  \<open>SSL_write\<close> are computations given as arguments. The memory of a pool buffer is named by the
  buffer's address.
\<close>

section \<open>SSL\<close>

text \<open>The custom BIO reads and writes the socket through the machine.\<close>

definition to_int32 :: "int \<Rightarrow> int" where
  "to_int32 n = (n + 2 ^ 31) mod 2 ^ 32 - 2 ^ 31"

definition um_bio_read :: "(nat \<Rightarrow> rvalue comp) \<Rightarrow> int \<Rightarrow> nat \<Rightarrow> int \<Rightarrow> int comp" where
  "um_bio_read sw fd buf blen = um_read_raw sw fd buf blen"

definition um_bio_write :: "(nat \<Rightarrow> rvalue comp) \<Rightarrow> int \<Rightarrow> nat \<Rightarrow> int \<Rightarrow> int comp" where
  "um_bio_write sw fd buf blen = um_write_raw sw fd buf blen"

text \<open>Commands of \<open>openssl/bio.h\<close>; the state is the BIO's shutdown flag.\<close>

definition um_bio_ctrl :: "int \<Rightarrow> int \<Rightarrow> int \<Rightarrow> int \<times> int" where
  "um_bio_ctrl cmd num shutdown =
     (if cmd = 8 then (shutdown, shutdown)
      else if cmd = 9 then (1, to_int32 num)
      else if cmd = 11 then (1, shutdown)
      else (0, shutdown))"

text \<open>
  Installing the BIO in a connection. The calls to OpenSSL are logged; what they return is given by
  \<open>meth_new\<close> and \<open>new\<close>, the numbers of the new method and BIO, if any, and by \<open>set_ex\<close>, whether the
  data of an index can be set. \<open>fileno\<close> is the method of that name of the connection. A value that is no
  object cannot carry the instance variable (a \<open>FrozenError\<close>, exception class 3).
\<close>

record openssl =
  meth_new :: bool
  fileno :: "nat \<Rightarrow> rvalue comp"
  bio_new :: "nat option"
  set_ex :: "nat \<Rightarrow> bool"

definition IDX_BIO_DATA_MACHINE :: nat where "IDX_BIO_DATA_MACHINE = 1"
definition IDX_BIO_DATA_FD :: nat where "IDX_BIO_DATA_FD = 2"

definition ssl_call :: "ssl_call \<Rightarrow> unit comp" where
  "ssl_call c = modify (upd_heap (\<lambda>h. h\<lparr>ssl_calls := ssl_calls h @ [c]\<rparr>))"

definition um_ssl_create_bio_method :: "openssl \<Rightarrow> unit comp" where
  "um_ssl_create_bio_method os =
     andthen (ssl_call BIO_meth_new) (\<lambda>_.
     if meth_new os then ret () else raise (UMError ''Failed to set SSL BIO''))"

definition bio_set_ex_data :: "openssl \<Rightarrow> nat \<Rightarrow> nat \<Rightarrow> ex_data \<Rightarrow> unit comp" where
  "bio_set_ex_data os bio idx d =
     andthen (ssl_call (BIO_set_ex_data bio idx d)) (\<lambda>_.
     if set_ex os idx then ret () else raise (UMError ''Failed to set BIO metadata''))"

definition um_ssl_set_bio :: "openssl \<Rightarrow> rvalue \<Rightarrow> unit comp" where
  "um_ssl_set_bio os ssl_obj =
     andthen (gets (\<lambda>m. bio_method_set (heap m))) (\<lambda>have.
     andthen (if have then ret ()
              else andthen (um_ssl_create_bio_method os) (\<lambda>_.
                   modify (upd_heap (\<lambda>h. h\<lparr>bio_method_set := True\<rparr>)))) (\<lambda>_.
     andthen (case ssl_obj of Obj ssl \<Rightarrow> ret ssl | _ \<Rightarrow> raise (RubyExn 3)) (\<lambda>ssl.
     andthen (gets (\<lambda>m. ssl_bio_ivar (heap m) ssl)) (\<lambda>value.
     if value then ret ()
     else
       andthen (modify (upd_heap (\<lambda>h. h\<lparr>ssl_bio_ivar := (ssl_bio_ivar h)(ssl := True)\<rparr>))) (\<lambda>_.
       andthen (fileno os ssl) (\<lambda>v.
       andthen (of_sum (num2long v)) (\<lambda>fd.
       case bio_new os of
         None \<Rightarrow> raise (UMError ''Failed to create custom BIO'')
       | Some bio \<Rightarrow>
           andthen (ssl_call (BIO_new bio)) (\<lambda>_.
           andthen (bio_set_ex_data os bio IDX_BIO_DATA_MACHINE Machine_ptr) (\<lambda>_.
           andthen (bio_set_ex_data os bio IDX_BIO_DATA_FD (Word_data fd)) (\<lambda>_.
           andthen (ssl_call (BIO_up_ref bio)) (\<lambda>_.
           andthen (ssl_call (SSL_set0_rbio ssl bio)) (\<lambda>_.
           ssl_call (SSL_set0_wbio ssl bio)))))))))))))"

text \<open>\<open>ssl_read n\<close>: \<open>SSL_read\<close> of at most \<open>n\<close> bytes.\<close>

definition um_ssl_read_raw :: "(int \<Rightarrow> int comp) \<Rightarrow> nat \<Rightarrow> int comp" where
  "um_ssl_read_raw ssl_read maxlen =
     andthen (ssl_read (to_int32 (int maxlen))) (\<lambda>r.
     if r < 0 then raise (UMError ''Failed to read'') else ret r)"

definition um_ssl_read :: "(int \<Rightarrow> int comp) \<Rightarrow> nat \<Rightarrow> nat \<Rightarrow> int comp" where
  "um_ssl_read ssl_read buf maxlen =
     andthen (prepare_rbuf buf (to_ssize (int maxlen)) 0) (\<lambda>_.
     andthen (um_ssl_read_raw ssl_read maxlen) (\<lambda>r.
     andthen (update_rbuf buf 0 r) (\<lambda>_. ret r)))"

text \<open>
  \<open>ssl_write ofs n\<close>: \<open>SSL_write\<close> of \<open>n\<close> bytes at an offset of the buffer. A write of nothing
  returns \<open>INT2NUM(0)\<close>, a tagged Ruby integer, as a C integer: 1.
\<close>

definition INT2NUM_0 :: int where "INT2NUM_0 = 1"

definition INT_MAX :: nat where "INT_MAX = 2 ^ 31 - 1"

definition buffer_size_for_writing :: "nat \<Rightarrow> nat comp" where
  "buffer_size_for_writing buf =
     andthen (gets (\<lambda>m. um_get_buffer_bytes_for_writing (rbufs m buf))) (\<lambda>b.
     case b of None \<Rightarrow> um_raise_internal_error ''Invalid buffer provided'' | Some sz \<Rightarrow> ret sz)"

definition um_ssl_write :: "(nat \<Rightarrow> int \<Rightarrow> int comp) \<Rightarrow> nat \<Rightarrow> nat \<Rightarrow> int comp" where
  "um_ssl_write ssl_write buf len =
     andthen (buffer_size_for_writing buf) (\<lambda>sz.
     let len = (if len = 0 \<or> len > sz then sz else len);
         len = (if len > INT_MAX then INT_MAX else len) in
     if len = 0 then ret INT2NUM_0
     else
       andthen (ssl_write 0 (int len)) (\<lambda>r.
       if r \<le> 0 then raise (UMError ''Failed to write'') else ret r))"

definition um_ssl_write_raw :: "(nat \<Rightarrow> int \<Rightarrow> int comp) \<Rightarrow> nat \<Rightarrow> int comp" where
  "um_ssl_write_raw ssl_write len =
     (if len = 0 then ret INT2NUM_0
      else
        andthen (ssl_write 0 (to_int32 (int len))) (\<lambda>r.
        if r \<le> 0 then raise (UMError ''Failed to write'') else ret r))"

partial_function (option) ssl_write_loop :: "(nat \<Rightarrow> int \<Rightarrow> int comp) \<Rightarrow> nat \<Rightarrow> nat \<Rightarrow> unit comp" where
  "ssl_write_loop ssl_write base left m =
     (if left = 0 then Some (Inr (), m)
      else
        Option.bind (ssl_write base (to_int32 (int left)) m) (\<lambda>(y, m).
          case y of
            Inl e \<Rightarrow> Some (Inl e, m)
          | Inr r \<Rightarrow>
              if r \<le> 0 then Some (Inl (UMError ''Failed to write''), m)
              else ssl_write_loop ssl_write (base + nat r) (wrap_sub 64 left (nat r)) m))"

definition um_ssl_write_all :: "(nat \<Rightarrow> int \<Rightarrow> int comp) \<Rightarrow> nat \<Rightarrow> int comp" where
  "um_ssl_write_all ssl_write buf =
     andthen (buffer_size_for_writing buf) (\<lambda>sz.
     andthen (ssl_write_loop ssl_write 0 sz) (\<lambda>_. ret (to_int32 (int sz))))"

text \<open>The \<open>size_t\<close> sum of the C integers, returned as a C integer; \<open>ssl_write b\<close> writes from buffer \<open>b\<close>.\<close>

fun ssl_writev_loop :: "(nat \<Rightarrow> nat \<Rightarrow> int \<Rightarrow> int comp) \<Rightarrow> nat list \<Rightarrow> int \<Rightarrow> int comp" where
  "ssl_writev_loop ssl_write [] acc = ret acc"
| "ssl_writev_loop ssl_write (b # bs) acc =
     andthen (um_ssl_write_all (ssl_write b) b) (\<lambda>n. ssl_writev_loop ssl_write bs ((acc + n) mod 2 ^ 64))"

definition um_ssl_writev :: "(nat \<Rightarrow> nat \<Rightarrow> int \<Rightarrow> int comp) \<Rightarrow> nat list \<Rightarrow> int comp" where
  "um_ssl_writev ssl_write bufs =
     andthen (ssl_writev_loop ssl_write bufs 0) (\<lambda>n. ret (to_int32 n))"

section \<open>Segments of a stream\<close>

abbreviation io_of :: "um \<Rightarrow> nat \<Rightarrow> um_io" where
  "io_of m i \<equiv> ios (heap m) i"

definition upd_io :: "nat \<Rightarrow> (um_io \<Rightarrow> um_io) \<Rightarrow> um \<Rightarrow> um" where
  "upd_io i f = upd_heap (\<lambda>h. h\<lparr>ios := (ios h)(i := f (ios h i))\<rparr>)"

definition upd_segment :: "addr \<Rightarrow> (um_segment \<Rightarrow> um_segment) \<Rightarrow> um \<Rightarrow> um" where
  "upd_segment s f m = m\<lparr>segments := (segments m)(s := f (segments m s))\<rparr>"

definition io_add_segment :: "nat \<Rightarrow> addr \<Rightarrow> um \<Rightarrow> um" where
  "io_add_segment i s m =
     (let m = upd_segment s (\<lambda>x. x\<lparr>seg_next := None\<rparr>) m;
          m = (case io_tail (io_of m i) of
                 Some t \<Rightarrow> upd_io i (\<lambda>x. x\<lparr>io_tail := Some s\<rparr>) (upd_segment t (\<lambda>x. x\<lparr>seg_next := Some s\<rparr>) m)
               | None \<Rightarrow> upd_io i (\<lambda>x. x\<lparr>io_head := Some s, io_tail := Some s\<rparr>) m)
      in upd_io i (\<lambda>x. x\<lparr>io_pending_bytes := wrap_add 64 (io_pending_bytes x) (seg_len (segments m s))\<rparr>) m)"

definition io_process_op_result :: "nat \<Rightarrow> addr \<Rightarrow> result_ref \<Rightarrow> um \<Rightarrow> um" where
  "io_process_op_result i a ref m =
     (let x = result_at m a ref in
      if res x > 0 then
        (case res_segment x of
           Some s \<Rightarrow> upd_result a ref (\<lambda>x. x\<lparr>res_segment := None\<rparr>) (io_add_segment i s m)
         | None \<Rightarrow> m)
      else upd_io i (\<lambda>x. x\<lparr>io_eof := True\<rparr>) m)"

definition IO_OP_FLAGS :: u32 where "IO_OP_FLAGS = OP_F_MULTISHOT OR OP_F_BUFFER_POOL"

text \<open>The operation of a stream; NULL is a fault.\<close>

definition the_op :: "nat \<Rightarrow> addr comp" where
  "the_op i m = map_option (\<lambda>a. (Inr a, m)) (io_op (io_of m i))"

definition io_multishot_op_start :: "nat \<Rightarrow> unit comp" where
  "io_multishot_op_start i =
     andthen (gets (\<lambda>m. io_of m i)) (\<lambda>x.
     andthen (if io_op x = None
              then andthen (state_op um_op_acquire) (\<lambda>a. modify (upd_io i (\<lambda>x. x\<lparr>io_op := Some a\<rparr>)))
              else ret ()) (\<lambda>_.
     andthen (modify_opt bp_ensure_commit_level) (\<lambda>_.
     andthen (the_op i) (\<lambda>a.
     andthen (case io_mode x of
                IO_FD \<Rightarrow>
                  andthen (modify (um_prep_op a OP_READ_MULTISHOT 2 IO_OP_FLAGS)) (\<lambda>_.
                  submit_op a (Prep_read_multishot (io_fd x) 0))
              | IO_SOCKET \<Rightarrow>
                  andthen (modify (um_prep_op a OP_RECV_MULTISHOT 2 IO_OP_FLAGS)) (\<lambda>_.
                  submit_op a (Prep_recv_multishot (io_fd x) 0))
              | _ \<Rightarrow> um_raise_internal_error ''Invalid multishot op'') (\<lambda>_.
     modify (\<lambda>m. upd_op a (\<lambda>x. x\<lparr>op_bp_commit_level := bp_commit_level m\<rparr>) m))))))"

definition io_multishot_op_stop :: "nat \<Rightarrow> unit comp" where
  "io_multishot_op_stop i =
     andthen (the_op i) (\<lambda>a.
     andthen (gets (\<lambda>m. op_has m a OP_F_CQE_DONE)) (\<lambda>done.
     andthen (if \<not> done
              then andthen (modify (set_flags a OP_F_ASYNC)) (\<lambda>_. um_cancel_op a)
              else op_release a) (\<lambda>_.
     modify (upd_io i (\<lambda>x. x\<lparr>io_op := None\<rparr>)))))"

text \<open>Checking in every segment of the list; the link is read before.\<close>

partial_function (option) checkin_segments :: "nat \<Rightarrow> um \<Rightarrow> um option" where
  "checkin_segments i m =
     (case io_head (io_of m i) of
        None \<Rightarrow> Some m
      | Some s \<Rightarrow>
          (let nxt = seg_next (segments m s) in
           Option.bind (um_segment_checkin m s) (\<lambda>m.
             checkin_segments i (upd_io i (\<lambda>x. x\<lparr>io_head := nxt\<rparr>) m))))"

definition drop_segments :: "nat \<Rightarrow> unit comp" where
  "drop_segments i =
     andthen (modify_opt (checkin_segments i)) (\<lambda>_.
     modify (upd_io i (\<lambda>x. x\<lparr>io_tail := None, io_pending_bytes := 0\<rparr>)))"

definition um_io_cleanup :: "nat \<Rightarrow> unit comp" where
  "um_io_cleanup i =
     andthen (gets (\<lambda>m. io_op (io_of m i))) (\<lambda>p.
     andthen (if p \<noteq> None then io_multishot_op_stop i else ret ()) (\<lambda>_.
     drop_segments i))"

text \<open>
  Whether the error was ENOBUFS, the bytes counted so far, and whether more completions follow.
\<close>

partial_function (option) process_segments_loop ::
  "nat \<Rightarrow> addr \<Rightarrow> result_ref option \<Rightarrow> int \<Rightarrow> bool \<Rightarrow> (bool \<times> int \<times> bool) comp" where
  "process_segments_loop i a p total_bytes hasmore m =
     (case p of
        None \<Rightarrow> Some (Inr (False, total_bytes, hasmore), m)
      | Some ref \<Rightarrow>
          (let x = result_at m a ref in
           if res x = - ENOBUFS then Some (Inr (True, total_bytes, False), m)
           else if res x = - ECANCELED then Some (Inr (False, total_bytes, False), m)
           else if res x < 0 then Some (Inl (SysErr (- res x)), m)
           else
             (let m = io_process_op_result i a ref m in
              process_segments_loop i a (map_option Heap (res_next (result_at m a ref)))
                (total_bytes + res x) (has_flag (res_flags x) IORING_CQE_F_MORE) m)))"

definition io_process_segments :: "nat \<Rightarrow> int \<Rightarrow> (bool \<times> int \<times> bool) comp" where
  "io_process_segments i total_bytes =
     andthen (the_op i) (\<lambda>a.
     andthen (modify (clear_flags a OP_F_CQE_SEEN)) (\<lambda>_.
     process_segments_loop i a (Some Inline) total_bytes False))"

definition io_clear :: "nat \<Rightarrow> unit comp" where
  "io_clear i =
     andthen (gets (\<lambda>m. if ring_initialized m then io_op (io_of m i) else None)) (\<lambda>p.
     andthen (case p of
                None \<Rightarrow> ret ()
              | Some a \<Rightarrow>
                  andthen (gets (\<lambda>m. op_has m a OP_F_CQE_SEEN)) (\<lambda>seen.
                  andthen (if seen
                           then andthen (io_process_segments i 0) (\<lambda>_.
                                modify_opt (\<lambda>m. um_op_multishot_results_clear m a))
                           else ret ()) (\<lambda>_.
                  andthen (gets (\<lambda>m. op_has m a OP_F_CQE_DONE)) (\<lambda>done.
                  andthen (if done then op_release a else um_cancel_op_and_discard_cqe a) (\<lambda>_.
                  modify (upd_io i (\<lambda>x. x\<lparr>io_op := None\<rparr>))))))) (\<lambda>_.
     andthen (drop_segments i) (\<lambda>_.
     andthen (gets (\<lambda>m. io_working_buffer (io_of m i))) (\<lambda>w.
     case w of
       None \<Rightarrow> ret ()
     | Some b \<Rightarrow>
         andthen (modify_opt (\<lambda>m. bp_buffer_checkin m b)) (\<lambda>_.
         modify (upd_io i (\<lambda>x. x\<lparr>io_working_buffer := None\<rparr>)))))))"

text \<open>\<open>bp_handle_enobufs\<close> as a computation.\<close>

definition handle_enobufs :: "unit comp" where
  "handle_enobufs m =
     map_option (\<lambda>r. case r of Inl e \<Rightarrow> (Inl e, m) | Inr m' \<Rightarrow> (Inr (), m')) (bp_handle_enobufs m)"

definition io_handle_enobufs :: "nat \<Rightarrow> unit comp" where
  "io_handle_enobufs i =
     andthen (gets (\<lambda>m. io_pending_bytes (io_of m i) < wrap_mul 64 (bp_buffer_size m) 4)) (\<lambda>should_restart.
     andthen (the_op i) (\<lambda>a.
     andthen (gets (\<lambda>m. op_bp_commit_level (ops m a) = bp_commit_level m)) (\<lambda>same.
     andthen (if should_restart \<and> same then handle_enobufs else ret ()) (\<lambda>_.
     andthen (op_release a) (\<lambda>_.
     modify (upd_io i (\<lambda>x. x\<lparr>io_op := None\<rparr>)))))))"

definition io_await_segments :: "rvalue comp \<Rightarrow> nat \<Rightarrow> unit comp" where
  "io_await_segments sw i =
     andthen (gets (\<lambda>m. io_op (io_of m i))) (\<lambda>p.
     andthen (if p = None then io_multishot_op_start i else ret ()) (\<lambda>_.
     andthen (the_op i) (\<lambda>a.
     andthen (gets (\<lambda>m. op_has m a OP_F_CQE_SEEN)) (\<lambda>seen.
     if seen then ret ()
     else
       andthen (modify (clear_flags a OP_F_ASYNC)) (\<lambda>_.
       andthen (um_yield sw) (\<lambda>v.
       andthen (modify (set_flags a OP_F_ASYNC)) (\<lambda>_.
       andthen (gets (\<lambda>m. op_has m a OP_F_CQE_SEEN)) (\<lambda>seen.
       if seen then ret () else andthen (check v) (\<lambda>_. ret ())))))))))"

text \<open>One round: the byte count so far, after the round's.\<close>

definition bp_round :: "rvalue comp \<Rightarrow> nat \<Rightarrow> int \<Rightarrow> int comp" where
  "bp_round sw i total_bytes =
     andthen (io_await_segments sw i) (\<lambda>_.
     andthen (io_process_segments i total_bytes) (\<lambda>(enobufs, total_bytes, more).
     andthen (the_op i) (\<lambda>a.
     andthen (modify_opt (\<lambda>m. um_op_multishot_results_clear m a)) (\<lambda>_.
     andthen (if enobufs then io_handle_enobufs i
              else if more then modify (clear_flags a OP_F_CQE_SEEN) else ret ()) (\<lambda>_.
     ret total_bytes)))))"

partial_function (option) io_get_more_segments_bp ::
  "(nat \<Rightarrow> rvalue comp) \<Rightarrow> nat \<Rightarrow> int \<Rightarrow> nat \<Rightarrow> int comp" where
  "io_get_more_segments_bp sw i total_bytes k m =
     (if io_eof (io_of m i) then Some (Inr 0, m)
      else
        Option.bind (bp_round (sw k) i total_bytes m) (\<lambda>(y, m).
          case y of
            Inl e \<Rightarrow> Some (Inl e, m)
          | Inr t \<Rightarrow>
              if t \<noteq> 0 \<or> io_eof (io_of m i) then Some (Inr (to_int32 t), m)
              else io_get_more_segments_bp sw i t (Suc k) m))"

text \<open>The buffer segments are cut from, with the room left in it.\<close>

definition working_buffer :: "nat \<Rightarrow> (addr \<times> nat \<times> nat) comp" where
  "working_buffer i =
     andthen (gets (\<lambda>m. io_working_buffer (io_of m i))) (\<lambda>w.
     andthen (case w of
                Some b \<Rightarrow> ret b
              | None \<Rightarrow>
                  (\<lambda>m. map_option (\<lambda>(b, m). (Inr b, upd_io i (\<lambda>x. x\<lparr>io_working_buffer := Some b\<rparr>) m))
                         (bp_buffer_checkout m))) (\<lambda>b m.
     map_option (\<lambda>x. (Inr (b, buf_pos x, wrap_sub 64 (buf_len x) (buf_pos x)), m)) (buffers m b)))"

definition drop_working_buffer :: "nat \<Rightarrow> addr \<Rightarrow> unit comp" where
  "drop_working_buffer i b =
     andthen (modify_opt (\<lambda>m. bp_buffer_checkin m b)) (\<lambda>_.
     modify (upd_io i (\<lambda>x. x\<lparr>io_working_buffer := None\<rparr>)))"

definition consume :: "addr \<Rightarrow> int \<Rightarrow> addr comp" where
  "consume b r m = map_option (\<lambda>(s, m). (Inr s, m)) (bp_buffer_consume m b (nat r))"

definition io_get_more_segments_ssl :: "(nat \<Rightarrow> int \<Rightarrow> int comp) \<Rightarrow> nat \<Rightarrow> int comp" where
  "io_get_more_segments_ssl ssl_read i =
     andthen (working_buffer i) (\<lambda>(b, ptr, maxlen).
     andthen (gets (\<lambda>m. io_target (io_of m i))) (\<lambda>target.
     andthen (um_ssl_read_raw (ssl_read target) maxlen) (\<lambda>r.
     if r = 0 then ret 0
     else if r < 0 then raise (UMError ''Failed to read segment'')
     else
       andthen (consume b r) (\<lambda>s.
       andthen (if nat r = maxlen then drop_working_buffer i b else ret ()) (\<lambda>_.
       andthen (modify (io_add_segment i s)) (\<lambda>_. ret 1))))))"

text \<open>On a result of 0 the operation is not released; a segment that fills the buffer is reported as
  the end.\<close>

definition io_get_more_segments_file :: "(nat \<Rightarrow> rvalue comp) \<Rightarrow> nat \<Rightarrow> int comp" where
  "io_get_more_segments_file sw i =
     andthen (working_buffer i) (\<lambda>(b, ptr, maxlen).
     andthen (acquire_prepared OP_READ 2 0) (\<lambda>a.
     andthen (gets (\<lambda>m. io_fd (io_of m i))) (\<lambda>fd.
     andthen (submit_op a (Prep_read fd b (int ptr) (nbytes (int maxlen)) (- 1))) (\<lambda>_.
     andthen (um_yield (sw 0)) (\<lambda>v.
     andthen (um_verify_op_completion (\<lambda>k. sw (Suc k)) a True) (\<lambda>ok.
     andthen (gets (\<lambda>m. res (op_result (ops m a)))) (\<lambda>r.
     if ok \<and> r = 0 then
       andthen (drop_working_buffer i b) (\<lambda>_.
       andthen (check v) (\<lambda>_. ret 0))
     else if ok then
       andthen (consume b r) (\<lambda>s.
       andthen (modify (io_add_segment i s)) (\<lambda>_.
       andthen (if nat r = maxlen then drop_working_buffer i b else ret ()) (\<lambda>_.
       andthen (op_release a) (\<lambda>_.
       andthen (check v) (\<lambda>_.
       ret (if nat r = maxlen then 0 else 1))))))
     else
       andthen (op_release a) (\<lambda>_.
       andthen (check v) (\<lambda>_. ret 0)))))))))"

definition io_get_more_segments ::
  "(nat \<Rightarrow> rvalue comp) \<Rightarrow> (nat \<Rightarrow> int \<Rightarrow> int comp) \<Rightarrow> nat \<Rightarrow> int comp" where
  "io_get_more_segments sw ssl_read i =
     andthen (gets (\<lambda>m. io_mode (io_of m i))) (\<lambda>md.
     case md of
       IO_FD \<Rightarrow> io_get_more_segments_bp sw i 0 0
     | IO_SOCKET \<Rightarrow> io_get_more_segments_bp sw i 0 0
     | IO_FILE \<Rightarrow> io_get_more_segments_file sw i
     | IO_SSL \<Rightarrow> io_get_more_segments_ssl ssl_read i
     | _ \<Rightarrow> raise (UMError ''Invalid IO mode''))"

section \<open>Writing\<close>

definition io_write_raw ::
  "(nat \<Rightarrow> rvalue comp) \<Rightarrow> (nat \<Rightarrow> nat \<Rightarrow> int \<Rightarrow> int comp) \<Rightarrow> nat \<Rightarrow> nat \<Rightarrow> nat \<Rightarrow> int comp" where
  "io_write_raw sw ssl_write i buf len =
     andthen (gets (\<lambda>m. io_of m i)) (\<lambda>x.
     case io_mode x of
       IO_FD \<Rightarrow> um_write_raw sw (io_fd x) buf (int len)
     | IO_SOCKET \<Rightarrow> um_send_raw sw (io_fd x) buf (int len) 0
     | IO_SSL \<Rightarrow> um_ssl_write_raw (ssl_write (io_target x)) len
     | _ \<Rightarrow> raise (UMError ''Invalid IO mode''))"

text \<open>\<open>ssl_write t b\<close> writes from buffer \<open>b\<close> to the connection \<open>t\<close>.\<close>

definition io_writev ::
  "(nat \<Rightarrow> rvalue comp) \<Rightarrow> (nat \<Rightarrow> nat) \<Rightarrow> (nat \<Rightarrow> nat \<Rightarrow> nat \<Rightarrow> int \<Rightarrow> int comp) \<Rightarrow> nat \<Rightarrow> nat list \<Rightarrow> rvalue comp" where
  "io_writev sw base ssl_write i bufs =
     andthen (gets (\<lambda>m. io_of m i)) (\<lambda>x.
     case io_mode x of
       IO_FD \<Rightarrow> um_writev sw base (io_fd x) bufs None
     | IO_SOCKET \<Rightarrow> um_sendv sw base (io_fd x) bufs
     | IO_SSL \<Rightarrow> andthen (um_ssl_writev (ssl_write (io_target x)) bufs) (\<lambda>n. ret (Fixnum (n mod 2 ^ 64)))
     | _ \<Rightarrow> raise (UMError ''Invalid IO mode''))"

section \<open>The stream object\<close>

definition io_has_target_obj_p :: "um_io \<Rightarrow> bool" where
  "io_has_target_obj_p x \<longleftrightarrow> io_mode x \<in> {IO_SSL, IO_STRING, IO_IO_BUFFER}"

text \<open>A mode is one of the symbols, and a target a file descriptor or an SSL socket, an object of the
  type \<open>T_DATA\<close>; of a target of another type only the number of an object is kept.\<close>

definition io_set_target :: "openssl \<Rightarrow> nat \<Rightarrow> rvalue \<Rightarrow> um_io_mode \<Rightarrow> unit comp" where
  "io_set_target os i target md =
     andthen (modify (upd_io i (\<lambda>x. x\<lparr>io_mode := md\<rparr>))) (\<lambda>_.
     if md \<in> {IO_FD, IO_FILE, IO_SOCKET}
     then andthen (num2int target) (\<lambda>fd. modify (upd_io i (\<lambda>x. x\<lparr>io_fd := fd\<rparr>)))
     else if md = IO_SSL
     then andthen (modify (upd_io i (\<lambda>x. case target of Obj t \<Rightarrow> x\<lparr>io_target := t\<rparr> | _ \<Rightarrow> x))) (\<lambda>_.
          um_ssl_set_bio os target)
     else raise (UMError ''Invalid connection mode''))"

definition io_setup :: "openssl \<Rightarrow> nat \<Rightarrow> rvalue \<Rightarrow> string option \<Rightarrow> unit comp" where
  "io_setup os i target md =
     andthen (modify (upd_io i (\<lambda>x. x\<lparr>io_working_buffer := None\<rparr>))) (\<lambda>_.
     case md of
       None \<Rightarrow> (case target of Obj _ \<Rightarrow> io_set_target os i target IO_SSL | _ \<Rightarrow> io_set_target os i target IO_FD)
     | Some s \<Rightarrow>
         if s = ''fd'' then io_set_target os i target IO_FD
         else if s = ''file'' then io_set_target os i target IO_FILE
         else if s = ''socket'' then io_set_target os i target IO_SOCKET
         else if s = ''ssl'' then io_set_target os i target IO_SSL
         else raise (UMError ''Invalid connection mode''))"

definition IO_initialize :: "openssl \<Rightarrow> nat \<Rightarrow> rvalue \<Rightarrow> string option \<Rightarrow> unit comp" where
  "IO_initialize os i target md =
     andthen (modify (upd_io i (\<lambda>_. (ios heap_zero i)\<lparr>io_self := Obj i\<rparr>))) (\<lambda>_.
     um_get_machine
       (andthen (modify (upd_io i (\<lambda>x. x\<lparr>io_machine := True\<rparr>))) (\<lambda>_. io_setup os i target md)))"

definition IO_mode_symbol :: "um_io \<Rightarrow> string option" where
  "IO_mode_symbol x =
     (case io_mode x of
        IO_FD \<Rightarrow> Some ''fd'' | IO_FILE \<Rightarrow> Some ''file'' | IO_SOCKET \<Rightarrow> Some ''socket''
      | IO_SSL \<Rightarrow> Some ''ssl'' | _ \<Rightarrow> None)"

definition IO_eof_p :: "um_io \<Rightarrow> bool" where "IO_eof_p x = io_eof x"

end
