(* ===== verification/UM_Stream.thy ===== *)
theory UM_Stream
  imports UM_Io
begin

text \<open>
  \<^verbatim>\<open>ext/um/um_io.c\<close>, the readers, over the bytes themselves: a stream is the list of its
  segments' contents, the position in the first, the counters, and what the calls of
  \<open>io_get_more_segments\<close> still to come will bring. A result \<open>None\<close> is a NULL or out-of-bounds
  access or a loop without end (a position past the end of a segment makes the length left wrap
  around); a returned \<open>nil\<close> is an inner \<open>None\<close>. The caller's output buffer is its content; who holds
  a reference to it is looked at in \<open>UM_Resp\<close>.
\<close>

section \<open>Streams\<close>

text \<open>A call brings segments, a truth value, and whether the end of the stream was seen.\<close>

record stream =
  segs :: "char list list"
  spos :: nat
  s_consumed :: nat
  s_pending :: nat
  s_eof :: bool
  feed :: "(char list list \<times> bool \<times> bool) list"

definition get_more :: "stream \<Rightarrow> bool \<times> stream" where
  "get_more s =
     (if s_eof s then (False, s)
      else case feed s of
             [] \<Rightarrow> (False, s)
           | (ss, r, e) # fs \<Rightarrow>
               (r, s\<lparr>segs := segs s @ ss, s_pending := s_pending s + length (concat ss),
                     s_eof := e, feed := fs\<rparr>))"

text \<open>
  The first two lines of every reader: nothing at the end of the stream, and a first attempt to get
  segments when there are none.
\<close>

definition io_ready :: "stream \<Rightarrow> bool \<times> stream" where
  "io_ready s =
     (if s_eof s \<and> segs s = [] then (False, s)
      else if segs s = [] then get_more s
      else (True, s))"

definition io_shift_head :: "stream \<Rightarrow> stream" where
  "io_shift_head s = s\<lparr>segs := tl (segs s), spos := 0\<rparr>"

text \<open>Moving on by \<open>n\<close> bytes of the first segment.\<close>

definition io_advance :: "nat \<Rightarrow> stream \<Rightarrow> stream" where
  "io_advance n s =
     (let s = s\<lparr>spos := spos s + n, s_consumed := s_consumed s + n, s_pending := s_pending s - n\<rparr>
      in if spos s = length (hd (segs s)) then io_shift_head s else s)"

lemma io_shift_head_simps [simp]:
  "segs (io_shift_head s) = tl (segs s)" "spos (io_shift_head s) = 0" "feed (io_shift_head s) = feed s"
  "s_eof (io_shift_head s) = s_eof s" "s_pending (io_shift_head s) = s_pending s"
  "s_consumed (io_shift_head s) = s_consumed s"
  by (simp_all add: io_shift_head_def)

lemma io_advance_frame [simp]:
  "feed (io_advance n s) = feed s" "s_eof (io_advance n s) = s_eof s"
  "s_consumed (io_advance n s) = s_consumed s + n" "s_pending (io_advance n s) = s_pending s - n"
  by (simp_all add: io_advance_def Let_def)

lemma io_advance_segs:
  "segs (io_advance n s) = (if spos s + n = length (hd (segs s)) then tl (segs s) else segs s)"
  "spos (io_advance n s) = (if spos s + n = length (hd (segs s)) then 0 else spos s + n)"
  by (simp_all add: io_advance_def Let_def)

function io_copy :: "nat \<Rightarrow> stream \<Rightarrow> (char list \<times> stream) option" where
  "io_copy n s =
     (if n = 0 then Some ([], s)
      else case segs s of
             [] \<Rightarrow> None
           | x # xs \<Rightarrow>
               if length x < spos s then None
               else
                 (let cpy = min (length x - spos s) n in
                  map_option (apfst ((@) (take cpy (drop (spos s) x)))) (io_copy (n - cpy) (io_advance cpy s))))"
  by auto

termination
  by (relation "measures [\<lambda>(n, s). n, \<lambda>(n, s). length (segs s)]") (auto simp: io_advance_segs)

declare io_copy.simps [simp del]

function skip_loop :: "nat \<Rightarrow> bool \<Rightarrow> stream \<Rightarrow> stream option" where
  "skip_loop inc safe_inc s =
     (if inc = 0 then Some s
      else case segs s of
             [] \<Rightarrow> None
           | x # xs \<Rightarrow>
               if length x < spos s then None
               else
                 (let inc_len = min (length x - spos s) inc;
                      s' = io_advance inc_len s in
                  if spos s + inc_len = length x \<and> inc - inc_len \<noteq> 0 \<and> safe_inc \<and> xs = [] then
                    (case get_more s' of
                       (False, s'') \<Rightarrow> Some s''
                     | (True, s'') \<Rightarrow> skip_loop (inc - inc_len) safe_inc s'')
                  else skip_loop (inc - inc_len) safe_inc s'))"
  by auto

termination
  by (relation "measures [\<lambda>(n, c, s). n, \<lambda>(n, c, s). length (feed s), \<lambda>(n, c, s). length (segs s)]")
    (auto simp: io_advance_segs get_more_def split: if_splits list.splits)

declare skip_loop.simps [simp del]

definition io_skip :: "nat \<Rightarrow> bool \<Rightarrow> stream \<Rightarrow> stream option" where
  "io_skip inc safe_inc s =
     (if s_eof s \<and> segs s = [] then Some s
      else if safe_inc \<and> segs s = []
      then (case get_more s of (False, s') \<Rightarrow> Some s' | (True, s') \<Rightarrow> skip_loop inc safe_inc s')
      else skip_loop inc safe_inc s)"

definition io_consume_string :: "nat \<Rightarrow> nat \<Rightarrow> bool \<Rightarrow> stream \<Rightarrow> (char list option \<times> stream) option" where
  "io_consume_string len inc safe_inc s = do {
     (str, s) \<leftarrow> io_copy len s;
     s \<leftarrow> (if inc \<noteq> 0 then io_skip inc safe_inc s else Some s);
     Some (Some str, s)
   }"

section \<open>Reading chunks and integers\<close>

text \<open>The chunks passed to the block, in order.\<close>

function read_each_loop :: "nat \<Rightarrow> stream \<Rightarrow> (char list list \<times> stream) option" where
  "read_each_loop pos s =
     (case segs s of
        [] \<Rightarrow> None
      | x # xs \<Rightarrow>
          (let s' = io_shift_head s in
           if length x < pos then None
           else if xs = [] then
             (case get_more s' of
                (False, s'') \<Rightarrow> Some ([drop pos x], s'')
              | (True, s'') \<Rightarrow> map_option (apfst (Cons (drop pos x))) (read_each_loop 0 s''))
           else map_option (apfst (Cons (drop pos x))) (read_each_loop 0 s')))"
  by auto

termination
  by (relation "measures [\<lambda>(p, s). length (feed s), \<lambda>(p, s). length (segs s)]")
    (auto simp: get_more_def split: if_splits list.splits)

declare read_each_loop.simps [simp del]

definition io_read_each :: "stream \<Rightarrow> (char list list \<times> stream) option" where
  "io_read_each s =
     (case io_ready s of
        (False, s) \<Rightarrow> Some ([], s)
      | (True, s) \<Rightarrow> read_each_loop (spos s) s)"

definition be_step :: "nat \<Rightarrow> char \<Rightarrow> nat" where
  "be_step v c = (v * 256 + of_char c) mod 2 ^ 64"

text \<open>An empty segment is read again for ever.\<close>

function read_be_loop :: "nat \<Rightarrow> nat \<Rightarrow> stream \<Rightarrow> (nat option \<times> stream) option" where
  "read_be_loop v len s =
     (case segs s of
        [] \<Rightarrow> None
      | x # xs \<Rightarrow>
          (let bytes = take len (drop (spos s) x);
               v = foldl be_step v bytes in
           if length x < spos s \<or> len \<noteq> 0 \<and> bytes = [] then None
           else
             Option.bind (if bytes = [] then Some s else io_skip (length bytes) True s) (\<lambda>s.
               if len - length bytes = 0 then Some (Some v, s)
               else if segs s = [] then
                 (case get_more s of
                    (False, s) \<Rightarrow> Some (None, s)
                  | (True, s) \<Rightarrow> read_be_loop v (len - length bytes) s)
               else read_be_loop v (len - length bytes) s)))"
  by auto

termination
  by (relation "measure (\<lambda>(v, n, s). n)") (auto split: if_splits)

declare read_be_loop.simps [simp del]

definition io_read_be :: "nat \<Rightarrow> stream \<Rightarrow> (nat option \<times> stream) option" where
  "io_read_be len s =
     (case io_ready s of (False, s) \<Rightarrow> Some (None, s) | (True, s) \<Rightarrow> read_be_loop 0 len s)"

definition io_read_int_be :: "nat \<Rightarrow> stream \<Rightarrow> (int option \<times> stream) option" where
  "io_read_int_be len s = map_option (apfst (map_option (\<lambda>v. to_ssize (int v)))) (io_read_be len s)"

definition io_read_uint_be :: "nat \<Rightarrow> stream \<Rightarrow> (int option \<times> stream) option" where
  "io_read_uint_be len s = map_option (apfst (map_option int)) (io_read_be len s)"

definition MAX_INT_SIZE :: nat where "MAX_INT_SIZE = 8"

definition IO_read_int_be :: "nat \<Rightarrow> stream \<Rightarrow> (um_error + int option \<times> stream) option" where
  "IO_read_int_be len s =
     (if len > MAX_INT_SIZE then Some (Inl (UMError ''Invalid length given''))
      else map_option Inr (io_read_int_be len s))"

definition IO_read_uint_be :: "nat \<Rightarrow> stream \<Rightarrow> (um_error + int option \<times> stream) option" where
  "IO_read_uint_be len s =
     (if len > MAX_INT_SIZE then Some (Inl (UMError ''Invalid length given''))
      else map_option Inr (io_read_uint_be len s))"

section \<open>Reading lines and strings\<close>

definition LF :: char where "LF = CHR 0x0A"

definition CR :: char where "CR = CHR 0x0D"

fun memchr :: "char \<Rightarrow> char list \<Rightarrow> nat option" where
  "memchr c [] = None"
| "memchr c (x # xs) = (if x = c then Some 0 else map_option Suc (memchr c xs))"

text \<open>\<open>ptr[len - 1]\<close>; before the start of an empty string.\<close>

definition trailing_cr_p :: "char list \<Rightarrow> bool option" where
  "trailing_cr_p xs = (if xs = [] then None else Some (last xs = CR))"

text \<open>
  \<open>j\<close> is the index of the current segment. The readers share how they go to the next one: when there
  is none, more is asked for.
\<close>

definition next_segment :: "nat \<Rightarrow> stream \<Rightarrow> bool \<times> stream" where
  "next_segment j s = (if Suc j < length (segs s) then (True, s) else get_more s)"

lemma next_segment_measure:
  "next_segment j s = (True, s') \<Longrightarrow> j < length (segs s) \<Longrightarrow>
   length (feed s') < length (feed s) \<or>
   length (feed s') = length (feed s) \<and> length (segs s') - Suc j < length (segs s) - j"
  by (auto simp: next_segment_def get_more_def split: if_splits list.splits)

function read_line_loop ::
  "nat \<Rightarrow> nat \<Rightarrow> nat \<Rightarrow> nat \<Rightarrow> nat \<Rightarrow> stream \<Rightarrow> (char list option \<times> stream) option" where
  "read_line_loop maxlen j pos total_len remaining_len s =
     (if length (segs s) \<le> j then None
      else if length (segs s ! j) < pos then None
      else
        (let start = drop pos (segs s ! j);
             segment_len = length start;
             search_len = (if maxlen \<noteq> 0 \<and> segment_len > remaining_len then remaining_len else segment_len) in
         case memchr LF (take search_len start) of
           Some len \<Rightarrow>
             Option.bind (if total_len + len > 0 then
                            if len \<noteq> 0 then trailing_cr_p (take len start)
                            else if j \<noteq> 0 then trailing_cr_p (segs s ! (j - 1)) else Some False
                          else Some False) (\<lambda>cr.
               io_consume_string (if cr then total_len + len - 1 else total_len + len)
                 (if cr then 2 else 1) False s)
         | None \<Rightarrow>
             if maxlen \<noteq> 0 \<and> segment_len \<ge> maxlen then Some (None, s)
             else
               (case next_segment j s of
                  (False, s') \<Rightarrow> Some (None, s')
                | (True, s') \<Rightarrow> read_line_loop maxlen (Suc j) 0 (total_len + segment_len)
                                 (wrap_sub 64 remaining_len segment_len) s')))"
  by auto

termination
  by (relation "measures [\<lambda>(x, j, p, t, r, s). length (feed s), \<lambda>(x, j, p, t, r, s). length (segs s) - j]")
    (use next_segment_measure in \<open>force simp: not_le\<close>)+

declare read_line_loop.simps [simp del]

definition io_read_line :: "nat \<Rightarrow> stream \<Rightarrow> (char list option \<times> stream) option" where
  "io_read_line maxlen s =
     (case io_ready s of
        (False, s) \<Rightarrow> Some (None, s)
      | (True, s) \<Rightarrow> read_line_loop maxlen 0 (spos s) 0 maxlen s)"

function read_loop ::
  "int \<Rightarrow> nat \<Rightarrow> bool \<Rightarrow> nat \<Rightarrow> nat \<Rightarrow> nat \<Rightarrow> nat \<Rightarrow> stream \<Rightarrow> (char list option \<times> stream) option" where
  "read_loop len inc safe_inc j pos total_len remaining_len s =
     (if length (segs s) \<le> j then None
      else if length (segs s ! j) < pos then None
      else
        (let segment_len = length (drop pos (segs s ! j));
             segment_len = (if len \<noteq> 0 \<and> segment_len > remaining_len then remaining_len else segment_len);
             total_len = total_len + segment_len;
             remaining_len = remaining_len - segment_len in
         if len \<noteq> 0 \<and> remaining_len = 0 then io_consume_string total_len inc safe_inc s
         else if len \<le> 0 \<and> \<not> Suc j < length (segs s) then io_consume_string total_len inc safe_inc s
         else
           (case next_segment j s of
              (False, s') \<Rightarrow> Some (None, s')
            | (True, s') \<Rightarrow> read_loop len inc safe_inc (Suc j) 0 total_len remaining_len s')))"
  by auto

termination
  by (relation "measures [\<lambda>(l, i, c, j, p, t, r, s). length (feed s),
                          \<lambda>(l, i, c, j, p, t, r, s). length (segs s) - j]")
    (use next_segment_measure in \<open>force simp: not_le\<close>)+

declare read_loop.simps [simp del]

definition io_read :: "int \<Rightarrow> nat \<Rightarrow> bool \<Rightarrow> stream \<Rightarrow> (char list option \<times> stream) option" where
  "io_read len inc safe_inc s =
     (case io_ready s of
        (False, s) \<Rightarrow> Some (None, s)
      | (True, s) \<Rightarrow> read_loop len inc safe_inc 0 (spos s) 0 (nat \<bar>len\<bar>) s)"

definition delim_to_char :: "char list \<Rightarrow> um_error + char" where
  "delim_to_char delim =
     (if length delim \<noteq> 1 then Inl (UMError ''Delimiter must be a single byte string'') else Inr (hd delim))"

function read_to_delim_loop ::
  "char \<Rightarrow> int \<Rightarrow> nat \<Rightarrow> nat \<Rightarrow> nat \<Rightarrow> nat \<Rightarrow> stream \<Rightarrow> (char list option \<times> stream) option" where
  "read_to_delim_loop delim maxlen j pos total_len remaining_len s =
     (if length (segs s) \<le> j then None
      else if length (segs s ! j) < pos then None
      else
        (let start = drop pos (segs s ! j);
             segment_len = length start;
             search_len = (if maxlen \<noteq> 0 \<and> segment_len > remaining_len then remaining_len else segment_len) in
         case memchr delim (take search_len start) of
           Some len \<Rightarrow> io_consume_string (total_len + len) 1 False s
         | None \<Rightarrow>
             if maxlen \<noteq> 0 \<and> total_len + search_len \<ge> nat \<bar>maxlen\<bar>
             then if maxlen > 0 then Some (None, s) else io_consume_string (nat \<bar>maxlen\<bar>) 1 False s
             else
               (case next_segment j s of
                  (False, s') \<Rightarrow> Some (None, s')
                | (True, s') \<Rightarrow> read_to_delim_loop delim maxlen (Suc j) 0 (total_len + search_len)
                                 (remaining_len - search_len) s')))"
  by auto

termination
  by (relation "measures [\<lambda>(d, x, j, p, t, r, s). length (feed s),
                          \<lambda>(d, x, j, p, t, r, s). length (segs s) - j]")
    (use next_segment_measure in \<open>force simp: not_le\<close>)+

declare read_to_delim_loop.simps [simp del]

definition io_read_to_delim :: "char list \<Rightarrow> int \<Rightarrow> stream \<Rightarrow> um_error + (char list option \<times> stream) option" where
  "io_read_to_delim delim maxlen s =
     (case delim_to_char delim of
        Inl e \<Rightarrow> Inl e
      | Inr c \<Rightarrow>
          Inr (case io_ready s of
                 (False, s) \<Rightarrow> Some (None, s)
               | (True, s) \<Rightarrow> read_to_delim_loop c maxlen 0 (spos s) 0 (nat \<bar>maxlen\<bar>) s))"

end
