(* ===== verification/UM_Stream_Props.thy ===== *)
theory UM_Stream_Props
  imports UM_Stream
begin

text \<open>
  What the readers of a stream return, stated over the stream's content: the bytes available, followed
  by those still to come. The lemmas on copying and skipping and the common invariant of the search
  loops come first.
\<close>

section \<open>Content and well-formedness\<close>

definition avail :: "stream \<Rightarrow> char list" where
  "avail s = drop (spos s) (concat (segs s))"

definition upcoming :: "stream \<Rightarrow> char list" where
  "upcoming s = concat (concat (map fst (feed s)))"

definition content :: "stream \<Rightarrow> char list" where
  "content s = avail s @ upcoming s"

text \<open>
  Every call to come brings segments that are not empty, until the end is seen. This is what a
  multishot read on a socket or pipe does; the end of the feed is the end of the stream.
\<close>

fun feed_ok :: "bool \<Rightarrow> (char list list \<times> bool \<times> bool) list \<Rightarrow> bool" where
  "feed_ok e [] \<longleftrightarrow> True"
| "feed_ok e ((ss, r, e') # fs) \<longleftrightarrow> \<not> e \<and> r \<and> ss \<noteq> [] \<and> [] \<notin> set ss \<and> feed_ok e' fs"

definition stream_ok :: "stream \<Rightarrow> bool" where
  "stream_ok s \<longleftrightarrow>
     [] \<notin> set (segs s) \<and> (if segs s = [] then spos s = 0 else spos s < length (hd (segs s))) \<and>
     s_pending s = length (avail s) \<and> feed_ok (s_eof s) (feed s)"

text \<open>A stream that has moved on by \<open>n\<close> bytes, asking for nothing more.\<close>

definition moved :: "nat \<Rightarrow> stream \<Rightarrow> stream \<Rightarrow> bool" where
  "moved n s s' \<longleftrightarrow>
     stream_ok s' \<and> avail s' = drop n (avail s) \<and> feed s' = feed s \<and> s_eof s' = s_eof s \<and>
     s_consumed s' = s_consumed s + n \<and> length (segs s') \<le> length (segs s)"

lemma moved_0: "stream_ok s \<Longrightarrow> moved 0 s s"
  by (simp add: moved_def)

lemma moved_trans: "moved a s t \<Longrightarrow> moved b t u \<Longrightarrow> moved (a + b) s u"
  by (auto simp: moved_def add.commute)

lemma moved_content: "moved n s s' \<Longrightarrow> n \<le> length (avail s) \<Longrightarrow> content s' = drop n (content s)"
  by (simp add: moved_def content_def upcoming_def)

lemma avail_Cons: "segs s = x # xs \<Longrightarrow> spos s \<le> length x \<Longrightarrow> avail s = drop (spos s) x @ concat xs"
  by (simp add: avail_def)

lemma stream_ok_Cons:
  "stream_ok s \<Longrightarrow> segs s = x # xs \<Longrightarrow> spos s < length x \<and> x \<noteq> [] \<and> [] \<notin> set xs"
  by (auto simp: stream_ok_def)

lemma avail_Nil: "stream_ok s \<Longrightarrow> avail s = [] \<longleftrightarrow> segs s = []"
proof -
  assume ok: "stream_ok s"
  show ?thesis
  proof (cases "segs s")
    case (Cons x xs)
    with stream_ok_Cons [OF ok Cons] show ?thesis by (simp add: avail_Cons)
  qed (simp add: avail_def)
qed

lemma get_more_ok:
  assumes "stream_ok s" "get_more s = (r, s')"
  shows "stream_ok s'" "content s' = content s" "spos s' = spos s" "s_consumed s' = s_consumed s"
    "r \<Longrightarrow> \<exists>x ss. segs s' = segs s @ x # ss" "\<not> r \<Longrightarrow> s' = s \<and> upcoming s = []"
proof -
  have "(stream_ok s' \<and> content s' = content s \<and> spos s' = spos s \<and> s_consumed s' = s_consumed s) \<and>
    (if r then \<exists>x ss. segs s' = segs s @ x # ss else s' = s \<and> upcoming s = [])"
  proof (cases "feed s")
    case Nil
    then have "get_more s = (False, s)" by (simp add: get_more_def)
    with assms Nil show ?thesis by (simp add: upcoming_def)
  next
    case (Cons f fs)
    obtain ss r' e where f: "f = (ss, r', e)" by (cases f) auto
    have k: "\<not> s_eof s" "r'" "ss \<noteq> []" "[] \<notin> set ss" "feed_ok e fs"
      using assms(1) Cons f by (auto simp: stream_ok_def)
    then have r: r and s': "s' = s\<lparr>segs := segs s @ ss, s_pending := s_pending s + length (concat ss),
        s_eof := e, feed := fs\<rparr>"
      using assms(2) Cons f by (auto simp: get_more_def)
    have le: "spos s \<le> length (concat (segs s))"
      using assms(1) by (cases "segs s") (auto simp: stream_ok_def)
    have av: "avail s' = avail s @ concat ss" using le by (simp add: s' avail_def)
    obtain y ys where y: "ss = y # ys" "y \<noteq> []" using k(3,4) by (cases ss) auto
    have "stream_ok s'" using assms(1) k av y(2)
      by (cases "segs s") (auto simp: s' stream_ok_def y(1))
    moreover have "content s' = content s"
      by (simp add: content_def av) (simp add: upcoming_def s' Cons f)
    moreover obtain x xs where "ss = x # xs" using k(3) by (cases ss) auto
    ultimately show ?thesis using r by (simp add: s')
  qed
  then show "stream_ok s'" "content s' = content s" "spos s' = spos s" "s_consumed s' = s_consumed s"
    "r \<Longrightarrow> \<exists>x ss. segs s' = segs s @ x # ss" "\<not> r \<Longrightarrow> s' = s \<and> upcoming s = []"
    by (auto split: if_splits)
qed

section \<open>Copying and skipping\<close>

lemma advance_moved:
  assumes ok: "stream_ok s" and seg: "segs s = x # xs" and n: "n \<le> length x - spos s"
  shows "moved n s (io_advance n s)"
proof -
  have p: "spos s < length x" "x \<noteq> []" "[] \<notin> set xs" using stream_ok_Cons [OF ok seg] by auto
  have av: "avail s = drop (spos s) x @ concat xs" using p seg by (simp add: avail_Cons)
  have "avail (io_advance n s) = drop n (avail s)"
  proof (cases "spos s + n = length x")
    case True
    then have "n = length x - spos s" by simp
    with True show ?thesis
      unfolding av avail_def [of "io_advance n s"] by (simp add: io_advance_segs seg)
  next
    case False
    with n p have "spos s + n < length x" by simp
    then show ?thesis
      unfolding av avail_def [of "io_advance n s"] by (simp add: io_advance_segs seg add.commute)
  qed
  moreover have "s_pending (io_advance n s) = length (avail s) - n" using ok by (simp add: stream_ok_def)
  moreover have "spos s + n \<le> length x" using n p by simp
  ultimately show ?thesis using ok p
    by (cases xs) (auto simp: moved_def stream_ok_def io_advance_segs seg)
qed

lemma io_copy_moved:
  "stream_ok s \<Longrightarrow> n \<le> length (avail s) \<Longrightarrow>
   \<exists>s'. io_copy n s = Some (take n (avail s), s') \<and> moved n s s'"
proof (induction n s rule: io_copy.induct)
  case (1 n s)
  show ?case
  proof (cases "n = 0")
    case True
    with 1(2) show ?thesis by (simp add: io_copy.simps [of 0] moved_0)
  next
    case n: False
    then obtain x xs where seg: "segs s = x # xs"
      using 1(3) by (cases "segs s") (auto simp: avail_def)
    have p: "spos s < length x" using stream_ok_Cons [OF 1(2) seg] by simp
    define c where "c = min (length x - spos s) n"
    have c: "c \<le> length x - spos s" "c \<le> n" by (simp_all add: c_def)
    have m: "moved c s (io_advance c s)" by (rule advance_moved [OF 1(2) seg c(1)])
    have np: "\<not> length x < spos s" using p by simp
    have ok': "stream_ok (io_advance c s)" and len': "n - c \<le> length (avail (io_advance c s))"
      using m 1(3) by (simp_all add: moved_def)
    obtain s' where s': "io_copy (n - c) (io_advance c s) = Some (take (n - c) (avail (io_advance c s)), s')"
        "moved (n - c) (io_advance c s) s'"
      using 1(1) [OF n seg np c_def ok' len'] by blast
    have "take c (drop (spos s) x) @ take (n - c) (drop c (avail s)) = take n (avail s)"
    proof -
      have "take c (drop (spos s) x) = take c (avail s)" using c p by (simp add: avail_Cons [OF seg])
      then show ?thesis using c(2) by (metis le_add_diff_inverse take_add)
    qed
    moreover have "moved n s s'" using moved_trans [OF m s'(2)] c(2) by simp
    moreover have "avail (io_advance c s) = drop c (avail s)" using m by (simp add: moved_def)
    ultimately show ?thesis
      using n seg p s'(1) by (simp add: io_copy.simps [of n s] Let_def flip: c_def)
  qed
qed

lemma skip_loop_moved:
  "stream_ok s \<Longrightarrow> n \<le> length (avail s) \<Longrightarrow> \<exists>s'. skip_loop n safe_inc s = Some s' \<and> moved n s s'"
proof (induction "n" arbitrary: s rule: less_induct)
  case (less n)
  show ?case
  proof (cases "n = 0")
    case True
    with less(2) show ?thesis by (simp add: skip_loop.simps [of 0] moved_0)
  next
    case n: False
    then obtain x xs where seg: "segs s = x # xs"
      using less(3) by (cases "segs s") (auto simp: avail_def)
    have p: "spos s < length x" using stream_ok_Cons [OF less(2) seg] by simp
    define c where "c = min (length x - spos s) n"
    have c: "c \<le> length x - spos s" "c \<le> n" "0 < c" using n p by (simp_all add: c_def)
    have m: "moved c s (io_advance c s)" by (rule advance_moved [OF less(2) seg c(1)])
    have ok': "stream_ok (io_advance c s)" and len': "n - c \<le> length (avail (io_advance c s))"
      using m less(3) by (simp_all add: moved_def)
    have dry: "\<not> (spos s + c = length x \<and> n - c \<noteq> 0 \<and> safe_inc \<and> xs = [])"
      using less(3) p by (auto simp: avail_Cons [OF seg])
    have "skip_loop n safe_inc s = skip_loop (n - c) safe_inc (io_advance c s)"
      using n seg p dry by (auto simp add: skip_loop.simps [of n] Let_def simp flip: c_def)
    moreover obtain s' where "skip_loop (n - c) safe_inc (io_advance c s) = Some s'"
        "moved (n - c) (io_advance c s) s'"
      using less(1) [of "n - c" "io_advance c s"] c ok' len' by auto
    moreover have "moved n s s'" using moved_trans [OF m] calculation(3) c(2) by fastforce
    ultimately show ?thesis by auto
  qed
qed

lemma io_skip_moved:
  assumes "stream_ok s" "n \<le> length (avail s)" "0 < n"
  shows "\<exists>s'. io_skip n safe_inc s = Some s' \<and> moved n s s'"
proof -
  have "segs s \<noteq> []" using assms by (auto simp: avail_def)
  with skip_loop_moved [OF assms(1,2)] show ?thesis by (auto simp: io_skip_def)
qed

lemma consume_moved:
  assumes ok: "stream_ok s" and n: "len + inc \<le> length (avail s)"
  shows "\<exists>s'. io_consume_string len inc safe_inc s = Some (Some (take len (avail s)), s') \<and>
    moved (len + inc) s s'"
proof -
  obtain s1 where s1: "io_copy len s = Some (take len (avail s), s1)" "moved len s s1"
    using io_copy_moved [OF ok, of len] n by auto
  show ?thesis
  proof (cases "inc = 0")
    case True
    with s1 show ?thesis by (simp add: io_consume_string_def)
  next
    case False
    have ok1: "stream_ok s1" "inc \<le> length (avail s1)" "0 < inc"
      using s1(2) n False by (simp_all add: moved_def)
    then obtain s2 where "io_skip inc safe_inc s1 = Some s2" "moved inc s1 s2"
      using io_skip_moved [of s1 inc safe_inc] ok1 by blast
    with False s1 moved_trans [OF s1(2)] show ?thesis by (simp add: io_consume_string_def)
  qed
qed

section \<open>Searching\<close>

lemma memchr_None: "memchr c xs = None \<longleftrightarrow> c \<notin> set xs"
  by (induction xs) auto

lemma memchr_append_Some: "memchr c xs = Some n \<Longrightarrow> memchr c (xs @ ys) = Some n"
  by (induction xs arbitrary: n) (auto split: if_splits)

lemma memchr_in: "memchr c xs = Some n \<Longrightarrow> c \<in> set xs"
  using memchr_None [of c xs] by fastforce

lemma memchr_append_notin:
  "c \<notin> set xs \<Longrightarrow> memchr c (xs @ ys) = (case memchr c ys of None \<Rightarrow> None | Some n \<Rightarrow> Some (length xs + n))"
  by (induction xs) (auto split: option.splits dest: memchr_in simp: memchr_None)

lemma memchr_less: "memchr c xs = Some n \<Longrightarrow> n < length xs"
  by (induction xs arbitrary: n) (auto split: if_splits)

text \<open>
  Where a search loop stands: at segment \<open>j\<close>, having passed the bytes \<open>before\<close>, with \<open>start\<close>
  the rest of the segment.
\<close>

definition at_segment :: "nat \<Rightarrow> nat \<Rightarrow> stream \<Rightarrow> char list \<Rightarrow> char list \<Rightarrow> bool" where
  "at_segment j pos s before start \<longleftrightarrow>
     stream_ok s \<and> j < length (segs s) \<and> pos = (if j = 0 then spos s else 0) \<and>
     before = drop (spos s) (concat (take j (segs s))) \<and> start = drop pos (segs s ! j)"

lemma at_segment_pos: "at_segment j pos s before start \<Longrightarrow> \<not> length (segs s ! j) < pos"
  by (cases "segs s") (auto simp: at_segment_def stream_ok_def)

lemma take_concat_nonempty:
  "xs \<noteq> [] \<Longrightarrow> 0 < j \<Longrightarrow> length (hd xs) \<le> length (concat (take j xs))"
  by (cases xs; cases j) auto

lemma at_segment_avail:
  assumes "at_segment j pos s before start"
  shows "avail s = before @ start @ concat (drop (Suc j) (segs s))" "start \<noteq> []"
    "j \<noteq> 0 \<Longrightarrow> before \<noteq> [] \<and> segs s ! (j - 1) \<noteq> [] \<and> last before = last (segs s ! (j - 1))"
    "j = 0 \<Longrightarrow> before = []"
proof -
  note a = assms [unfolded at_segment_def]
  have ne: "segs s \<noteq> []" and hd: "spos s < length (hd (segs s))" and nn: "[] \<notin> set (segs s)"
    using a by (auto simp: stream_ok_def split: if_splits)
  have mem: "segs s ! i \<noteq> []" if "i < length (segs s)" for i using nn that nth_mem by metis
  have split: "concat (segs s) = concat (take j (segs s)) @ segs s ! j @ concat (drop (Suc j) (segs s))"
    using a by (metis append_take_drop_id concat.simps(2) concat_append Cons_nth_drop_Suc)
  show "avail s = before @ start @ concat (drop (Suc j) (segs s))"
  proof (cases "j = 0")
    case True
    with a hd ne show ?thesis by (auto simp: avail_def split hd_conv_nth)
  next
    case False
    then have "spos s \<le> length (concat (take j (segs s)))"
      using take_concat_nonempty [OF ne, of j] hd by simp
    with False a show ?thesis by (simp add: avail_def split)
  qed
  show "start \<noteq> []" using a hd ne mem [of j] by (auto simp: hd_conv_nth)
  show "j = 0 \<Longrightarrow> before = []" using a by simp
  show "before \<noteq> [] \<and> segs s ! (j - 1) \<noteq> [] \<and> last before = last (segs s ! (j - 1))" if j: "j \<noteq> 0"
  proof -
    have pre: "concat (take j (segs s)) = concat (take (j - 1) (segs s)) @ segs s ! (j - 1)"
      using j a take_Suc_conv_app_nth [of "j - 1" "segs s"] by (cases j) simp_all
    have "spos s < length (concat (take j (segs s)))"
      using take_concat_nonempty [OF ne, of j] hd j by simp
    then have "before \<noteq> []" "last before = last (concat (take j (segs s)))" using a by auto
    moreover have "j - 1 < length (segs s)" using a by (auto intro: less_imp_diff_less)
    then have "segs s ! (j - 1) \<noteq> []" by (rule mem)
    ultimately show ?thesis unfolding pre by simp
  qed
qed

lemma at_segment_start: "stream_ok s \<Longrightarrow> segs s \<noteq> [] \<Longrightarrow> at_segment 0 (spos s) s [] (drop (spos s) (hd (segs s)))"
  by (simp add: at_segment_def hd_conv_nth)

lemma at_segment_next:
  assumes a: "at_segment j pos s before start" and nx: "next_segment j s = (True, s')"
  shows "\<exists>start'. at_segment (Suc j) 0 s' (before @ start) start' \<and> content s' = content s \<and> s_consumed s' = s_consumed s"
proof -
  have ok: "stream_ok s" and j: "j < length (segs s)" and p: "pos = (if j = 0 then spos s else 0)"
    and b: "before = drop (spos s) (concat (take j (segs s)))" and st: "start = drop pos (segs s ! j)"
    using a by (simp_all add: at_segment_def)
  have s': "stream_ok s'" "content s' = content s" "spos s' = spos s" "s_consumed s' = s_consumed s"
      "Suc j < length (segs s')" "take (Suc j) (segs s') = take (Suc j) (segs s)"
    using nx get_more_ok [OF ok] ok j by (fastforce simp: next_segment_def split: if_splits)+
  have ne: "segs s \<noteq> []" and hd: "spos s < length (hd (segs s))"
    using ok j by (auto simp: stream_ok_def split: if_splits)
  have "before @ start = drop (spos s) (concat (take (Suc j) (segs s)))"
  proof (cases "j = 0")
    case True
    with b st p ne show ?thesis by (simp add: take_Suc_conv_app_nth)
  next
    case False
    then have "spos s \<le> length (concat (take j (segs s)))"
      using take_concat_nonempty [OF ne, of j] hd by simp
    with False b st p j show ?thesis by (simp add: take_Suc_conv_app_nth)
  qed
  then have "at_segment (Suc j) 0 s' (before @ start) (segs s' ! Suc j)"
    using s' by (simp add: at_segment_def)
  with s' show ?thesis by blast
qed

lemma at_segment_end:
  assumes a: "at_segment j pos s before start" and nx: "next_segment j s = (False, s')"
  shows "s' = s \<and> content s = before @ start"
proof -
  have ok: "stream_ok s" and j: "\<not> Suc j < length (segs s)" "get_more s = (False, s')"
    using a nx by (auto simp: at_segment_def next_segment_def split: if_splits)
  have "s' = s" "upcoming s = []" using get_more_ok(6) [OF ok j(2)] by auto
  with at_segment_avail(1) [OF a] j(1) show ?thesis by (simp add: content_def)
qed

section \<open>Lines\<close>

text \<open>A line without the carriage return it may end with.\<close>

definition chomp_cr :: "char list \<Rightarrow> char list" where
  "chomp_cr xs = (if xs \<noteq> [] \<and> last xs = CR then butlast xs else xs)"

text \<open>What reading a line must do, on the content.\<close>

definition line_read :: "stream \<Rightarrow> (char list option \<times> stream) option \<Rightarrow> bool" where
  "line_read s r \<longleftrightarrow>
     (case memchr LF (content s) of
        Some n \<Rightarrow> \<exists>s'. r = Some (Some (chomp_cr (take n (content s))), s') \<and> stream_ok s' \<and>
                    content s' = drop (Suc n) (content s) \<and> s_consumed s' = s_consumed s + Suc n
      | None \<Rightarrow> \<exists>s'. r = Some (None, s') \<and> stream_ok s' \<and> content s' = content s \<and>
                    s_consumed s' = s_consumed s)"

lemma line_read_cong:
  "content s' = content s \<Longrightarrow> s_consumed s' = s_consumed s \<Longrightarrow> line_read s' r \<Longrightarrow> line_read s r"
  by (cases "memchr LF (content s)") (simp_all add: line_read_def)

lemma take_butlast_chomp:
  "xs \<noteq> [] \<Longrightarrow> last xs = CR \<Longrightarrow> take (length xs - Suc 0) xs = butlast xs"
  by (simp add: butlast_conv_take)

lemma found_line:
  assumes a: "at_segment j pos s before start" and len: "memchr LF start = Some len"
    and b: "LF \<notin> set before" and t: "tot = length before"
  shows "line_read s (Option.bind (if tot + len > 0 then
                if len \<noteq> 0 then trailing_cr_p (take len start)
                else if j \<noteq> 0 then trailing_cr_p (segs s ! (j - 1)) else Some False
              else Some False) (\<lambda>cr.
            io_consume_string (if cr then tot + len - 1 else tot + len) (if cr then 2 else 1) False s))"
proof -
  let ?l = "before @ take len start"
  have ok: "stream_ok s" using a by (simp add: at_segment_def)
  note av = at_segment_avail [OF a]
  have ls: "len < length start" using len by (rule memchr_less)
  have mem: "memchr LF (content s) = Some (tot + len)"
    using b len t by (simp add: content_def av(1) memchr_append_notin memchr_append_Some)
  have tk: "take (tot + len) (avail s) = ?l" using t ls by (simp add: av(1))
  have le: "tot + len < length (avail s)" using t ls by (simp add: av(1))
  have line: "take (tot + len) (content s) = ?l" using tk le by (simp add: content_def)
  define cr where "cr \<longleftrightarrow> ?l \<noteq> [] \<and> last ?l = CR"
  have eq: "(if tot + len > 0 then
                if len \<noteq> 0 then trailing_cr_p (take len start)
                else if j \<noteq> 0 then trailing_cr_p (segs s ! (j - 1)) else Some False
              else Some False) = Some cr"
    using t av(2,3,4) ls by (cases "j = 0") (auto simp: cr_def trailing_cr_p_def)
  have n: "(if cr then tot + len - 1 else tot + len) + (if cr then 2 else 1) = Suc (tot + len)"
    using t by (auto simp: cr_def)
  obtain s' where s': "io_consume_string (if cr then tot + len - 1 else tot + len) (if cr then 2 else 1) False s
      = Some (Some (take (if cr then tot + len - 1 else tot + len) (avail s)), s')"
      "moved (Suc (tot + len)) s s'"
    using consume_moved [OF ok, of "if cr then tot + len - 1 else tot + len" "if cr then 2 else 1" False] le
    unfolding n by auto
  have "take (if cr then tot + len - 1 else tot + len) (avail s) = chomp_cr ?l"
  proof (cases cr)
    case True
    have "take (tot + len - 1) (avail s) = take (tot + len - 1) ?l"
      by (simp flip: tk add: min_def)
    moreover have "length ?l = tot + len" using t ls by simp
    ultimately show ?thesis using True take_butlast_chomp [of ?l] by (simp add: cr_def chomp_cr_def)
  next
    case False
    then show ?thesis by (auto simp: tk chomp_cr_def cr_def)
  qed
  moreover have "content s' = drop (Suc (tot + len)) (content s)"
    using moved_content [OF s'(2)] le by simp
  ultimately show ?thesis
    unfolding eq using s' mem line by (simp add: line_read_def moved_def)
qed

lemma read_line_loop_content:
  "at_segment j pos s before start \<Longrightarrow> LF \<notin> set before \<Longrightarrow> tot = length before \<Longrightarrow>
   line_read s (read_line_loop 0 j pos tot rem s)"
proof (induction "0 :: nat" j pos tot rem s arbitrary: before start rule: read_line_loop.induct)
  case (1 j pos tot rem s)
  have j: "\<not> length (segs s) \<le> j" and st: "start = drop pos (segs s ! j)"
    using 1(2) by (simp_all add: at_segment_def)
  have tk: "take (length start) start = start" by simp
  note unf = read_line_loop.simps [of 0 j pos tot rem s] if_not_P [OF at_segment_pos [OF 1(2)]]
  show ?case
  proof (cases "memchr LF start")
    case (Some len)
    with found_line [OF 1(2) Some 1(3,4)] j show ?thesis by (simp add: unf Let_def flip: st)
  next
    case None
    then have b: "LF \<notin> set (before @ start)" using 1(3) by (simp add: memchr_None)
    have none: "memchr LF (take (if (0 :: nat) \<noteq> 0 \<and> rem < length start then rem else length start) start) = None"
      using None by simp
    obtain r s' where nx: "next_segment j s = (r, s')" by (cases "next_segment j s")
    show ?thesis
    proof (cases r)
      case True
      then have nx': "(True, s') = next_segment j s" using nx by simp
      obtain start' where s': "at_segment (Suc j) 0 s' (before @ start) start'" "content s' = content s"
          "s_consumed s' = s_consumed s"
        using at_segment_next [OF 1(2), of s'] nx True by auto
      have "line_read s' (read_line_loop 0 (Suc j) 0 (tot + length start) (wrap_sub 64 rem (length start)) s')"
        using 1(1) [OF j at_segment_pos [OF 1(2)] st refl refl none _ nx' refl s'(1) b] 1(4) by simp
      then have "line_read s (read_line_loop 0 (Suc j) 0 (tot + length start) (wrap_sub 64 rem (length start)) s')"
        by (rule line_read_cong [OF s'(2,3)])
      then show ?thesis using None j nx True by (simp add: unf Let_def flip: st)
    next
      case False
      then have "s' = s" "content s = before @ start" using at_segment_end [OF 1(2)] nx by auto
      moreover have "stream_ok s" using 1(2) by (simp add: at_segment_def)
      ultimately show ?thesis
        using None j nx False b by (simp add: unf Let_def line_read_def memchr_None [THEN iffD2] flip: st)
    qed
  qed
qed

lemma io_ready_ok:
  assumes "stream_ok s" "io_ready s = (r, s')"
  shows "stream_ok s'" "content s' = content s" "s_consumed s' = s_consumed s"
    "r \<Longrightarrow> segs s' \<noteq> []" "\<not> r \<Longrightarrow> s' = s \<and> content s = []"
proof -
  have "stream_ok s' \<and> content s' = content s \<and> s_consumed s' = s_consumed s \<and>
    (if r then segs s' \<noteq> [] else s' = s \<and> content s = [])"
  proof (cases "segs s = []")
    case False
    with assms show ?thesis by (auto simp: io_ready_def)
  next
    case True
    then have av: "avail s = []" by (simp add: avail_def)
    show ?thesis
    proof (cases "s_eof s")
      case eof: True
      then have "feed s = []" using assms(1) by (cases "feed s") (auto simp: stream_ok_def)
      with eof True av assms show ?thesis by (simp add: io_ready_def content_def upcoming_def)
    next
      case False
      then have g: "get_more s = (r, s')" using True assms(2) by (simp add: io_ready_def)
      show ?thesis using get_more_ok [OF assms(1) g] av by (auto simp: content_def)
    qed
  qed
  then show "stream_ok s'" "content s' = content s" "s_consumed s' = s_consumed s"
    "r \<Longrightarrow> segs s' \<noteq> []" "\<not> r \<Longrightarrow> s' = s \<and> content s = []"
    by (auto split: if_splits)
qed


definition demo_stream :: stream where
  "demo_stream = \<lparr>segs = [''ab'' @ [CR]], spos = 1, s_consumed = 1, s_pending = 2, s_eof = False,
     feed = [([[LF] @ ''c''], True, False), ([''d''], True, True)]\<rparr>"

lemma demo_stream_ok: "stream_ok demo_stream"
  by (simp add: demo_stream_def stream_ok_def avail_def)


text \<open>The limit on the length of a line can be passed: the length still allowed is decremented by the whole
  of a segment, not by the part searched, and wraps around. With a limit of 5 bytes, a line of 8 bytes in
  three segments is returned.\<close>

theorem read_line_limit_passed:
  "map_option fst (io_read_line 5 \<lparr>segs = [''abc'', ''defg'', ''h'' @ [LF]], spos = 0, s_consumed = 0,
     s_pending = 9, s_eof = False, feed = []\<rparr>) = Some (Some ''abcdefgh'')"
  by (simp add: io_read_line_def io_ready_def read_line_loop.simps LF_def CR_def trailing_cr_p_def
      next_segment_def wrap_sub_def io_consume_string_def io_copy.simps io_skip_def skip_loop.simps
      io_advance_def io_shift_head_def Let_def)

section \<open>Strings of a given length\<close>

definition bytes_read :: "nat \<Rightarrow> stream \<Rightarrow> (char list option \<times> stream) option \<Rightarrow> bool" where
  "bytes_read n s r \<longleftrightarrow>
     (if n \<le> length (content s)
      then \<exists>s'. r = Some (Some (take n (content s)), s') \<and> stream_ok s' \<and>
                content s' = drop n (content s) \<and> s_consumed s' = s_consumed s + n
      else \<exists>s'. r = Some (None, s') \<and> stream_ok s' \<and> content s' = content s \<and> s_consumed s' = s_consumed s)"

lemma bytes_read_cong:
  "content s' = content s \<Longrightarrow> s_consumed s' = s_consumed s \<Longrightarrow> bytes_read n s' r \<Longrightarrow> bytes_read n s r"
  by (cases "n \<le> length (content s)") (simp_all add: bytes_read_def)

lemma read_loop_bytes:
  "at_segment j pos s before start \<Longrightarrow> 0 < n \<Longrightarrow> tot = length before \<Longrightarrow> rem = n - length before \<Longrightarrow>
   length before < n \<Longrightarrow> bytes_read n s (read_loop (int n) 0 False j pos tot rem s)"
proof (induction "int n" "0 :: nat" False j pos tot rem s arbitrary: before start rule: read_loop.induct)
  case (1 j pos tot rem s)
  have j: "\<not> length (segs s) \<le> j" and st: "start = drop pos (segs s ! j)" and ok: "stream_ok s"
    using 1(2) by (simp_all add: at_segment_def)
  note av = at_segment_avail [OF 1(2)]
  note unf = read_loop.simps [of "int n" 0 False j pos tot rem s] if_not_P [OF at_segment_pos [OF 1(2)]]
  have rem: "tot + rem = n" "0 < rem" using 1(4,5,6) by simp_all
  show ?case
  proof (cases "rem \<le> length start")
    case True
    have le: "n \<le> length (avail s)" using av(1) True rem 1(4) by simp
    obtain s' where s': "io_consume_string n 0 False s = Some (Some (take n (avail s)), s')" "moved n s s'"
      using consume_moved [OF ok, of n 0 False] le by auto
    have "read_loop (int n) 0 False j pos tot rem s = io_consume_string n 0 False s"
      using True j rem 1(3) by (auto simp: unf Let_def simp flip: st)
    with s' le moved_content [OF s'(2) le] show ?thesis
      by (auto simp: bytes_read_def content_def moved_def)
  next
    case False
    obtain r s' where nx: "next_segment j s = (r, s')" by (cases "next_segment j s")
    show ?thesis
    proof (cases r)
      case True
      obtain start' where s': "at_segment (Suc j) 0 s' (before @ start) start'" "content s' = content s"
          "s_consumed s' = s_consumed s"
        using at_segment_next [OF 1(2), of s'] nx True by auto
      have "bytes_read n s' (read_loop (int n) 0 False (Suc j) 0 (tot + length start) (rem - length start) s')"
        using 1(1) [OF j at_segment_pos [OF 1(2)] refl _ refl refl _ _ _ refl s'(1)] s' nx True False 1(3-6) j rem
        by (simp flip: st)
      then have "bytes_read n s (read_loop (int n) 0 False (Suc j) 0 (tot + length start) (rem - length start) s')"
        by (rule bytes_read_cong [OF s'(2,3)])
      then show ?thesis using False j nx True 1(3) by (simp add: unf Let_def flip: st)
    next
      case r: False
      then have "s' = s" "content s = before @ start" using at_segment_end [OF 1(2)] nx by auto
      moreover have "read_loop (int n) 0 False j pos tot rem s = Some (None, s')"
        using False j nx r rem 1(3) by (auto simp: unf Let_def simp flip: st)
      ultimately show ?thesis using False rem 1(4) ok by (simp add: bytes_read_def)
    qed
  qed
qed

text \<open>C21. Reading a positive number of bytes returns exactly that many bytes of the stream, gathered over as many
  segments and fetches as it takes, and the stream goes on after them; when the stream ends before, nothing
  is returned and nothing is consumed.\<close>

theorem read_bytes_content:
  assumes "stream_ok s" "0 < n"
  shows "bytes_read n s (io_read (int n) 0 False s)"
proof -
  obtain r s' where rs: "io_ready s = (r, s')" by (cases "io_ready s")
  note ok = io_ready_ok [OF assms(1) rs]
  show ?thesis
  proof (cases r)
    case True
    have "bytes_read n s' (read_loop (int n) 0 False 0 (spos s') 0 n s')"
      using ok(1) ok(4) [OF True] assms(2) by (intro read_loop_bytes [OF at_segment_start]) simp_all
    with True bytes_read_cong [OF ok(2,3)] show ?thesis by (simp add: io_read_def rs)
  next
    case False
    with ok(1,5) assms(2) show ?thesis by (simp add: io_read_def rs bytes_read_def)
  qed
qed

theorem read_bytes_content_witness:
  "\<exists>s'. io_read 4 0 False demo_stream = Some (Some (''b'' @ [CR, LF] @ ''c''), s') \<and> content s' = ''d''"
proof -
  have c: "content demo_stream = ''b'' @ [CR, LF] @ ''cd''"
    by (simp add: demo_stream_def content_def avail_def upcoming_def)
  show ?thesis using read_bytes_content [OF demo_stream_ok, of 4] by (auto simp: bytes_read_def c)
qed

text \<open>With a negative limit, reading up to a delimiter that is not there returns as many bytes as the limit
  allows, and loses the byte after them.\<close>

theorem read_to_delim_loses_byte:
  "map_option (\<lambda>r. (fst r, avail (snd r)))
     (case io_read_to_delim '','' (- 3) \<lparr>segs = [''abcdef''], spos = 0, s_consumed = 0, s_pending = 6,
        s_eof = False, feed = []\<rparr> of Inl e \<Rightarrow> None | Inr r \<Rightarrow> r) = Some (Some ''abc'', ''ef'')"
  by (simp add: io_read_to_delim_def delim_to_char_def io_ready_def read_to_delim_loop.simps
      io_consume_string_def io_copy.simps io_skip_def skip_loop.simps io_advance_def avail_def Let_def)

section \<open>Integers\<close>

lemma be_step_less: "be_step v c < 2 ^ 64"
  by (simp add: be_step_def)

lemma read_be_loop_content:
  "stream_ok s \<Longrightarrow> segs s \<noteq> [] \<Longrightarrow> 0 < len \<Longrightarrow>
   (if len \<le> length (content s)
    then \<exists>s'. read_be_loop v len s = Some (Some (foldl be_step v (take len (content s))), s') \<and>
              stream_ok s' \<and> content s' = drop len (content s)
    else \<exists>s'. read_be_loop v len s = Some (None, s') \<and> stream_ok s' \<and> content s' = [])"
proof (induction len arbitrary: v s rule: less_induct)
  case (less len)
  obtain x xs where seg: "segs s = x # xs" using less(3) by (cases "segs s") auto
  have p: "spos s < length x" using stream_ok_Cons [OF less(2) seg] by simp
  define bytes where "bytes = take len (drop (spos s) x)"
  have b: "bytes \<noteq> []" "length bytes \<le> len" "bytes = take (length bytes) (content s)"
    using p less(4) by (auto simp: bytes_def content_def avail_Cons [OF seg] min_def)
  have ne: "\<not> (length x < spos s \<or> len \<noteq> 0 \<and> bytes = [])" using b(1) p by simp
  have le: "length bytes \<le> length (avail s)" using p by (simp add: bytes_def avail_Cons [OF seg])
  obtain s1 where s1: "io_skip (length bytes) True s = Some s1" "moved (length bytes) s s1"
    using io_skip_moved [OF less(2) le, of True] b(1) by auto
  have ok1: "stream_ok s1" and c1: "content s1 = drop (length bytes) (content s)"
    using s1(2) moved_content [OF s1(2) le] by (simp_all add: moved_def)
  let ?v = "foldl be_step v bytes" and ?n = "len - length bytes"
  have unf: "read_be_loop v len s =
      (if ?n = 0 then Some (Some ?v, s1)
       else if segs s1 = [] then
         (case get_more s1 of (False, s) \<Rightarrow> Some (None, s) | (True, s) \<Rightarrow> read_be_loop ?v ?n s)
       else read_be_loop ?v ?n s1)"
    using seg ne b(1) s1(1) p by (simp add: read_be_loop.simps [of v len] Let_def flip: bytes_def)
  have split: "take len (content s) = bytes @ take ?n (content s1)"
    using b(2,3) by (simp add: c1) (metis append_take_drop_id le_add_diff_inverse take_add)
  show ?case
  proof (cases "?n = 0")
    case True
    then have "len = length bytes" using b(2) by simp
    moreover have "length bytes \<le> length (content s)" using le by (simp add: content_def)
    ultimately show ?thesis using unf ok1 c1 b(3) by simp
  next
    case False
    have lt: "?n < len" "0 < ?n" using False b(1) less(4) by simp_all
    have eq: "(len \<le> length (content s)) = (?n \<le> length (content s1))"
    proof -
      have "length (content s1) = length (content s) - length bytes" by (simp add: c1)
      moreover have "length bytes \<le> length (content s)" using le by (simp add: content_def)
      ultimately show ?thesis using b(2) by linarith
    qed
    have dr: "drop len (content s) = drop ?n (content s1)" using b(2) by (simp add: c1)
    have go: "if len \<le> length (content s)
        then \<exists>s'. read_be_loop ?v ?n t = Some (Some (foldl be_step v (take len (content s))), s') \<and>
                  stream_ok s' \<and> content s' = drop len (content s)
        else \<exists>s'. read_be_loop ?v ?n t = Some (None, s') \<and> stream_ok s' \<and> content s' = []"
      if "stream_ok t" "segs t \<noteq> []" "content t = content s1" for t
      using less(1) [OF lt(1) that(1,2) lt(2), of ?v] unfolding that(3) eq split dr by simp
    show ?thesis
    proof (cases "segs s1 = []")
      case nil: True
      obtain r t where t: "get_more s1 = (r, t)" by (cases "get_more s1")
      note m = get_more_ok [OF ok1 t]
      show ?thesis
      proof (cases r)
        case True
        have "segs t \<noteq> []" using m(5) [OF True] by auto
        from go [OF m(1) this m(2)] show ?thesis using unf False nil t True by simp
      next
        case r: False
        have "content s1 = []" using m(6) [OF r] avail_Nil [OF ok1] nil by (simp add: content_def)
        with eq False r m(6) [OF r] ok1 unf nil t show ?thesis by simp
      qed
    next
      case cons: False
      from go [OF ok1 cons refl] show ?thesis using unf False cons by simp
    qed
  qed
qed

lemma read_be_content:
  assumes "stream_ok s" "0 < len"
  shows "if len \<le> length (content s)
    then \<exists>s'. io_read_be len s = Some (Some (foldl be_step 0 (take len (content s))), s') \<and>
              stream_ok s' \<and> content s' = drop len (content s)
    else \<exists>s'. io_read_be len s = Some (None, s') \<and> stream_ok s' \<and> content s' = []"
proof -
  obtain r s' where rs: "io_ready s = (r, s')" by (cases "io_ready s")
  note ok = io_ready_ok [OF assms(1) rs]
  show ?thesis
  proof (cases r)
    case True
    from read_be_loop_content [OF ok(1) ok(4) [OF True] assms(2), of 0] True
    show ?thesis unfolding ok(2) io_read_be_def rs by simp
  next
    case False
    with ok(1,5) assms(2) show ?thesis by (simp add: io_read_be_def rs)
  qed
qed

text \<open>The number a string of bytes stands for, the most significant first.\<close>

fun be_value :: "char list \<Rightarrow> nat" where
  "be_value [] = 0"
| "be_value (c # cs) = of_char c * 256 ^ length cs + be_value cs"

lemma be_value_less: "be_value cs < 256 ^ length cs"
proof (induction cs)
  case (Cons c cs)
  have "of_char c + 1 \<le> (256 :: nat)" using nat_of_char_less_256 [of c] by linarith
  then have "(of_char c + 1) * 256 ^ length cs \<le> 256 * (256 :: nat) ^ length cs" by (rule mult_le_mono1)
  moreover have "be_value (c # cs) < (of_char c + 1) * 256 ^ length cs" using Cons by (simp add: algebra_simps)
  ultimately show ?case by (simp only: length_Cons power_Suc)
qed simp

lemma foldl_be_step: "foldl be_step v cs mod 2 ^ 64 = (v * 256 ^ length cs + be_value cs) mod 2 ^ 64"
proof (induction cs arbitrary: v)
  case (Cons c cs)
  have "foldl be_step v (c # cs) mod 2 ^ 64 = (be_step v c * 256 ^ length cs + be_value cs) mod 2 ^ 64"
    by (simp only: foldl_Cons Cons.IH)
  also have "\<dots> = ((v * 256 + of_char c) * 256 ^ length cs + be_value cs) mod 2 ^ 64"
    unfolding be_step_def by (metis mod_add_left_eq mod_mult_left_eq)
  finally show ?case by (simp add: algebra_simps)
qed simp

lemma foldl_be_value:
  assumes "0 < length cs" "length cs \<le> 8"
  shows "foldl be_step 0 cs = be_value cs"
proof -
  obtain ds c where cs: "cs = ds @ [c]" using assms(1) by (cases cs rule: rev_cases) auto
  have "foldl be_step 0 cs < 2 ^ 64" by (simp add: cs be_step_less del: power_numeral)
  moreover have "(256 :: nat) ^ length cs \<le> 256 ^ 8" using assms(2) by (intro power_increasing) auto
  then have "be_value cs < 2 ^ 64" using be_value_less [of cs] by simp
  ultimately show ?thesis using foldl_be_step [of 0 cs] by simp
qed

text \<open>An unsigned integer of one to eight bytes is the number its bytes stand for in big endian order, and
  the stream goes on after them; when the stream ends before, nil is returned and what was left is gone.\<close>

theorem read_uint_be_content:
  assumes "stream_ok s" "0 < len" "len \<le> 8"
  shows "if len \<le> length (content s)
    then \<exists>s'. io_read_uint_be len s = Some (Some (int (be_value (take len (content s)))), s') \<and>
              stream_ok s' \<and> content s' = drop len (content s)
    else \<exists>s'. io_read_uint_be len s = Some (None, s') \<and> content s' = []"
proof -
  have "foldl be_step 0 (take len (content s)) = be_value (take len (content s))"
    if "len \<le> length (content s)"
    using that assms(2,3) by (intro foldl_be_value) auto
  with read_be_content [OF assms(1,2)] show ?thesis by (auto simp: io_read_uint_be_def)
qed

theorem read_uint_be_content_witness:
  "\<exists>s'. io_read_uint_be 3 demo_stream = Some (Some 6425866, s') \<and> content s' = ''cd''"
proof -
  have c: "content demo_stream = ''b'' @ [CR, LF] @ ''cd''"
    by (simp add: demo_stream_def content_def avail_def upcoming_def)
  show ?thesis using read_uint_be_content [OF demo_stream_ok, of 3] by (auto simp: c CR_def LF_def numeral_3_eq_3)
qed

text \<open>An integer read as signed is not sign-extended: a field shorter than eight bytes is read as the unsigned
  number, never a negative one, and only a field of all eight bytes has a sign.\<close>

theorem read_int_be_unsigned:
  assumes "stream_ok s" "0 < len" "len < 8" "len \<le> length (content s)"
  shows "\<exists>s'. io_read_int_be len s = Some (Some (int (be_value (take len (content s)))), s')"
proof -
  let ?v = "be_value (take len (content s))"
  have len: "length (take len (content s)) = len" using assms(4) by simp
  have "(256 :: nat) ^ len \<le> 256 ^ 7" using assms(3) by (intro power_increasing) auto
  then have "?v < 2 ^ 56" using be_value_less [of "take len (content s)"] unfolding len by simp
  then have "to_ssize (int ?v) = int ?v" by (simp add: to_ssize_def)
  moreover obtain s' where "io_read_be len s = Some (Some ?v, s')"
    using read_be_content [OF assms(1,2)] foldl_be_value [of "take len (content s)"] assms len by auto
  ultimately show ?thesis by (simp add: io_read_int_be_def)
qed

theorem read_int_be_unsigned_witness:
  "\<exists>s'. io_read_int_be 2 \<lparr>segs = [[CHR 0xFF], [CHR 0xFE]], spos = 0, s_consumed = 0, s_pending = 2,
     s_eof = False, feed = []\<rparr> = Some (Some 65534, s')"
  using read_int_be_unsigned [of "\<lparr>segs = [[CHR 0xFF], [CHR 0xFE]], spos = 0, s_consumed = 0, s_pending = 2,
     s_eof = False, feed = []\<rparr>" 2]
  by (simp add: stream_ok_def avail_def content_def upcoming_def)

section \<open>Chunks\<close>

text \<open>Reading chunk by chunk leaves the counters as they are, so that only the rest of the invariant is kept.\<close>

definition shape_ok :: "stream \<Rightarrow> bool" where
  "shape_ok s \<longleftrightarrow> [] \<notin> set (segs s) \<and> feed_ok (s_eof s) (feed s)"

lemma get_more_shape:
  assumes "shape_ok s"
  shows "get_more s = (False, s) \<and> upcoming s = [] \<or>
    (\<exists>ss s'. get_more s = (True, s') \<and> ss \<noteq> [] \<and> segs s' = segs s @ ss \<and> shape_ok s' \<and>
       upcoming s = concat ss @ upcoming s' \<and> s_consumed s' = s_consumed s \<and>
       s_pending s' = s_pending s + length (concat ss))"
proof (cases "feed s")
  case Nil
  then show ?thesis by (simp add: get_more_def upcoming_def)
next
  case (Cons f fs)
  obtain ss r e where f: "f = (ss, r, e)" by (cases f) auto
  with Cons assms have "\<not> s_eof s" "r" "ss \<noteq> []" "[] \<notin> set ss" "feed_ok e fs" by (auto simp: shape_ok_def)
  with Cons f assms show ?thesis by (auto simp: get_more_def shape_ok_def upcoming_def)
qed

lemma read_each_loop_content:
  "shape_ok s \<Longrightarrow> segs s = x # xs \<Longrightarrow> pos < length x \<Longrightarrow>
   \<exists>cs s'. read_each_loop pos s = Some (cs, s') \<and> concat cs = drop pos x @ concat xs @ upcoming s \<and>
     [] \<notin> set cs \<and> segs s' = [] \<and> s_consumed s' = s_consumed s \<and>
     s_pending s' = s_pending s + length (upcoming s)"
proof (induction pos s arbitrary: x xs rule: read_each_loop.induct)
  case (1 pos s)
  let ?s = "io_shift_head s"
  have sh: "shape_ok ?s" "segs ?s = xs" "upcoming ?s = upcoming s"
    using 1(3,4) by (simp_all add: shape_ok_def upcoming_def)
  have x: "drop pos x \<noteq> []" using 1(5) by simp
  have np: "\<not> length x < pos" using 1(5) by simp
  note unf = read_each_loop.simps [of pos s] if_not_P [OF np]
  show ?case
  proof (cases xs)
    case (Cons y ys)
    have "0 < length y" using sh(1) unfolding shape_ok_def sh(2) Cons by (cases y) auto
    then obtain cs s' where "read_each_loop 0 ?s = Some (cs, s')" "concat cs = y @ concat ys @ upcoming s"
        "[] \<notin> set cs" "segs s' = []" "s_consumed s' = s_consumed s"
        "s_pending s' = s_pending s + length (upcoming s)"
      using 1(2) [OF 1(4) refl np _ sh(1), of y ys] sh Cons by auto
    then show ?thesis using 1(4) Cons x by (simp add: unf Let_def)
  next
    case Nil
    from get_more_shape [OF sh(1)] show ?thesis
    proof (elim disjE exE conjE)
      assume "get_more ?s = (False, ?s)" "upcoming ?s = []"
      with 1(4) Nil x sh show ?thesis by (simp add: unf Let_def)
    next
      fix ss t
      assume t: "get_more ?s = (True, t)" "ss \<noteq> []" "segs t = segs ?s @ ss" "shape_ok t"
        "upcoming ?s = concat ss @ upcoming t" "s_consumed t = s_consumed ?s"
        "s_pending t = s_pending ?s + length (concat ss)"
      obtain y ys where y: "ss = y # ys" using t(2) by (cases ss) auto
      have seg: "segs t = y # ys" using t(3) sh(2) Nil y by simp
      have "0 < length y" using t(4) unfolding shape_ok_def seg by (cases y) auto
      then obtain cs s' where "read_each_loop 0 t = Some (cs, s')" "concat cs = y @ concat ys @ upcoming t"
          "[] \<notin> set cs" "segs s' = []" "s_consumed s' = s_consumed t"
          "s_pending s' = s_pending t + length (upcoming t)"
        using 1(1) [OF 1(4) refl np Nil t(1) [symmetric] refl t(4) seg] by auto
      then show ?thesis using 1(4) Nil x t y sh(3) by (simp add: unf Let_def)
    qed
  qed
qed

text \<open>Reading chunk by chunk passes every byte of the stream to the block once, in order and in chunks that are
  not empty, until the end; but it updates neither counter: afterwards nothing is counted as consumed and
  all the bytes read are still counted as pending.\<close>

theorem read_each_content:
  assumes "stream_ok s"
  shows "\<exists>cs s'. io_read_each s = Some (cs, s') \<and> concat cs = content s \<and> [] \<notin> set cs \<and> segs s' = [] \<and>
    s_consumed s' = s_consumed s \<and> s_pending s' = length (content s)"
proof -
  obtain r t where rt: "io_ready s = (r, t)" by (cases "io_ready s")
  note ok = io_ready_ok [OF assms rt]
  show ?thesis
  proof (cases r)
    case True
    then obtain x xs where seg: "segs t = x # xs" using ok(4) by (cases "segs t") auto
    have p: "spos t < length x" using stream_ok_Cons [OF ok(1) seg] by simp
    have sh: "shape_ok t" "s_pending t = length (avail t)" using ok(1) by (auto simp: shape_ok_def stream_ok_def)
    obtain cs s' where s': "read_each_loop (spos t) t = Some (cs, s')"
        "concat cs = drop (spos t) x @ concat xs @ upcoming t" "[] \<notin> set cs" "segs s' = []"
        "s_consumed s' = s_consumed t" "s_pending s' = s_pending t + length (upcoming t)"
      using read_each_loop_content [OF sh(1) seg p] by blast
    have "concat cs = content s" 
      unfolding ok(2) [symmetric] using s'(2) p by (simp add: content_def avail_Cons [OF seg])
    moreover have "s_pending s' = length (content s)" 
      unfolding ok(2) [symmetric] using s'(6) sh(2) by (simp add: content_def)
    ultimately show ?thesis using s' True ok(3) by (simp add: io_read_each_def rt)
  next
    case False
    with ok(5) have "t = s" "content s = []" by auto
    moreover have "segs s = []" "s_pending s = 0"
      using calculation(2) avail_Nil [OF assms] assms by (simp_all add: content_def stream_ok_def)
    ultimately show ?thesis using False by (simp add: io_read_each_def rt)
  qed
qed

theorem read_each_content_witness:
  "\<exists>cs s'. io_read_each demo_stream = Some (cs, s') \<and> concat cs = ''b'' @ [CR, LF] @ ''cd'' \<and>
     s_consumed s' = 1 \<and> s_pending s' = 5"
proof -
  have c: "content demo_stream = ''b'' @ [CR, LF] @ ''cd''"
    by (simp add: demo_stream_def content_def avail_def upcoming_def)
  have "s_consumed demo_stream = 1" by (simp add: demo_stream_def)
  with read_each_content [OF demo_stream_ok] show ?thesis unfolding c by auto
qed

end
