(* ===== verification/UM_Resp.thy ===== *)
theory UM_Resp
  imports UM_Stream_Props
begin

text \<open>
  \<^verbatim>\<open>ext/um/um_io.c\<close>, the Redis serialization protocol: the encoder into a write buffer and
  the decoder from a stream. A decoded bulk string is not a new string but the caller's output buffer
  itself, which the following reads overwrite: \<open>ROut\<close> is a reference to it. \<open>fmt\<close> and \<open>strtod\<close> are
  C's \<open>sprintf("%lg", ...)\<close> and \<open>strtod\<close>.
\<close>

section \<open>Values\<close>

datatype resp =
    RNil
  | RTrue
  | RFalse
  | RInt int
  | RFloat rat
  | RStr "char list"
  | ROut
  | RErr resp
  | RArr "resp list"
  | RHash "(resp \<times> resp) list"
  | RObject nat

section \<open>Numbers in decimal\<close>

definition digit :: "nat \<Rightarrow> char" where "digit n = char_of (48 + n)"

fun show_nat :: "nat \<Rightarrow> char list" where
  "show_nat n = (if n < 10 then [digit n] else show_nat (n div 10) @ [digit (n mod 10)])"

declare show_nat.simps [simp del]

text \<open>\<open>%ld\<close>\<close>

definition show_long :: "int \<Rightarrow> char list" where
  "show_long i = (if i < 0 then ''-'' @ show_nat (nat (- i)) else show_nat (nat i))"

definition is_digit :: "char \<Rightarrow> bool" where
  "is_digit c \<longleftrightarrow> 48 \<le> (of_char c :: nat) \<and> (of_char c :: nat) < 58"

definition digits_value :: "char list \<Rightarrow> nat" where
  "digits_value = foldl (\<lambda>v c. 10 * v + (of_char c - 48)) 0"

text \<open>\<open>strtol\<close> in base 10: white space, a sign, digits; the value is clamped to a \<open>long\<close>.\<close>

definition is_space :: "char \<Rightarrow> bool" where
  "is_space c \<longleftrightarrow> (of_char c :: nat) \<in> {9, 10, 11, 12, 13, 32}"

definition clamp_long :: "int \<Rightarrow> int" where
  "clamp_long n = max (- (2 ^ 63)) (min (2 ^ 63 - 1) n)"

definition strtol :: "char list \<Rightarrow> int" where
  "strtol cs =
     (case dropWhile is_space cs of
        [] \<Rightarrow> 0
      | c # ds \<Rightarrow>
          if c = CHR ''-'' then clamp_long (- int (digits_value (takeWhile is_digit ds)))
          else if c = CHR ''+'' then clamp_long (int (digits_value (takeWhile is_digit ds)))
          else clamp_long (int (digits_value (takeWhile is_digit (c # ds)))))"

section \<open>The write buffer\<close>

text \<open>
  \<open>wb_alloc\<close> is the number of bytes the string has memory for, \<open>wb_str_len\<close> its length as Ruby
  knows it, \<open>wb_capa\<close> what the code believes the capacity to be. \<open>rb_str_modify_expand\<close> makes room for
  a number of bytes after the string's length. Writing past the memory is a fault.
\<close>

record um_write_buffer =
  wb_alloc :: nat
  wb_str_len :: nat
  wb_capa :: nat
  wb_bytes :: "char list"

function grow_capa :: "nat \<Rightarrow> nat \<Rightarrow> nat" where
  "grow_capa capa n = (if capa < n then grow_capa (capa + 2 ^ 12) n else capa)"
  by auto

termination by (relation "measure (\<lambda>(capa, n). n - capa)") auto

declare grow_capa.simps [simp del]

definition write_buffer_init :: "char list \<Rightarrow> um_write_buffer" where
  "write_buffer_init str =
     (let capa = grow_capa (2 ^ 12) (length str) in
      \<lparr>wb_alloc = capa, wb_str_len = length str, wb_capa = capa, wb_bytes = str\<rparr>)"

definition write_buffer_expand :: "um_write_buffer \<Rightarrow> nat \<Rightarrow> um_write_buffer" where
  "write_buffer_expand b newsize =
     (if wb_capa b < newsize then
        (let old_capa = wb_capa b; capa = grow_capa old_capa newsize in
         b\<lparr>wb_capa := capa, wb_alloc := max (wb_alloc b) (wb_str_len b + (capa - old_capa))\<rparr>)
      else b)"

definition write_bytes :: "um_write_buffer \<Rightarrow> char list \<Rightarrow> um_write_buffer option" where
  "write_bytes b cs =
     (if length (wb_bytes b) + length cs \<le> wb_alloc b then Some (b\<lparr>wb_bytes := wb_bytes b @ cs\<rparr>) else None)"

definition write_buffer_append :: "um_write_buffer \<Rightarrow> char list \<Rightarrow> um_write_buffer option" where
  "write_buffer_append b cs = write_bytes (write_buffer_expand b (length (wb_bytes b) + length cs)) cs"

definition write_buffer_append_cstr :: "um_write_buffer \<Rightarrow> char list \<Rightarrow> um_write_buffer option" where
  "write_buffer_append_cstr b cs = write_buffer_append b cs"

definition crlf :: "char list" where "crlf = [CR, LF]"

definition bulk_string :: "char list \<Rightarrow> char list" where
  "bulk_string str = ''$'' @ show_long (int (length str)) @ crlf @ str @ crlf"

definition write_buffer_append_resp_bulk_string :: "um_write_buffer \<Rightarrow> char list \<Rightarrow> um_write_buffer option" where
  "write_buffer_append_resp_bulk_string b str =
     write_bytes (write_buffer_expand b (length (wb_bytes b) + length str + 16)) (bulk_string str)"

definition write_buffer_update_len :: "um_write_buffer \<Rightarrow> um_write_buffer" where
  "write_buffer_update_len b = b\<lparr>wb_str_len := length (wb_bytes b)\<rparr>"

section \<open>The encoder\<close>

definition lift_wb :: "um_write_buffer option \<Rightarrow> (um_error + um_write_buffer) option" where
  "lift_wb = map_option Inr"

definition bind_wb ::
  "(um_error + um_write_buffer) option \<Rightarrow> (um_write_buffer \<Rightarrow> (um_error + um_write_buffer) option) \<Rightarrow>
   (um_error + um_write_buffer) option" where
  "bind_wb r k = (case r of None \<Rightarrow> None | Some (Inl e) \<Rightarrow> Some (Inl e) | Some (Inr b) \<Rightarrow> k b)"

function (sequential) resp_encode :: "(rat \<Rightarrow> char list) \<Rightarrow> um_write_buffer \<Rightarrow> resp \<Rightarrow> (um_error + um_write_buffer) option"
  and resp_encode_elements ::
    "(rat \<Rightarrow> char list) \<Rightarrow> um_write_buffer \<Rightarrow> resp list \<Rightarrow> (um_error + um_write_buffer) option"
  and resp_encode_hash_entries ::
    "(rat \<Rightarrow> char list) \<Rightarrow> um_write_buffer \<Rightarrow> (resp \<times> resp) list \<Rightarrow> (um_error + um_write_buffer) option"
where
  "resp_encode fmt b RNil = lift_wb (write_buffer_append_cstr b (''_'' @ crlf))"
| "resp_encode fmt b RFalse = lift_wb (write_buffer_append_cstr b (''#f'' @ crlf))"
| "resp_encode fmt b RTrue = lift_wb (write_buffer_append_cstr b (''#t'' @ crlf))"
| "resp_encode fmt b (RInt i) = lift_wb (write_buffer_append_cstr b ('':'' @ show_long i @ crlf))"
| "resp_encode fmt b (RFloat x) = lift_wb (write_buffer_append_cstr b ('','' @ fmt x @ crlf))"
| "resp_encode fmt b (RStr s) = lift_wb (write_buffer_append_resp_bulk_string b s)"
| "resp_encode fmt b (RArr vs) =
     bind_wb (lift_wb (write_buffer_append_cstr b (''*'' @ show_long (int (length vs)) @ crlf)))
       (\<lambda>b. resp_encode_elements fmt b vs)"
| "resp_encode fmt b (RHash kvs) =
     bind_wb (lift_wb (write_buffer_append_cstr b (''%'' @ show_long (int (length kvs)) @ crlf)))
       (\<lambda>b. resp_encode_hash_entries fmt b kvs)"
| "resp_encode fmt b _ = Some (Inl (UMError ''UringMachine error: Can't encode object''))"
| "resp_encode_elements fmt b [] = Some (Inr b)"
| "resp_encode_elements fmt b (v # vs) =
     bind_wb (resp_encode fmt b v) (\<lambda>b. resp_encode_elements fmt b vs)"
| "resp_encode_hash_entries fmt b [] = Some (Inr b)"
| "resp_encode_hash_entries fmt b ((k, v) # kvs) =
     bind_wb (resp_encode fmt b k) (\<lambda>b. bind_wb (resp_encode fmt b v) (\<lambda>b. resp_encode_hash_entries fmt b kvs))"
  by pat_completeness auto

termination
  by (relation "measure (case_sum (\<lambda>(f, b, v). size v) (case_sum (\<lambda>(f, b, vs). size_list size vs)
        (\<lambda>(f, b, kvs). size_list (size_prod size size) kvs)))") auto

definition IO_resp_encode :: "(rat \<Rightarrow> char list) \<Rightarrow> char list \<Rightarrow> resp \<Rightarrow> (um_error + char list) option" where
  "IO_resp_encode fmt str v =
     map_option (map_sum id (\<lambda>b. wb_bytes (write_buffer_update_len b))) (resp_encode fmt (write_buffer_init str) v)"

section \<open>The decoder\<close>

text \<open>
  The position within a segment is not reset when the search goes on in the next one; a position past
  the segment's end makes its length wrap around.
\<close>

function resp_read_line_loop :: "nat \<Rightarrow> nat \<Rightarrow> nat \<Rightarrow> stream \<Rightarrow> (char list option \<times> stream) option" where
  "resp_read_line_loop j pos total_len s =
     (if length (segs s) \<le> j then None
      else if length (segs s ! j) < pos then None
      else
        (let start = drop pos (segs s ! j) in
         case memchr CR start of
           Some len \<Rightarrow> io_consume_string (total_len + len) 2 True s
         | None \<Rightarrow>
             (case next_segment j s of
                (False, s') \<Rightarrow> Some (None, s')
              | (True, s') \<Rightarrow> resp_read_line_loop (Suc j) pos (total_len + length start) s')))"
  by auto

termination
  by (relation "measures [\<lambda>(j, p, t, s). length (feed s), \<lambda>(j, p, t, s). length (segs s) - j]")
    (use next_segment_measure in \<open>force simp: not_le\<close>)+

declare resp_read_line_loop.simps [simp del]

definition resp_read_line :: "stream \<Rightarrow> (char list option \<times> stream) option" where
  "resp_read_line s =
     (case io_ready s of
        (False, s) \<Rightarrow> Some (None, s)
      | (True, s) \<Rightarrow> resp_read_line_loop 0 (spos s) 0 s)"

definition resp_read_string :: "nat \<Rightarrow> stream \<Rightarrow> (char list option \<times> stream) option" where
  "resp_read_string len s = io_read (to_ssize (int len)) 2 True s"

text \<open>A \<open>char\<close> is signed; the sum is an \<open>unsigned long\<close>.\<close>

definition schar :: "char \<Rightarrow> int" where
  "schar c = (let n = (of_char c :: nat) in if n < 128 then int n else int n - 256)"

definition resp_parse_length_field :: "char list \<Rightarrow> nat" where
  "resp_parse_length_field ptr = nat (foldl (\<lambda>acc c. (acc * 10 + (schar c - 48)) mod 2 ^ 64) 0 (tl ptr))"

text \<open>A string key is copied when it is put into a hash.\<close>

definition hash_key :: "char list \<Rightarrow> resp \<Rightarrow> resp" where
  "hash_key out k = (case k of ROut \<Rightarrow> RStr out | _ \<Rightarrow> k)"

fun hash_put :: "(resp \<times> resp) list \<Rightarrow> resp \<Rightarrow> resp \<Rightarrow> (resp \<times> resp) list" where
  "hash_put [] k v = [(k, v)]"
| "hash_put ((k', v') # kvs) k v = (if k' = k then (k, v) # kvs else (k', v') # hash_put kvs k v)"

definition resp_decode_simple_string :: "char list \<Rightarrow> resp" where
  "resp_decode_simple_string ptr = RStr (tl ptr)"

definition resp_decode_simple_error :: "char list \<Rightarrow> resp" where
  "resp_decode_simple_error ptr = RErr (RStr (tl ptr))"

definition resp_decode_integer :: "char list \<Rightarrow> resp" where
  "resp_decode_integer ptr = RInt (strtol (tl ptr))"

definition resp_decode_float :: "(char list \<Rightarrow> rat) \<Rightarrow> char list \<Rightarrow> resp" where
  "resp_decode_float strtod ptr = RFloat (strtod (tl ptr))"

type_synonym decoded = "((um_error + resp) \<times> stream \<times> char list) option"

text \<open>The result, the stream and the output buffer; a string that is not there is \<open>nil\<close>.\<close>

definition resp_decode_string :: "nat \<Rightarrow> stream \<Rightarrow> char list \<Rightarrow> decoded" where
  "resp_decode_string len s out =
     map_option (\<lambda>(r, s). case r of None \<Rightarrow> (Inr RNil, s, out) | Some cs \<Rightarrow> (Inr ROut, s, cs))
       (resp_read_string len s)"

definition resp_decode_error :: "nat \<Rightarrow> stream \<Rightarrow> char list \<Rightarrow> decoded" where
  "resp_decode_error len s out = map_option (apfst (map_sum id RErr)) (resp_decode_string len s out)"

text \<open>A string that is not there is dereferenced.\<close>

definition resp_decode_string_with_encoding :: "nat \<Rightarrow> stream \<Rightarrow> char list \<Rightarrow> decoded" where
  "resp_decode_string_with_encoding len s out =
     Option.bind (resp_read_string len s) (\<lambda>(r, s).
       case r of
         None \<Rightarrow> None
       | Some cs \<Rightarrow> Some (Inr (if length cs < 4 \<or> cs ! 3 \<noteq> CHR '':'' then RNil else RStr (drop 4 cs)), s, cs))"

text \<open>
  Reading a value, the elements of an array, and the entries of a hash are one recursive function of what
  is to be read; the numbers count down, the lists are what has been read.
\<close>

datatype resp_job = Read | Elements nat "resp list" | Entries nat "(resp \<times> resp) list"

definition array_too_big :: "nat \<Rightarrow> bool" where
  "array_too_big len \<longleftrightarrow> 2 ^ 60 \<le> len"

partial_function (option) resp_run ::
  "(char list \<Rightarrow> rat) \<Rightarrow> resp_job \<Rightarrow> stream \<Rightarrow> char list \<Rightarrow> decoded" where
  "resp_run strtod job s out =
     (case job of
        Read \<Rightarrow>
          Option.bind (resp_read_line s) (\<lambda>(line, s).
            case line of
              None \<Rightarrow> Some (Inr RNil, s, out)
            | Some [] \<Rightarrow> Some (Inr RNil, s, [])
            | Some (c # cs) \<Rightarrow>
                (let msg = c # cs; data_len = resp_parse_length_field msg in
                 if c = CHR ''%'' \<or> c = CHR ''|'' then resp_run strtod (Entries data_len []) s msg
                 else if c = CHR ''*'' \<or> c = CHR ''~'' \<or> c = CHR ''>'' then
                   if array_too_big data_len then Some (Inl (ArgError ''array size too big''), s, msg)
                   else resp_run strtod (Elements data_len []) s msg
                 else if c = CHR ''+'' then Some (Inr (resp_decode_simple_string msg), s, msg)
                 else if c = CHR ''$'' then resp_decode_string data_len s msg
                 else if c = CHR ''='' then resp_decode_string_with_encoding data_len s msg
                 else if c = CHR ''_'' then Some (Inr RNil, s, msg)
                 else if c = CHR ''#'' then
                   Some (Inr (if cs \<noteq> [] \<and> hd cs = CHR ''t'' then RTrue else RFalse), s, msg)
                 else if c = CHR '':'' then Some (Inr (resp_decode_integer msg), s, msg)
                 else if c = CHR ''('' then
                   Some (Inl (UMError ''UringMachine error: Big integers are not supported''), s, msg)
                 else if c = CHR '','' then Some (Inr (resp_decode_float strtod msg), s, msg)
                 else if c = CHR ''-'' then Some (Inr (resp_decode_simple_error msg), s, msg)
                 else if c = CHR ''!'' then resp_decode_error data_len s msg
                 else Some (Inl (UMError ''UringMachine error: Invalid character encountered''), s, msg)))
      | Elements n vs \<Rightarrow>
          if n = 0 then Some (Inr (RArr vs), s, out)
          else
            Option.bind (resp_run strtod Read s out) (\<lambda>(r, s, out).
              case r of
                Inl e \<Rightarrow> Some (Inl e, s, out)
              | Inr v \<Rightarrow> resp_run strtod (Elements (n - 1) (vs @ [v])) s out)
      | Entries n kvs \<Rightarrow>
          if n = 0 then Some (Inr (RHash kvs), s, out)
          else
            Option.bind (resp_run strtod Read s out) (\<lambda>(r, s, out).
              case r of
                Inl e \<Rightarrow> Some (Inl e, s, out)
              | Inr k \<Rightarrow>
                  Option.bind (resp_run strtod Read s out) (\<lambda>(r, s, out).
                    case r of
                      Inl e \<Rightarrow> Some (Inl e, s, out)
                    | Inr v \<Rightarrow> resp_run strtod (Entries (n - 1) (hash_put kvs (hash_key out k) v)) s out)))"

definition resp_read :: "(char list \<Rightarrow> rat) \<Rightarrow> stream \<Rightarrow> char list \<Rightarrow> decoded" where
  "resp_read strtod s out = resp_run strtod Read s out"

text \<open>What the references to the output buffer stand for in the end.\<close>

fun resolve :: "char list \<Rightarrow> resp \<Rightarrow> resp" where
  "resolve out ROut = RStr out"
| "resolve out (RErr v) = RErr (resolve out v)"
| "resolve out (RArr vs) = RArr (map (resolve out) vs)"
| "resolve out (RHash kvs) = RHash (map (\<lambda>(k, v). (resolve out k, resolve out v)) kvs)"
| "resolve out v = v"

definition IO_resp_read :: "(char list \<Rightarrow> rat) \<Rightarrow> stream \<Rightarrow> ((um_error + resp) \<times> stream) option" where
  "IO_resp_read strtod s =
     map_option (\<lambda>(r, s, out). (map_sum id (resolve out) r, s)) (resp_read strtod s [])"

end
