(* ===== verification/UM_Resp_Props.thy ===== *)
theory UM_Resp_Props
  imports UM_Resp
begin

text \<open>
  What the encoder writes and what the decoder reads back: the round trip for values without strings and
  for a single string, the bounds of the write buffer, and what becomes of several strings.
\<close>

section \<open>Decimal numbers\<close>

lemma digit_simps:
  "digit 0 = CHR ''0''" "digit 1 = CHR ''1''" "digit 2 = CHR ''2''" "digit 3 = CHR ''3''" "digit 4 = CHR ''4''"
  "digit 5 = CHR ''5''" "digit 6 = CHR ''6''" "digit 7 = CHR ''7''" "digit 8 = CHR ''8''" "digit 9 = CHR ''9''"
  by code_simp+

lemma of_char_digit: "n < 10 \<Longrightarrow> of_char (digit n) = 48 + n"
  by (simp add: digit_def)

lemma is_digit_digit: "n < 10 \<Longrightarrow> is_digit (digit n)"
  by (simp add: is_digit_def of_char_digit)

lemma show_nat_digits: "c \<in> set (show_nat n) \<Longrightarrow> is_digit c"
proof (induction n rule: show_nat.induct)
  case (1 n)
  then show ?case by (cases "n < 10") (auto simp: show_nat.simps [of n] is_digit_digit)
qed

lemma show_nat_ne: "show_nat n \<noteq> []"
  by (subst show_nat.simps) simp

lemma digits_value_snoc: "digits_value (xs @ [c]) = 10 * digits_value xs + (of_char c - 48)"
  by (simp add: digits_value_def)

lemma digits_value_show: "digits_value (show_nat n) = n"
proof (induction n rule: show_nat.induct)
  case (1 n)
  show ?case
  proof (cases "n < 10")
    case True
    then show ?thesis using digits_value_snoc [of "[]" "digit n"]
      by (simp add: show_nat.simps [of n] of_char_digit) (simp add: digits_value_def)
  next
    case False
    then show ?thesis using 1
      by (simp add: show_nat.simps [of n] digits_value_snoc of_char_digit)
  qed
qed

lemma digit_not: "is_digit c \<Longrightarrow> c \<noteq> CR \<and> c \<noteq> CHR ''-'' \<and> c \<noteq> CHR ''+'' \<and> \<not> is_space c"
  by (auto simp: is_digit_def CR_def is_space_def)

lemma show_long_nat [simp]: "show_long (int n) = show_nat n"
  by (simp add: show_long_def)

lemma show_long_CR: "CR \<notin> set (show_long i)"
  using show_nat_digits digit_not by (auto simp: show_long_def CR_def)

lemma takeWhile_show: "takeWhile is_digit (show_nat n) = show_nat n"
  using show_nat_digits by (simp add: takeWhile_eq_all_conv)

lemma strtol_show:
  assumes "- (2 ^ 63) \<le> i" "i < 2 ^ 63"
  shows "strtol (show_long i) = i"
proof -
  have clamp: "clamp_long i = i" using assms by (simp add: clamp_long_def)
  obtain c cs where c: "show_nat (nat \<bar>i\<bar>) = c # cs" using show_nat_ne by (cases "show_nat (nat \<bar>i\<bar>)") auto
  have "is_digit c" using show_nat_digits [of c "nat \<bar>i\<bar>"] c by simp
  then have nc: "c \<noteq> CHR ''-''" "c \<noteq> CHR ''+''" "\<not> is_space c" using digit_not by auto
  have tw: "digits_value (takeWhile is_digit (c # cs)) = nat \<bar>i\<bar>"
    using takeWhile_show [of "nat \<bar>i\<bar>"] digits_value_show [of "nat \<bar>i\<bar>"] unfolding c by simp
  show ?thesis
  proof (cases "i < 0")
    case True
    then have "show_long i = CHR ''-'' # c # cs" using c by (simp add: show_long_def)
    moreover have "\<not> is_space CHR ''-''" by (simp add: is_space_def)
    ultimately show ?thesis using True tw clamp by (simp add: strtol_def del: takeWhile.simps)
  next
    case False
    then have "show_long i = c # cs" using c by (simp add: show_long_def)
    then show ?thesis using False nc tw clamp by (simp add: strtol_def del: takeWhile.simps)
  qed
qed

lemma schar_digit: "is_digit c \<Longrightarrow> schar c - 48 = int (of_char c - 48)"
  by (auto simp: is_digit_def schar_def Let_def)

lemma parse_digits:
  "\<forall>c\<in>set ds. is_digit c \<Longrightarrow>
   foldl (\<lambda>acc c. (acc * 10 + (schar c - 48)) mod 2 ^ 64) 0 ds = int (digits_value ds) mod 2 ^ 64"
proof (induction ds rule: rev_induct)
  case (snoc c ds)
  have "foldl (\<lambda>acc c. (acc * 10 + (schar c - 48)) mod 2 ^ 64) 0 (ds @ [c]) =
      (int (digits_value ds) mod 2 ^ 64 * 10 + int (of_char c - 48)) mod 2 ^ 64"
    using snoc by (simp only: foldl_append foldl.simps schar_digit) (simp add: schar_digit)
  also have "\<dots> = (int (digits_value ds) * 10 + int (of_char c - 48)) mod 2 ^ 64"
    by (metis mod_add_left_eq mod_mult_left_eq)
  finally show ?case by (simp add: digits_value_snoc ac_simps)
qed (simp add: digits_value_def)

lemma parse_length_show:
  assumes "n < 2 ^ 64"
  shows "resp_parse_length_field (c # show_nat n) = n"
proof -
  have "int n mod 2 ^ 64 = int n" using assms by (intro mod_pos_pos_trivial) (simp_all flip: of_nat_less_iff)
  moreover have "foldl (\<lambda>acc c. (acc * 10 + (schar c - 48)) mod 2 ^ 64) 0 (show_nat n) = int n mod 2 ^ 64"
    using parse_digits [of "show_nat n"] show_nat_digits by (simp only: digits_value_show) blast
  ultimately show ?thesis by (simp only: resp_parse_length_field_def list.sel nat_int)
qed

section \<open>The format\<close>

text \<open>The message of a value, as the protocol defines it; floats and other objects are left out.\<close>

function (sequential) enc :: "resp \<Rightarrow> char list"
  and enc_elements :: "resp list \<Rightarrow> char list"
  and enc_entries :: "(resp \<times> resp) list \<Rightarrow> char list"
where
  "enc RNil = ''_'' @ crlf"
| "enc RFalse = ''#f'' @ crlf"
| "enc RTrue = ''#t'' @ crlf"
| "enc (RInt i) = '':'' @ show_long i @ crlf"
| "enc (RStr str) = bulk_string str"
| "enc (RArr vs) = ''*'' @ show_nat (length vs) @ crlf @ enc_elements vs"
| "enc (RHash kvs) = ''%'' @ show_nat (length kvs) @ crlf @ enc_entries kvs"
| "enc _ = []"
| "enc_elements [] = []"
| "enc_elements (v # vs) = enc v @ enc_elements vs"
| "enc_entries [] = []"
| "enc_entries ((k, v) # kvs) = enc k @ enc v @ enc_entries kvs"
  by pat_completeness auto

termination
  by (relation "measure (case_sum (\<lambda>v. size v) (case_sum (\<lambda>vs. size_list size vs)
        (\<lambda>kvs. size_list (size_prod size size) kvs)))") auto

text \<open>Values of the supported kinds.\<close>

function (sequential) encodable :: "resp \<Rightarrow> bool"
  and encodable_elements :: "resp list \<Rightarrow> bool"
  and encodable_entries :: "(resp \<times> resp) list \<Rightarrow> bool"
where
  "encodable (RFloat _) \<longleftrightarrow> False"
| "encodable ROut \<longleftrightarrow> False"
| "encodable (RErr _) \<longleftrightarrow> False"
| "encodable (RObject _) \<longleftrightarrow> False"
| "encodable (RArr vs) \<longleftrightarrow> encodable_elements vs"
| "encodable (RHash kvs) \<longleftrightarrow> encodable_entries kvs"
| "encodable _ \<longleftrightarrow> True"
| "encodable_elements [] \<longleftrightarrow> True"
| "encodable_elements (v # vs) \<longleftrightarrow> encodable v \<and> encodable_elements vs"
| "encodable_entries [] \<longleftrightarrow> True"
| "encodable_entries ((k, v) # kvs) \<longleftrightarrow> encodable k \<and> encodable v \<and> encodable_entries kvs"
  by pat_completeness auto

termination
  by (relation "measure (case_sum (\<lambda>v. size v) (case_sum (\<lambda>vs. size_list size vs)
        (\<lambda>kvs. size_list (size_prod size size) kvs)))") auto

section \<open>The encoder\<close>

text \<open>A write buffer with room for \<open>n\<close> bytes and the margin the bulk strings ask for.\<close>

definition room :: "um_write_buffer \<Rightarrow> nat \<Rightarrow> bool" where
  "room b n \<longleftrightarrow> wb_capa b \<le> wb_alloc b \<and> length (wb_bytes b) + n + 10 \<le> wb_capa b"

lemma append_room:
  "room b (length cs) \<Longrightarrow> write_buffer_append b cs = Some (b\<lparr>wb_bytes := wb_bytes b @ cs\<rparr>)"
  by (simp add: room_def write_buffer_append_def write_buffer_expand_def write_bytes_def)

lemma bulk_room:
  assumes "room b (length (bulk_string str))"
  shows "write_buffer_append_resp_bulk_string b str = Some (b\<lparr>wb_bytes := wb_bytes b @ bulk_string str\<rparr>)"
proof -
  have "length str + 6 \<le> length (bulk_string str)"
    using show_nat_ne [of "length str"] by (cases "show_nat (length str)") (simp_all add: bulk_string_def crlf_def)
  with assms show ?thesis
    by (simp add: room_def write_buffer_append_resp_bulk_string_def write_buffer_expand_def write_bytes_def)
qed

lemma room_append: "room b (n + k) \<Longrightarrow> room (b\<lparr>wb_bytes := wb_bytes b @ cs\<rparr>) k" if "length cs = n"
  using that by (simp add: room_def)

lemma room_less: "room b n \<Longrightarrow> k \<le> n \<Longrightarrow> room b k"
  by (simp add: room_def)

lemma append_twice: "b\<lparr>wb_bytes := xs\<rparr>\<lparr>wb_bytes := ys\<rparr> = b\<lparr>wb_bytes := ys\<rparr>"
  by simp

lemma encode_room:
  "encodable v \<Longrightarrow> room b (length (enc v)) \<Longrightarrow>
     resp_encode fmt b v = Some (Inr (b\<lparr>wb_bytes := wb_bytes b @ enc v\<rparr>))"
  "encodable_elements vs \<Longrightarrow> room b (length (enc_elements vs)) \<Longrightarrow>
     resp_encode_elements fmt b vs = Some (Inr (b\<lparr>wb_bytes := wb_bytes b @ enc_elements vs\<rparr>))"
  "encodable_entries kvs \<Longrightarrow> room b (length (enc_entries kvs)) \<Longrightarrow>
     resp_encode_hash_entries fmt b kvs = Some (Inr (b\<lparr>wb_bytes := wb_bytes b @ enc_entries kvs\<rparr>))"
proof (induction v and vs and kvs arbitrary: b and b and b rule: enc_enc_elements_enc_entries.induct)
  case (6 vs)
  have "room b (length (''*'' @ show_nat (length vs) @ crlf))" using 6(3) by (rule room_less) simp
  moreover have "room (b\<lparr>wb_bytes := wb_bytes b @ ''*'' @ show_nat (length vs) @ crlf\<rparr>) (length (enc_elements vs))"
    using 6(3) by (simp add: room_def)
  ultimately show ?case using 6(1) 6(2)
    by (simp add: write_buffer_append_cstr_def append_room lift_wb_def bind_wb_def)
next
  case (7 kvs)
  have "room b (length (''%'' @ show_nat (length kvs) @ crlf))" using 7(3) by (rule room_less) simp
  moreover have "room (b\<lparr>wb_bytes := wb_bytes b @ ''%'' @ show_nat (length kvs) @ crlf\<rparr>) (length (enc_entries kvs))"
    using 7(3) by (simp add: room_def)
  ultimately show ?case using 7(1) 7(2)
    by (simp add: write_buffer_append_cstr_def append_room lift_wb_def bind_wb_def)
qed (simp_all add: write_buffer_append_cstr_def append_room bulk_room lift_wb_def bind_wb_def room_def)



text \<open>C25. Encoding a string of 4088 to 8176 bytes into an empty string writes past the memory allocated: the buffer is
  expanded relative to the length Ruby knows, which is still 0, and not to the capacity.\<close>

theorem resp_encode_overflow:
  assumes "4088 \<le> length cs" "length cs \<le> 8176"
  shows "IO_resp_encode fmt [] (RStr cs) = None"
proof -
  have d: "\<not> length cs div 10 < 10" "\<not> length cs div 10 div 10 < 10" "length cs div 10 div 10 div 10 < 10"
  proof -
    have lo: "408 \<le> length cs div 10" using div_le_mono [OF assms(1), of 10] by simp
    have hi: "length cs div 10 \<le> 817" using div_le_mono [OF assms(2), of 10] by simp
    have lo': "40 \<le> length cs div 10 div 10" using div_le_mono [OF lo, of 10] by simp
    have hi': "length cs div 10 div 10 \<le> 81" using div_le_mono [OF hi, of 10] by simp
    have "length cs div 10 div 10 div 10 \<le> 8" using div_le_mono [OF hi', of 10] by simp
    with lo lo' show "\<not> length cs div 10 < 10" "\<not> length cs div 10 div 10 < 10"
      "length cs div 10 div 10 div 10 < 10" by simp_all
  qed
  have "length (show_nat (length cs)) = 4"
    using assms d by (simp add: show_nat.simps [of "length cs"] show_nat.simps [of "length cs div 10"]
        show_nat.simps [of "length cs div 10 div 10"] show_nat.simps [of "length cs div 10 div 10 div 10"])
  then have "4096 < length (bulk_string cs)" using assms by (simp add: bulk_string_def crlf_def)
  moreover have "grow_capa 4096 (length cs + 16) = 8192" using assms by (simp add: grow_capa.simps)
  moreover have "grow_capa 4096 0 = 4096" by (simp add: grow_capa.simps)
  ultimately show ?thesis using assms
    by (simp add: IO_resp_encode_def write_buffer_init_def write_buffer_append_resp_bulk_string_def
        write_buffer_expand_def write_bytes_def lift_wb_def)
qed

theorem resp_encode_overflow_witness: "IO_resp_encode (\<lambda>_. []) [] (RStr (replicate 4100 CR)) = None"
  using resp_encode_overflow [of "replicate 4100 CR"] by simp

section \<open>The decoder\<close>

text \<open>A stream with all its bytes in one segment.\<close>

definition single :: "stream \<Rightarrow> bool" where
  "single s \<longleftrightarrow> stream_ok s \<and> length (segs s) \<le> 1"

lemma moved_single: "moved n s s' \<Longrightarrow> single s \<Longrightarrow> single s'"
  by (auto simp: moved_def single_def)

lemma single_segs: "single s \<Longrightarrow> avail s \<noteq> [] \<Longrightarrow> \<exists>x. segs s = [x] \<and> avail s = drop (spos s) x \<and> spos s < length x"
proof -
  assume s: "single s" and a: "avail s \<noteq> []"
  then obtain x where x: "segs s = [x]" by (cases "segs s") (auto simp: single_def avail_def)
  have "spos s < length x" using stream_ok_Cons [OF _ x] s by (auto simp: single_def)
  with x show ?thesis by (simp add: avail_def)
qed

lemma read_line_single:
  assumes "single s" "avail s = line @ crlf @ rest" "CR \<notin> set line"
  shows "\<exists>s'. resp_read_line s = Some (Some line, s') \<and> moved (length line + 2) s s' \<and> avail s' = rest \<and> single s'"
proof -
  obtain x where x: "segs s = [x]" "avail s = drop (spos s) x" "spos s < length x"
    using single_segs [OF assms(1)] assms(2) by (auto simp: crlf_def)
  have ok: "stream_ok s" using assms(1) by (simp add: single_def)
  have len: "length line + 2 \<le> length (avail s)" by (simp add: assms(2) crlf_def)
  obtain s' where s': "io_consume_string (length line) 2 True s = Some (Some (take (length line) (avail s)), s')"
      "moved (length line + 2) s s'"
    using consume_moved [OF ok len] by blast
  have "memchr CR (avail s) = Some (length line)"
    using assms(3) by (simp add: assms(2) memchr_append_notin crlf_def)
  then have "resp_read_line s = io_consume_string (length line) 2 True s"
    using x by (simp add: resp_read_line_def io_ready_def resp_read_line_loop.simps Let_def)
  moreover have "avail s' = rest" using s'(2) by (simp add: moved_def assms(2) crlf_def)
  ultimately show ?thesis using s' moved_single [OF s'(2) assms(1)] by (simp add: assms(2))
qed

text \<open>Values without strings, with integers and lengths in range and hash keys that are distinct.\<close>

function (sequential) plain :: "resp \<Rightarrow> bool"
  and plain_elements :: "resp list \<Rightarrow> bool"
  and plain_entries :: "(resp \<times> resp) list \<Rightarrow> bool"
where
  "plain RNil \<longleftrightarrow> True"
| "plain RTrue \<longleftrightarrow> True"
| "plain RFalse \<longleftrightarrow> True"
| "plain (RInt i) \<longleftrightarrow> - (2 ^ 63) \<le> i \<and> i < 2 ^ 63"
| "plain (RArr vs) \<longleftrightarrow> length vs < 2 ^ 60 \<and> plain_elements vs"
| "plain (RHash kvs) \<longleftrightarrow> length kvs < 2 ^ 64 \<and> distinct (map fst kvs) \<and> plain_entries kvs"
| "plain _ \<longleftrightarrow> False"
| "plain_elements [] \<longleftrightarrow> True"
| "plain_elements (v # vs) \<longleftrightarrow> plain v \<and> plain_elements vs"
| "plain_entries [] \<longleftrightarrow> True"
| "plain_entries ((k, v) # kvs) \<longleftrightarrow> plain k \<and> plain v \<and> plain_entries kvs"
  by pat_completeness auto

termination
  by (relation "measure (case_sum (\<lambda>v. size v) (case_sum (\<lambda>vs. size_list size vs)
        (\<lambda>kvs. size_list (size_prod size size) kvs)))") auto

lemma hash_put_new: "k \<notin> fst ` set kvs \<Longrightarrow> hash_put kvs k v = kvs @ [(k, v)]"
  by (induction kvs k v rule: hash_put.induct) auto

lemma plain_resolve:
  "plain v \<Longrightarrow> resolve out v = v"
  "plain_elements vs \<Longrightarrow> map (resolve out) vs = vs"
  "plain_entries kvs \<Longrightarrow> map (\<lambda>(k, v). (resolve out k, resolve out v)) kvs = kvs"
  by (induction v and vs and kvs rule: plain_plain_elements_plain_entries.induct) auto

lemma plain_key: "plain k \<Longrightarrow> hash_key out k = k"
  by (cases k) (simp_all add: hash_key_def)

text \<open>Reading something to the end of its message.\<close>

definition reads :: "(char list \<Rightarrow> rat) \<Rightarrow> resp_job \<Rightarrow> char list \<Rightarrow> resp \<Rightarrow> bool" where
  "reads strtod job msg v \<longleftrightarrow>
     (\<forall>s out rest. single s \<longrightarrow> avail s = msg @ rest \<longrightarrow>
        (\<exists>s' out'. resp_run strtod job s out = Some (Inr v, s', out') \<and> avail s' = rest \<and> single s'))"

lemma readsI:
  "(\<And>s out rest. single s \<Longrightarrow> avail s = msg @ rest \<Longrightarrow>
      \<exists>s' out'. resp_run strtod job s out = Some (Inr v, s', out') \<and> avail s' = rest \<and> single s') \<Longrightarrow>
   reads strtod job msg v"
  by (simp add: reads_def)

lemma readsE:
  assumes "reads strtod job msg v" "single s" "avail s = msg @ rest"
  obtains s' out' where "resp_run strtod job s out = Some (Inr v, s', out')" "avail s' = rest" "single s'"
  using assms unfolding reads_def by blast

lemma run_line:
  assumes "single s" "avail s = (c # cs) @ crlf @ rest" "CR \<notin> set (c # cs)"
  obtains s' where "resp_read_line s = Some (Some (c # cs), s')" "avail s' = rest" "single s'"
  using read_line_single [OF assms] by blast

lemma reads_then:
  assumes line: "CR \<notin> set (c # cs)" and tl: "reads strtod job msg v"
    and run: "\<And>s s' out. resp_read_line s = Some (Some (c # cs), s') \<Longrightarrow>
        resp_run strtod Read s out = resp_run strtod job s' (c # cs)"
  shows "reads strtod Read ((c # cs) @ crlf @ msg) v"
proof (rule readsI)
  fix s out rest assume s: "single s" "avail s = ((c # cs) @ crlf @ msg) @ rest"
  have av: "avail s = (c # cs) @ crlf @ (msg @ rest)" using s(2) by simp
  obtain s1 where s1: "resp_read_line s = Some (Some (c # cs), s1)" "avail s1 = msg @ rest" "single s1"
    by (rule run_line [OF s(1) av line])
  obtain s' out' where "resp_run strtod job s1 (c # cs) = Some (Inr v, s', out')" "avail s' = rest" "single s'"
    by (rule readsE [OF tl s1(3,2)])
  with run [OF s1(1)] show "\<exists>s' out'. resp_run strtod Read s out = Some (Inr v, s', out') \<and> avail s' = rest \<and> single s'"
    by simp
qed

lemma reads_now:
  assumes line: "CR \<notin> set (c # cs)"
    and run: "\<And>s s' out. resp_read_line s = Some (Some (c # cs), s') \<Longrightarrow>
        resp_run strtod Read s out = Some (Inr v, s', c # cs)"
  shows "reads strtod Read ((c # cs) @ crlf) v"
proof (rule readsI)
  fix s out rest assume s: "single s" "avail s = ((c # cs) @ crlf) @ rest"
  have av: "avail s = (c # cs) @ crlf @ rest" using s(2) by simp
  obtain s1 where s1: "resp_read_line s = Some (Some (c # cs), s1)" "avail s1 = rest" "single s1"
    by (rule run_line [OF s(1) av line])
  with run [OF s1(1)] show "\<exists>s' out'. resp_run strtod Read s out = Some (Inr v, s', out') \<and> avail s' = rest \<and> single s'"
    by simp
qed

lemma reads_elements:
  assumes hd: "reads strtod Read msg v" and tl: "reads strtod (Elements n (acc @ [v])) msgs r"
  shows "reads strtod (Elements (Suc n) acc) (msg @ msgs) r"
proof (rule readsI)
  fix s out rest assume s: "single s" "avail s = (msg @ msgs) @ rest"
  have av: "avail s = msg @ (msgs @ rest)" using s(2) by simp
  obtain s1 o1 where s1: "resp_run strtod Read s out = Some (Inr v, s1, o1)" "avail s1 = msgs @ rest" "single s1"
    by (rule readsE [OF hd s(1) av])
  obtain s2 o2 where s2: "resp_run strtod (Elements n (acc @ [v])) s1 o1 = Some (Inr r, s2, o2)"
      "avail s2 = rest" "single s2"
    by (rule readsE [OF tl s1(3,2)])
  then show "\<exists>s' out'. resp_run strtod (Elements (Suc n) acc) s out = Some (Inr r, s', out') \<and>
      avail s' = rest \<and> single s'"
    using s1(1) by (simp add: resp_run.simps [of strtod "Elements (Suc n) acc"])
qed

lemma reads_entries:
  assumes k: "reads strtod Read mk k" "plain k" and v: "reads strtod Read mv v" and new: "k \<notin> fst ` set acc"
    and tl: "reads strtod (Entries n (acc @ [(k, v)])) msgs r"
  shows "reads strtod (Entries (Suc n) acc) (mk @ mv @ msgs) r"
proof (rule readsI)
  fix s out rest assume s: "single s" "avail s = (mk @ mv @ msgs) @ rest"
  have av: "avail s = mk @ (mv @ msgs @ rest)" using s(2) by simp
  obtain s1 o1 where s1: "resp_run strtod Read s out = Some (Inr k, s1, o1)" "avail s1 = mv @ msgs @ rest" "single s1"
    by (rule readsE [OF k(1) s(1) av])
  obtain s2 o2 where s2: "resp_run strtod Read s1 o1 = Some (Inr v, s2, o2)" "avail s2 = msgs @ rest" "single s2"
    by (rule readsE [OF v s1(3,2)])
  obtain s3 o3 where s3: "resp_run strtod (Entries n (acc @ [(k, v)])) s2 o2 = Some (Inr r, s3, o3)"
      "avail s3 = rest" "single s3"
    by (rule readsE [OF tl s2(3,2)])
  then show "\<exists>s' out'. resp_run strtod (Entries (Suc n) acc) s out = Some (Inr r, s', out') \<and>
      avail s' = rest \<and> single s'"
    using s1(1) s2(1) by (simp add: resp_run.simps [of strtod "Entries (Suc n) acc"] plain_key k(2) hash_put_new new)
qed

lemma reads_end:
  "reads strtod (Elements 0 vs) [] (RArr vs)" "reads strtod (Entries 0 kvs) [] (RHash kvs)"
  by (simp_all add: reads_def resp_run.simps [of strtod "Elements 0 vs"] resp_run.simps [of strtod "Entries 0 kvs"])

lemma show_nat_CR: "CR \<notin> set (show_nat n)"
  using show_nat_digits digit_not by auto

lemma plain_reads:
  "plain v \<Longrightarrow> reads strtod Read (enc v) v"
  "plain_elements vs \<Longrightarrow> reads strtod (Elements (length vs) acc) (enc_elements vs) (RArr (acc @ vs))"
  "plain_entries kvs \<Longrightarrow> distinct (map fst (acc' @ kvs)) \<Longrightarrow>
     reads strtod (Entries (length kvs) acc') (enc_entries kvs) (RHash (acc' @ kvs))"
proof (induction v and vs and kvs arbitrary: and acc and acc' rule: plain_plain_elements_plain_entries.induct)
  case 1
  show ?case using reads_now [of "CHR ''_''" "[]" strtod RNil]
    by (simp add: CR_def resp_run.simps [of strtod Read])
next
  case 2
  show ?case using reads_now [of "CHR ''#''" "''t''" strtod RTrue]
    by (simp add: CR_def resp_run.simps [of strtod Read])
next
  case 3
  show ?case using reads_now [of "CHR ''#''" "''f''" strtod RFalse]
    by (simp add: CR_def resp_run.simps [of strtod Read])
next
  case (4 i)
  have "CR \<notin> set (CHR '':'' # show_long i)" using show_long_CR by (simp add: CR_def)
  with 4 show ?case using reads_now [of "CHR '':''" "show_long i" strtod "RInt i"]
    by (simp add: resp_run.simps [of strtod Read] resp_decode_integer_def strtol_show)
next
  case (5 vs)
  have "CR \<notin> set (CHR ''*'' # show_nat (length vs))" using show_nat_CR by (simp add: CR_def)
  with 5(2) 5(1) [of "[]"] show ?case
    using reads_then [of "CHR ''*''" "show_nat (length vs)" strtod "Elements (length vs) []" "enc_elements vs" "RArr vs"]
    by (simp add: resp_run.simps [of strtod Read] parse_length_show array_too_big_def Let_def)
next
  case (6 kvs)
  have "CR \<notin> set (CHR ''%'' # show_nat (length kvs))" using show_nat_CR by (simp add: CR_def)
  with 6(2) 6(1) [of "[]"] show ?case
    using reads_then [of "CHR ''%''" "show_nat (length kvs)" strtod "Entries (length kvs) []" "enc_entries kvs" "RHash kvs"]
    by (simp add: resp_run.simps [of strtod Read] parse_length_show Let_def)
next
  case (9 v vs)
  then show ?case using 9(2) [of "acc @ [v]"] reads_elements [of strtod "enc v" v "length vs" acc] by simp
next
  case (11 k v kvs)
  then show ?case
    using 11(3) [of "acc' @ [(k, v)]"] reads_entries [of strtod "enc k" k "enc v" v acc' "length kvs"] by simp
qed (simp_all add: reads_end)

lemma plain_encodable:
  "plain v \<Longrightarrow> encodable v"
  "plain_elements vs \<Longrightarrow> encodable_elements vs"
  "plain_entries kvs \<Longrightarrow> encodable_entries kvs"
  by (induction v and vs and kvs rule: plain_plain_elements_plain_entries.induct) auto


definition message_stream :: "char list \<Rightarrow> stream" where
  "message_stream cs = \<lparr>segs = [cs], spos = 0, s_consumed = 0, s_pending = length cs, s_eof = False, feed = []\<rparr>"

lemma message_stream_single: "cs \<noteq> [] \<Longrightarrow> single (message_stream cs)" "avail (message_stream cs) = cs"
  by (simp_all add: message_stream_def single_def stream_ok_def avail_def)


section \<open>Strings\<close>

lemma read_string_single:
  assumes "single s" "avail s = cs @ crlf @ rest" "cs \<noteq> []" "length cs < 2 ^ 63"
  shows "\<exists>s'. resp_read_string (length cs) s = Some (Some cs, s') \<and> avail s' = rest \<and> single s'"
proof -
  obtain x where x: "segs s = [x]" "avail s = drop (spos s) x" "spos s < length x"
    using single_segs [OF assms(1)] assms(2,3) by auto
  have ok: "stream_ok s" using assms(1) by (simp add: single_def)
  have len: "length cs + 2 \<le> length (avail s)" by (simp add: assms(2) crlf_def)
  have dx: "length cs \<le> length x - spos s" using len by (simp add: x(2))
  have ss: "to_ssize (int (length cs)) = int (length cs)" using assms(4) by (simp add: to_ssize_def)
  obtain s' where s': "io_consume_string (length cs) 2 True s = Some (Some (take (length cs) (avail s)), s')"
      "moved (length cs + 2) s s'"
    using consume_moved [OF ok len] by blast
  have "resp_read_string (length cs) s = io_consume_string (length cs) 2 True s"
  proof (cases "length x - spos s = length cs")
    case True
    then show ?thesis using x assms(3)
      by (simp add: resp_read_string_def ss io_read_def io_ready_def read_loop.simps Let_def)
  next
    case False
    then have "length cs < length x - spos s" using dx by simp
    then show ?thesis using x assms(3)
      by (simp add: resp_read_string_def ss io_read_def io_ready_def read_loop.simps Let_def)
  qed
  moreover have "avail s' = rest" using s'(2) by (simp add: moved_def assms(2) crlf_def)
  ultimately show ?thesis using s' moved_single [OF s'(2) assms(1)] by (simp add: assms(2))
qed

lemma run_string:
  assumes "single s" "avail s = bulk_string cs @ rest" "cs \<noteq> []" "length cs < 2 ^ 63"
  shows "\<exists>s'. resp_run strtod Read s out = Some (Inr ROut, s', cs) \<and> avail s' = rest \<and> single s'"
proof -
  have av: "avail s = (CHR ''$'' # show_nat (length cs)) @ crlf @ (cs @ crlf @ rest)"
    using assms(2) by (simp add: bulk_string_def)
  have "CR \<notin> set (CHR ''$'' # show_nat (length cs))" using show_nat_CR by (simp add: CR_def)
  then obtain s1 where s1: "resp_read_line s = Some (Some (CHR ''$'' # show_nat (length cs)), s1)"
      "avail s1 = cs @ crlf @ rest" "single s1"
    by (rule run_line [OF assms(1) av])
  obtain s2 where s2: "resp_read_string (length cs) s1 = Some (Some cs, s2)" "avail s2 = rest" "single s2"
    using read_string_single [OF s1(3,2) assms(3,4)] by blast
  have "resp_run strtod Read s out = resp_decode_string (length cs) s1 (CHR ''$'' # show_nat (length cs))"
    using assms(4) by (simp add: resp_run.simps [of strtod Read s] s1(1) parse_length_show Let_def)
  with s2 show ?thesis by (simp add: resp_decode_string_def)
qed

text \<open>A single string that is not empty is read back from its message as it was.\<close>

theorem resp_string_roundtrip:
  assumes "cs \<noteq> []" "length cs < 2 ^ 63" "single s" "avail s = bulk_string cs @ rest"
  shows "\<exists>s'. IO_resp_read strtod s = Some (Inr (RStr cs), s') \<and> avail s' = rest"
  using run_string [OF assms(3,4,1,2), of strtod "[]"] by (auto simp: IO_resp_read_def resp_read_def)

theorem resp_string_roundtrip_witness:
  "\<exists>s'. IO_resp_read (\<lambda>_. 0) (message_stream (bulk_string [CR, LF] @ ''x'')) = Some (Inr (RStr [CR, LF]), s') \<and>
     avail s' = ''x''"
  using resp_string_roundtrip [of "[CR, LF]" "message_stream (bulk_string [CR, LF] @ ''x'')" "''x''" "\<lambda>_. 0"]
    message_stream_single by simp

text \<open>The strings of an array are all the same object, the buffer passed from read to read: an array of two
  strings is read back as the second string twice.\<close>

theorem resp_strings_alias:
  assumes "a \<noteq> []" "b \<noteq> []" "length a < 2 ^ 63" "length b < 2 ^ 63" "single s"
    and "avail s = enc (RArr [RStr a, RStr b]) @ rest"
  shows "\<exists>s'. IO_resp_read strtod s = Some (Inr (RArr [RStr b, RStr b]), s') \<and> avail s' = rest"
proof -
  have av: "avail s = (CHR ''*'' # show_nat 2) @ crlf @ (bulk_string a @ bulk_string b @ rest)"
    using assms(6) by (simp flip: numeral_2_eq_2)
  have "CR \<notin> set (CHR ''*'' # show_nat 2)" using show_nat_CR by (simp add: CR_def)
  then obtain s1 where s1: "resp_read_line s = Some (Some (CHR ''*'' # show_nat 2), s1)"
      "avail s1 = bulk_string a @ bulk_string b @ rest" "single s1"
    by (rule run_line [OF assms(5) av])
  obtain s2 where s2: "resp_run strtod Read s1 (CHR ''*'' # show_nat 2) = Some (Inr ROut, s2, a)"
      "avail s2 = bulk_string b @ rest" "single s2"
    using run_string [OF s1(3,2) assms(1,3)] by blast
  obtain s3 where s3: "resp_run strtod Read s2 a = Some (Inr ROut, s3, b)" "avail s3 = rest"
    using run_string [OF s2(3,2) assms(2,4)] by blast
  have "resp_run strtod Read s [] = resp_run strtod (Elements 2 []) s1 (CHR ''*'' # show_nat 2)"
    by (simp add: resp_run.simps [of strtod Read s] s1(1) parse_length_show array_too_big_def Let_def)
  moreover have "\<dots> = Some (Inr (RArr [ROut, ROut]), s3, b)"
    by (simp add: resp_run.simps [of strtod "Elements n vs" for n vs] s2(1) s3(1))
  ultimately show ?thesis using s3(2) by (simp add: IO_resp_read_def resp_read_def)
qed

theorem resp_strings_alias_witness:
  "\<exists>s'. IO_resp_read (\<lambda>_. 0) (message_stream (enc (RArr [RStr ''get'', RStr ''key'']))) =
     Some (Inr (RArr [RStr ''key'', RStr ''key'']), s')"
  using resp_strings_alias [of "''get''" "''key''" "message_stream (enc (RArr [RStr ''get'', RStr ''key'']))" "[]"
      "\<lambda>_. 0"] message_stream_single by auto

end
