(* ===== verification/UM_Queue_Props.thy ===== *)
theory UM_Queue_Props
  imports UM_Sync
begin

text \<open>
  Queues (\<^verbatim>\<open>ext/um/um_sync.c\<close>). The list of a queue is read in one direction by \<open>shift\<close> (from the
  head, through \<open>next\<close>) and in the other by \<open>pop\<close> (from the tail, through \<open>prev\<close>). Neither operation
  maintains the links of the other, so the abstraction is stated per direction: a queue emptied from one
  end only refines a list.
\<close>

section \<open>A list read in one direction\<close>

definition one_way :: "(addr \<Rightarrow> addr option) \<Rightarrow> addr option \<Rightarrow> addr option \<Rightarrow> addr list \<Rightarrow> bool" where
  "one_way lk a b es \<longleftrightarrow> chain lk a es \<and> b = (if es = [] then None else Some (last es))"

lemma one_way_Nil [simp]: "one_way lk a b [] \<longleftrightarrow> a = None \<and> b = None"
  by (auto simp: one_way_def)

lemma one_way_ends:
  "one_way lk a b es \<Longrightarrow> a = (if es = [] then None else Some (hd es)) \<and> b = (if es = [] then None else Some (last es))"
  by (cases es) (auto simp: one_way_def)

lemma one_way_cong: "(\<And>e. e \<in> set es \<Longrightarrow> lk e = lk' e) \<Longrightarrow> one_way lk a b es \<longleftrightarrow> one_way lk' a b es"
  using chain_cong [of es lk lk'] by (simp add: one_way_def)

lemma one_way_upd [simp]: "e \<notin> set es \<Longrightarrow> one_way (lk(e := p)) a b es \<longleftrightarrow> one_way lk a b es"
  by (simp add: one_way_def)

lemma one_way_cons:
  assumes "one_way lk a b es" "e \<notin> set es" "lk' e = a" "\<And>x. x \<in> set es \<Longrightarrow> lk' x = lk x"
  shows "one_way lk' (Some e) (if es = [] then Some e else b) (e # es)"
  using assms chain_cong [of es lk' lk] by (auto simp: one_way_def)

lemma one_way_snoc:
  assumes "one_way lk a b es" "e \<notin> set es" "lk' e = None" "es \<noteq> [] \<Longrightarrow> lk' (last es) = Some e"
    and "\<And>x. x \<in> set es \<Longrightarrow> x \<noteq> last es \<Longrightarrow> lk' x = lk x"
  shows "one_way lk' (if es = [] then Some e else a) (Some e) (es @ [e])"
proof (cases "es = []")
  case True
  with assms(3) show ?thesis by (simp add: one_way_def)
next
  case False
  have ch: "chain lk a es" using assms(1) by (simp add: one_way_def)
  have "chain lk' a (es @ [e]) = chain (lk(last es := Some e, e := None)) a (es @ [e])"
    by (rule chain_cong) (use assms False in auto)
  then show ?thesis
    using chain_push_tail [OF ch chain_distinct [OF ch] assms(2) False] False by (simp add: one_way_def)
qed

lemma one_way_tl:
  "one_way lk a b (e # es) \<Longrightarrow> one_way lk (lk e) (if lk e = None then None else b) es"
  by (cases es) (auto simp: one_way_def)

section \<open>The entries of a queue\<close>

definition enext :: "um_heap \<Rightarrow> addr \<Rightarrow> addr option" where
  "enext h e = entry_next (entries h e)"

definition eprev :: "um_heap \<Rightarrow> addr \<Rightarrow> addr option" where
  "eprev h e = entry_prev (entries h e)"

lemma links_upd_queue [simp]: "enext (upd_queue q f h) = enext h" "eprev (upd_queue q f h) = eprev h"
  by (simp_all add: enext_def eprev_def fun_eq_iff)

text \<open>\<open>opn\<close> is the operation the queue is emptied with.\<close>

definition queue_list :: "queue_op \<Rightarrow> um_heap \<Rightarrow> nat \<Rightarrow> addr list \<Rightarrow> bool" where
  "queue_list opn h q es \<longleftrightarrow>
     (case opn of
        QUEUE_SHIFT \<Rightarrow> one_way (enext h) (queue_head (queues h q)) (queue_tail (queues h q)) es
      | QUEUE_POP \<Rightarrow> one_way (eprev h) (queue_tail (queues h q)) (queue_head (queues h q)) (rev es))"

definition entries_ok :: "um_heap \<Rightarrow> nat \<Rightarrow> addr list \<Rightarrow> addr list \<Rightarrow> bool" where
  "entries_ok h q es fs \<longleftrightarrow> chain (enext h) (queue_free_head (queues h q)) fs \<and> distinct (es @ fs) \<and>
     (\<forall>e \<in> set (es @ fs). e < entry_fresh h \<and> e \<in> entries_live h)"

definition entry_values :: "um_heap \<Rightarrow> addr list \<Rightarrow> rvalue list" where
  "entry_values h es = map (\<lambda>e. entry_value (entries h e)) es"

lemma checkout_entry:
  assumes "entries_ok h q es fs"
  obtains e h' fs' where "um_queue_entry_checkout q h = (e, h')" "entries_ok h' q (e # es) fs'"
    "entries h' = entries h" "queue_head (queues h' q) = queue_head (queues h q)"
    "queue_tail (queues h' q) = queue_tail (queues h q)"
proof (cases fs)
  case Nil
  have "entry_fresh h \<notin> set es" using assms by (auto simp: entries_ok_def)
  then have "entries_ok (h\<lparr>entries_live := insert (entry_fresh h) (entries_live h), entry_fresh := entry_fresh h + 1\<rparr>)
      q (entry_fresh h # es) []"
    using assms Nil by (auto simp: entries_ok_def)
  with assms Nil show ?thesis
    by (intro that [of "entry_fresh h" "h\<lparr>entries_live := insert (entry_fresh h) (entries_live h),
        entry_fresh := entry_fresh h + 1\<rparr>" "[]"]) (auto simp: um_queue_entry_checkout_def entries_ok_def)
next
  case (Cons e fs')
  then have e: "queue_free_head (queues h q) = Some e" using assms by (simp add: entries_ok_def)
  have "entries_ok (upd_queue q (\<lambda>x. x\<lparr>queue_free_head := entry_next (entries h e)\<rparr>) h) q (e # es) fs'"
    using assms Cons by (auto simp: entries_ok_def enext_def)
  with e show ?thesis
    by (intro that [of e "upd_queue q (\<lambda>x. x\<lparr>queue_free_head := entry_next (entries h e)\<rparr>) h" fs'])
      (auto simp: um_queue_entry_checkout_def)
qed

text \<open>Changing entries of the list, and the list itself, leaves the free entries as they are.\<close>

lemma entries_ok_frame:
  assumes "entries_ok h q es fs" "set es' = set es" "distinct es'"
    and "queue_free_head (queues h' q) = queue_free_head (queues h q)" "entries_live h' = entries_live h"
    and "entry_fresh h' = entry_fresh h" "\<And>e. e \<notin> set es \<Longrightarrow> entries h' e = entries h e"
  shows "entries_ok h' q es' fs"
proof -
  have "entries h' e = entries h e" if "e \<in> set fs" for e
    using assms(1,7) that by (auto simp: entries_ok_def)
  then have "chain (enext h') (queue_free_head (queues h q)) fs = chain (enext h) (queue_free_head (queues h q)) fs"
    by (intro chain_cong) (simp add: enext_def)
  then show ?thesis using assms by (auto simp: entries_ok_def)
qed

lemma add_tail_entry:
  assumes l: "queue_list opn h q es" and ok: "entries_ok h q es fs"
  shows "\<exists>e fs'. queue_list opn (queue_add_tail q h v) q (es @ [e]) \<and>
    entries_ok (queue_add_tail q h v) q (es @ [e]) fs' \<and>
    entry_values (queue_add_tail q h v) (es @ [e]) = entry_values h es @ [v]"
proof -
  obtain e h1 fs' where c: "um_queue_entry_checkout q h = (e, h1)" "entries_ok h1 q (e # es) fs'"
    "entries h1 = entries h" "queue_head (queues h1 q) = queue_head (queues h q)"
    "queue_tail (queues h1 q) = queue_tail (queues h q)" using checkout_entry [OF ok] .
  let ?h = "queue_add_tail q h v"
  have e: "e \<notin> set es" "distinct es" using c(2) by (auto simp: entries_ok_def)
  have t: "queue_tail (queues h q) = (if es = [] then None else Some (last es))"
    and hd': "queue_head (queues h q) = (if es = [] then None else Some (hd es))"
    using l one_way_ends by (fastforce simp: queue_list_def last_rev hd_rev split: queue_op.splits)+
  have f: "entries ?h = (\<lambda>x. if x = e then (entries h e)\<lparr>entry_prev := queue_tail (queues h q), entry_next := None, entry_value := v\<rparr>
      else if es \<noteq> [] \<and> x = last es then (entries h x)\<lparr>entry_next := Some e\<rparr> else entries h x)"
    "queue_head (queues ?h q) = (if es = [] then Some e else queue_head (queues h q))"
    "queue_tail (queues ?h q) = Some e" "queue_free_head (queues ?h q) = queue_free_head (queues h1 q)"
    "entries_live ?h = entries_live h1" "entry_fresh ?h = entry_fresh h1"
    using e t c by (auto simp: queue_add_tail_def fun_eq_iff)
  have "entries_ok ?h q (es @ [e]) fs'"
    by (rule entries_ok_frame [OF c(2)]) (use e f c(3) in auto)
  moreover have "queue_list opn ?h q (es @ [e])"
  proof (cases opn)
    case QUEUE_SHIFT
    have "one_way (enext ?h) (if es = [] then Some e else queue_head (queues h q)) (Some e) (es @ [e])"
      by (rule one_way_snoc [of "enext h" _ "queue_tail (queues h q)"])
        (use l e f(1) QUEUE_SHIFT in \<open>auto simp: queue_list_def enext_def\<close>)
    with f(2,3) QUEUE_SHIFT show ?thesis by (simp add: queue_list_def)
  next
    case QUEUE_POP
    have "one_way (eprev ?h) (Some e) (if rev es = [] then Some e else queue_head (queues h q)) (e # rev es)"
      by (rule one_way_cons [of "eprev h" "queue_tail (queues h q)"])
        (use l e f(1) QUEUE_POP in \<open>auto simp: queue_list_def eprev_def\<close>)
    with f(2,3) QUEUE_POP show ?thesis by (simp add: queue_list_def)
  qed
  moreover have "entry_values ?h (es @ [e]) = entry_values h es @ [v]"
    using e f(1) by (auto simp: entry_values_def)
  ultimately show ?thesis by blast
qed

lemma add_head_entry:
  assumes l: "queue_list opn h q es" and ok: "entries_ok h q es fs"
  shows "\<exists>e fs'. queue_list opn (queue_add_head q h v) q (e # es) \<and>
    entries_ok (queue_add_head q h v) q (e # es) fs' \<and>
    entry_values (queue_add_head q h v) (e # es) = v # entry_values h es"
proof -
  obtain e h1 fs' where c: "um_queue_entry_checkout q h = (e, h1)" "entries_ok h1 q (e # es) fs'"
    "entries h1 = entries h" "queue_head (queues h1 q) = queue_head (queues h q)"
    "queue_tail (queues h1 q) = queue_tail (queues h q)" using checkout_entry [OF ok] .
  let ?h = "queue_add_head q h v"
  have e: "e \<notin> set es" "distinct es" using c(2) by (auto simp: entries_ok_def)
  have t: "queue_tail (queues h q) = (if es = [] then None else Some (last es))"
    and hd': "queue_head (queues h q) = (if es = [] then None else Some (hd es))"
    using l one_way_ends by (fastforce simp: queue_list_def last_rev hd_rev split: queue_op.splits)+
  have f: "entries ?h = (\<lambda>x. if x = e then (entries h e)\<lparr>entry_next := queue_head (queues h q), entry_prev := None, entry_value := v\<rparr>
      else if es \<noteq> [] \<and> x = hd es then (entries h x)\<lparr>entry_prev := Some e\<rparr> else entries h x)"
    "queue_tail (queues ?h q) = (if es = [] then Some e else queue_tail (queues h q))"
    "queue_head (queues ?h q) = Some e" "queue_free_head (queues ?h q) = queue_free_head (queues h1 q)"
    "entries_live ?h = entries_live h1" "entry_fresh ?h = entry_fresh h1"
    using e hd' c by (auto simp: queue_add_head_def fun_eq_iff)
  have "entries_ok ?h q (e # es) fs'"
    by (rule entries_ok_frame [OF c(2)]) (use e f c(3) in auto)
  moreover have "queue_list opn ?h q (e # es)"
  proof (cases opn)
    case QUEUE_POP
    have "one_way (eprev ?h) (if rev es = [] then Some e else queue_tail (queues h q)) (Some e) (rev es @ [e])"
      by (rule one_way_snoc [of "eprev h" _ "queue_head (queues h q)"])
        (use l e f(1) QUEUE_POP in \<open>auto simp: queue_list_def eprev_def last_rev\<close>)
    with f(2,3) QUEUE_POP show ?thesis by (simp add: queue_list_def)
  next
    case QUEUE_SHIFT
    have "one_way (enext ?h) (Some e) (if es = [] then Some e else queue_tail (queues h q)) (e # es)"
      by (rule one_way_cons [of "enext h" "queue_head (queues h q)"])
        (use l e f(1) QUEUE_SHIFT in \<open>auto simp: queue_list_def enext_def\<close>)
    with f(2,3) QUEUE_SHIFT show ?thesis by (simp add: queue_list_def)
  qed
  moreover have "entry_values ?h (e # es) = v # entry_values h es"
    using e f(1) by (auto simp: entry_values_def)
  ultimately show ?thesis by blast
qed

lemma remove_head_entry:
  assumes l: "queue_list QUEUE_SHIFT h q (e # es)" and ok: "entries_ok h q (e # es) fs"
  shows "\<exists>h'. queue_remove_head q h = Some (entry_value (entries h e), h') \<and>
    queue_list QUEUE_SHIFT h' q es \<and> entries_ok h' q es (e # fs) \<and> entry_values h' es = entry_values h es"
proof -
  have w: "one_way (enext h) (Some e) (queue_tail (queues h q)) (e # es)" "queue_head (queues h q) = Some e"
    using l one_way_ends [of "enext h"] by (fastforce simp: queue_list_def)+
  let ?u = "upd_queue q (\<lambda>x. x\<lparr>queue_head := enext h e,
      queue_tail := (if enext h e = None then None else queue_tail x)\<rparr>) h"
  let ?h = "um_queue_entry_checkin q e ?u"
  have rm: "queue_remove_head q h = Some (entry_value (entries h e), ?h)"
    using w(2) by (simp add: queue_remove_head_def enext_def Let_def)
  have f: "queue_head (queues ?h q) = enext h e" "queue_free_head (queues ?h q) = Some e"
    "queue_tail (queues ?h q) = (if enext h e = None then None else queue_tail (queues h q))"
    "entries ?h = (entries h)(e := (entries h e)\<lparr>entry_next := queue_free_head (queues h q)\<rparr>)"
    "entries_live ?h = entries_live h" "entry_fresh ?h = entry_fresh h"
    by (simp_all add: um_queue_entry_checkin_def)
  have e: "e \<notin> set es" "e \<notin> set fs" using ok by (auto simp: entries_ok_def)
  have "enext ?h = (enext h)(e := queue_free_head (queues h q))" using f(4) by (auto simp: enext_def)
  then have "queue_list QUEUE_SHIFT ?h q es \<and> entries_ok ?h q es (e # fs)"
    using one_way_tl [OF w(1)] ok e f
    by (auto simp: queue_list_def entries_ok_def)
  moreover have "entry_values ?h es = entry_values h es" using e f(4) by (auto simp: entry_values_def)
  ultimately show ?thesis using rm by blast
qed

lemma remove_tail_entry:
  assumes l: "queue_list QUEUE_POP h q (es @ [e])" and ok: "entries_ok h q (es @ [e]) fs"
  shows "\<exists>h'. queue_remove_tail q h = Some (entry_value (entries h e), h') \<and>
    queue_list QUEUE_POP h' q es \<and> entries_ok h' q es (e # fs) \<and> entry_values h' es = entry_values h es"
proof -
  have w: "one_way (eprev h) (Some e) (queue_head (queues h q)) (e # rev es)" "queue_tail (queues h q) = Some e"
    using l one_way_ends [of "eprev h"] by (fastforce simp: queue_list_def)+
  let ?u = "upd_queue q (\<lambda>x. x\<lparr>queue_tail := eprev h e,
      queue_head := (if eprev h e = None then None else queue_head x)\<rparr>) h"
  let ?h = "um_queue_entry_checkin q e ?u"
  have rm: "queue_remove_tail q h = Some (entry_value (entries h e), ?h)"
    using w(2) by (simp add: queue_remove_tail_def eprev_def Let_def)
  have f: "queue_tail (queues ?h q) = eprev h e" "queue_free_head (queues ?h q) = Some e"
    "queue_head (queues ?h q) = (if eprev h e = None then None else queue_head (queues h q))"
    "entries ?h = (entries h)(e := (entries h e)\<lparr>entry_next := queue_free_head (queues h q)\<rparr>)"
    "entries_live ?h = entries_live h" "entry_fresh ?h = entry_fresh h"
    by (simp_all add: um_queue_entry_checkin_def)
  have e: "e \<notin> set es" "e \<notin> set fs" using ok by (auto simp: entries_ok_def)
  have "eprev ?h = eprev h" "enext ?h = (enext h)(e := queue_free_head (queues h q))"
    using f(4) by (auto simp: eprev_def enext_def)
  then have "queue_list QUEUE_POP ?h q es \<and> entries_ok ?h q es (e # fs)"
    using one_way_tl [OF w(1)] ok e f by (auto simp: queue_list_def entries_ok_def)
  moreover have "entry_values ?h es = entry_values h es" using e f(4) by (auto simp: entry_values_def)
  ultimately show ?thesis using rm by blast
qed

section \<open>Queues as lists of values\<close>

text \<open>Nobody waits on the queue \<open>q\<close>, which holds the values \<open>vs\<close> and is emptied with \<open>opn\<close>.\<close>

definition queue_ok :: "queue_op \<Rightarrow> um \<Rightarrow> nat \<Rightarrow> rvalue list \<Rightarrow> bool" where
  "queue_ok opn m q vs \<longleftrightarrow> queue_waiters (queue_of m q) = 0 \<and>
     queue_count (queue_of m q) = of_nat (length vs) \<and>
     queue_state (queue_of m q) = (if vs = [] then QUEUE_EMPTY else QUEUE_READY) \<and>
     (\<exists>es fs. queue_list opn (heap m) q es \<and> entries_ok (heap m) q es fs \<and> entry_values (heap m) es = vs)"

definition queue_remove :: "queue_op \<Rightarrow> (nat \<Rightarrow> nat \<Rightarrow> rvalue comp) \<Rightarrow> int \<Rightarrow> nat \<Rightarrow> rvalue comp" where
  "queue_remove opn = (case opn of QUEUE_POP \<Rightarrow> um_queue_pop | QUEUE_SHIFT \<Rightarrow> um_queue_shift)"

lemma heap_upd_heap [simp]: "heap (upd_heap f m) = f (heap m)"
  by (simp add: upd_heap_def)

lemma queue_frame [simp]:
  "queue_waiters (queues (queue_add_tail q h v) q) = queue_waiters (queues h q)"
  "queue_waiters (queues (queue_add_head q h v) q) = queue_waiters (queues h q)"
  "queue_count (queues (queue_add_tail q h v) q) = queue_count (queues h q)"
  "queue_count (queues (queue_add_head q h v) q) = queue_count (queues h q)"
  "queue_self (queues (queue_add_tail q h v) q) = queue_self (queues h q)"
  "queue_self (queues (queue_add_head q h v) q) = queue_self (queues h q)"
  by (auto simp: queue_add_tail_def queue_add_head_def um_queue_entry_checkout_def Let_def split: option.splits)

text \<open>The counters of a queue are not part of its lists.\<close>

lemma counters_frame:
  assumes "\<And>x. queue_head (f x) = queue_head x" "\<And>x. queue_tail (f x) = queue_tail x"
    and "\<And>x. queue_free_head (f x) = queue_free_head x"
  shows "queue_list opn (upd_queue q f h) q es = queue_list opn h q es"
    "entries_ok (upd_queue q f h) q es fs = entries_ok h q es fs"
    "entry_values (upd_queue q f h) es = entry_values h es"
  using assms by (simp_all add: queue_list_def entries_ok_def entry_values_def enext_def [abs_def] eprev_def [abs_def]
      split: queue_op.splits)

lemma add_ok:
  assumes "queue_ok opn m q vs"
  shows "\<exists>m'. um_queue_add r q v add_head m = Some (Inr (queue_self (queue_of m q)), m') \<and>
    queue_ok opn m' q (if add_head then v # vs else vs @ [v])"
proof -
  obtain es fs where l: "queue_list opn (heap m) q es" "entries_ok (heap m) q es fs" "entry_values (heap m) es = vs"
    using assms by (auto simp: queue_ok_def)
  let ?h = "if add_head then queue_add_head q (heap m) v else queue_add_tail q (heap m) v"
  let ?f = "\<lambda>x. x\<lparr>queue_count := queue_count x + 1, queue_state := QUEUE_READY\<rparr>"
  let ?m = "upd_heap (upd_queue q ?f) (upd_heap (\<lambda>h. ?h) m)"
  have c: "queue_waiters (queue_of m q) = 0" "queue_count (queue_of m q) = of_nat (length vs)"
    using assms by (simp_all add: queue_ok_def)
  have "\<exists>es' fs'. queue_list opn ?h q es' \<and> entries_ok ?h q es' fs' \<and>
      entry_values ?h es' = (if add_head then v # vs else vs @ [v])"
    using add_tail_entry [OF l(1,2), of v] add_head_entry [OF l(1,2), of v] l(3) by (cases add_head) (simp, blast)+
  then have "queue_ok opn ?m q (if add_head then v # vs else vs @ [v])"
    using c counters_frame [of ?f] by (cases add_head) (simp_all add: queue_ok_def add.commute)
  moreover have "um_queue_add r q v add_head m = Some (Inr (queue_self (queue_of m q)), ?m)"
    using c(1) by (cases add_head) (simp_all add: um_queue_add_def upd_heap_def)
  ultimately show ?thesis by blast
qed

lemma remove_entry:
  assumes "queue_list opn h q es" "entries_ok h q es fs" "es \<noteq> []"
  shows "\<exists>h' es' fs'. (case opn of QUEUE_POP \<Rightarrow> queue_remove_tail q h | QUEUE_SHIFT \<Rightarrow> queue_remove_head q h) =
      Some (if opn = QUEUE_POP then last (entry_values h es) else hd (entry_values h es), h') \<and>
    queue_list opn h' q es' \<and> entries_ok h' q es' fs' \<and>
    entry_values h' es' = (if opn = QUEUE_POP then butlast (entry_values h es) else tl (entry_values h es))"
proof (cases opn)
  case QUEUE_POP
  then have es: "es = butlast es @ [last es]" using assms(3) by simp
  then obtain h' where "queue_remove_tail q h = Some (entry_value (entries h (last es)), h')"
      "queue_list QUEUE_POP h' q (butlast es)" "entries_ok h' q (butlast es) (last es # fs)"
      "entry_values h' (butlast es) = entry_values h (butlast es)"
    using remove_tail_entry [of h q "butlast es" "last es" fs] assms QUEUE_POP by auto
  then show ?thesis using assms(3) QUEUE_POP
    by (intro exI [of _ h'] exI [of _ "butlast es"] exI [of _ "last es # fs"])
      (simp add: entry_values_def last_map map_butlast)
next
  case QUEUE_SHIFT
  then have es: "es = hd es # tl es" using assms(3) by simp
  then obtain h' where "queue_remove_head q h = Some (entry_value (entries h (hd es)), h')"
      "queue_list QUEUE_SHIFT h' q (tl es)" "entries_ok h' q (tl es) (hd es # fs)"
      "entry_values h' (tl es) = entry_values h (tl es)"
    using remove_head_entry [of h q "hd es" "tl es" fs] assms QUEUE_SHIFT by auto
  then show ?thesis using assms(3) QUEUE_SHIFT
    by (intro exI [of _ h'] exI [of _ "tl es"] exI [of _ "hd es # fs"])
      (simp add: entry_values_def hd_map map_tl)
qed

lemma remove_counters:
  assumes "(case opn of QUEUE_POP \<Rightarrow> queue_remove_tail q h | QUEUE_SHIFT \<Rightarrow> queue_remove_head q h) = Some (v, h')"
  shows "queue_waiters (queues h' q) = queue_waiters (queues h q)" "queue_count (queues h' q) = queue_count (queues h q)"
    "queue_state (queues h' q) = queue_state (queues h q)"
  using assms
  by (auto simp: queue_remove_tail_def queue_remove_head_def um_queue_entry_checkin_def Let_def
      split: queue_op.splits option.splits)

lemma queue_remove_alt:
  "queue_remove opn sw r q = rb_ensure (um_queue_remove_start sw q opn) (um_queue_remove_complete r q)"
  by (cases opn) (simp_all add: queue_remove_def um_queue_pop_def um_queue_shift_def fun_eq_iff)

lemma queue_list_tail:
  "queue_list opn h q es \<Longrightarrow> queue_tail (queues h q) = None \<longleftrightarrow> es = []"
  using one_way_ends [of "enext h" "queue_head (queues h q)" "queue_tail (queues h q)" es]
    one_way_ends [of "eprev h" "queue_tail (queues h q)" "queue_head (queues h q)" "rev es"]
  by (auto simp: queue_list_def split: queue_op.splits)

lemma take_ok:
  assumes ok: "queue_ok opn m q vs" and vs: "vs \<noteq> []"
  shows "\<exists>m'. queue_remove opn sw r q m =
      Some (Inr (if opn = QUEUE_POP then last vs else hd vs), m') \<and>
    queue_ok opn m' q (if opn = QUEUE_POP then butlast vs else tl vs)"
proof -
  let ?enter = "upd_queue q (\<lambda>x. x\<lparr>queue_waiters := queue_waiters x + 1\<rparr>)"
  let ?count = "upd_queue q (\<lambda>x. x\<lparr>queue_count := queue_count x - 1\<rparr>)"
  let ?leave = "upd_queue q (\<lambda>x. x\<lparr>queue_waiters := queue_waiters x - 1\<rparr>)"
  let ?empty = "upd_queue q (\<lambda>x. x\<lparr>queue_state := QUEUE_EMPTY\<rparr>)"
  let ?v = "if opn = QUEUE_POP then last vs else hd vs"
  let ?vs = "if opn = QUEUE_POP then butlast vs else tl vs"
  let ?h = "?count (?enter (heap m))"
  have c: "queue_waiters (queue_of m q) = 0" "queue_count (queue_of m q) = of_nat (length vs)"
    "queue_state (queue_of m q) = QUEUE_READY" using ok vs by (simp_all add: queue_ok_def)
  obtain es fs where l: "queue_list opn (heap m) q es" "entries_ok (heap m) q es fs" "entry_values (heap m) es = vs"
    using ok by (auto simp: queue_ok_def)
  have h: "queue_list opn ?h q es" "entries_ok ?h q es fs" "entry_values ?h es = vs"
    using l by (simp_all add: counters_frame)
  have "es \<noteq> []" using l(3) vs by (auto simp: entry_values_def)
  then obtain h' es' fs' where rm: "(case opn of QUEUE_POP \<Rightarrow> queue_remove_tail q ?h | QUEUE_SHIFT \<Rightarrow> queue_remove_head q ?h)
      = Some (?v, h')" and l': "queue_list opn h' q es'" "entries_ok h' q es' fs'" "entry_values h' es' = ?vs"
    using remove_entry [OF h(1,2)] h(3) by auto
  note k = remove_counters [OF rm]
  have tail: "queue_tail (queues h' q) = None \<longleftrightarrow> ?vs = []"
    using queue_list_tail [OF l'(1)] l'(3) by (auto simp: entry_values_def)
  let ?h2 = "if ?vs = [] then ?empty (?leave h') else ?leave h'"
  have start: "um_queue_remove_start sw q opn m = Some (Inr ?v, m\<lparr>heap := h'\<rparr>)"
    using rm c(3)
    by (cases opn) (auto simp: um_queue_remove_start_def queue_wait_loop.simps queue_take_def
        andthen_def upd_heap_def QUEUE_EMPTY_def QUEUE_READY_def Let_def)
  have "um_queue_remove_complete r q (m\<lparr>heap := h'\<rparr>) = Some (Inr Qnil, m\<lparr>heap := ?h2\<rparr>)"
    using k(1) c(1) tail by (auto simp: um_queue_remove_complete_def upd_heap_def)
  then have "queue_remove opn sw r q m = Some (Inr ?v, m\<lparr>heap := ?h2\<rparr>)"
    using start by (simp add: queue_remove_alt rb_ensure_def)
  moreover have "length ?vs = length vs - 1" by simp
  then have "(of_nat (length ?vs) :: u32) = of_nat (length vs) - 1"
    using vs by (cases vs) (auto simp: of_nat_diff)
  then have "queue_ok opn (m\<lparr>heap := ?h2\<rparr>) q ?vs"
    using k c l' vs
    by (cases "?vs = []") (auto simp: queue_ok_def counters_frame)
  ultimately show ?thesis by blast
qed

text \<open>C33. As long as nobody waits, a queue that is emptied from one end only is a list: pushing appends, unshifting
  prepends, and taking a value, by \<open>shift\<close> from the front or by \<open>pop\<close> from the back, returns that value
  and removes it, without blocking. The count, the state word and the list of free entries stay consistent.\<close>

theorem queue_refines_list:
  assumes "queue_ok opn m q vs"
  shows "(\<exists>m'. um_queue_push r q v m = Some (Inr (queue_self (queue_of m q)), m') \<and> queue_ok opn m' q (vs @ [v])) \<and>
    (\<exists>m'. um_queue_unshift r q v m = Some (Inr (queue_self (queue_of m q)), m') \<and> queue_ok opn m' q (v # vs)) \<and>
    (vs \<noteq> [] \<longrightarrow>
      (if opn = QUEUE_POP
       then \<exists>m'. um_queue_pop sw r q m = Some (Inr (last vs), m') \<and> queue_ok opn m' q (butlast vs)
       else \<exists>m'. um_queue_shift sw r q m = Some (Inr (hd vs), m') \<and> queue_ok opn m' q (tl vs)))"
proof (intro conjI impI)
  show "\<exists>m'. um_queue_push r q v m = Some (Inr (queue_self (queue_of m q)), m') \<and> queue_ok opn m' q (vs @ [v])"
    using add_ok [OF assms, of r v False] by (simp add: um_queue_push_def)
  show "\<exists>m'. um_queue_unshift r q v m = Some (Inr (queue_self (queue_of m q)), m') \<and> queue_ok opn m' q (v # vs)"
    using add_ok [OF assms, of r v True] by (simp add: um_queue_unshift_def)
  assume "vs \<noteq> []"
  from take_ok [OF assms this, of sw r] show "if opn = QUEUE_POP
       then \<exists>m'. um_queue_pop sw r q m = Some (Inr (last vs), m') \<and> queue_ok opn m' q (butlast vs)
       else \<exists>m'. um_queue_shift sw r q m = Some (Inr (hd vs), m') \<and> queue_ok opn m' q (tl vs)"
    by (cases opn) (simp_all add: queue_remove_def)
qed

text \<open>An initialised queue is empty, for both ways of emptying it.\<close>

lemma init_ok: "queue_waiters (queue_of m q) = 0 \<Longrightarrow> queue_ok opn (upd_heap (um_queue_init q) m) q []"
  by (auto simp: queue_ok_def um_queue_init_def queue_list_def entries_ok_def entry_values_def
      split: queue_op.splits)

definition empty_queue :: um where
  "empty_queue = upd_heap (um_queue_init 0) um_zero"

lemma empty_queue_ok: "queue_ok opn empty_queue 0 []"
  unfolding empty_queue_def by (rule init_ok) (simp add: um_zero_def heap_zero_def)

definition queue_of_one :: um where
  "queue_of_one = snd (the (um_queue_push 0 0 Qtrue empty_queue))"

lemma queue_of_one_ok: "queue_ok opn queue_of_one 0 [Qtrue]"
  using add_ok [OF empty_queue_ok [of opn], of 0 Qtrue False]
  by (auto simp: queue_of_one_def um_queue_push_def)

theorem queue_refines_list_witness:
  "(\<exists>m'. um_queue_push 0 0 Qnil queue_of_one = Some (Inr (queue_self (queue_of queue_of_one 0)), m') \<and>
      queue_ok QUEUE_POP m' 0 ([Qtrue] @ [Qnil])) \<or>
   (\<exists>m'. um_queue_pop (\<lambda>_ _. ret Qnil) 0 0 queue_of_one = Some (Inr Qtrue, m') \<and> queue_ok QUEUE_POP m' 0 [])"
  using queue_refines_list [OF queue_of_one_ok [of QUEUE_POP], of 0 Qnil "\<lambda>_ _. ret Qnil"] by simp

section \<open>First in, first out\<close>

text \<open>Queue 0, emptied with \<open>shift\<close>, implements the interface of a first-in first-out list.\<close>

definition queue_put :: "um \<Rightarrow> rvalue \<Rightarrow> um" where
  "queue_put m v = snd (the (um_queue_push 0 0 v m))"

definition queue_get :: "um \<Rightarrow> rvalue option \<times> um" where
  "queue_get m =
     (if queue_state (queue_of m 0) = QUEUE_EMPTY then (None, m)
      else case um_queue_shift (\<lambda>_ _. ret Qnil) 0 0 m of
             Some (Inr v, m') \<Rightarrow> (Some v, m')
           | _ \<Rightarrow> (None, m))"

interpretation queue0: fifo queue_put queue_get "\<lambda>m. queue_ok QUEUE_SHIFT m 0" "\<lambda>_ _. True"
proof
  fix m vs v
  show "queue_ok QUEUE_SHIFT m 0 vs \<Longrightarrow> queue_ok QUEUE_SHIFT (queue_put m v) 0 (vs @ [v])"
    using add_ok [of QUEUE_SHIFT m 0 vs 0 v False] by (auto simp: queue_put_def um_queue_push_def)
  show "queue_ok QUEUE_SHIFT m 0 [] \<Longrightarrow> queue_get m = (None, m)"
    by (simp add: queue_get_def queue_ok_def)
  assume ok: "queue_ok QUEUE_SHIFT m 0 (v # vs)"
  then have "queue_state (queue_of m 0) \<noteq> QUEUE_EMPTY"
    by (simp add: queue_ok_def QUEUE_EMPTY_def QUEUE_READY_def)
  with take_ok [OF ok, of "\<lambda>_ _. ret Qnil" 0]
  show "\<exists>m'. queue_get m = (Some v, m') \<and> queue_ok QUEUE_SHIFT m' 0 vs"
    by (auto simp: queue_get_def queue_remove_def)
qed

text \<open>Values pushed to a new queue are shifted off it in the order in which they were pushed.\<close>

theorem queue_fifo:
  "fst (queue0.drain (length vs) (foldl queue_put empty_queue vs)) = vs"
  by (rule queue0.fifo_order [OF empty_queue_ok]) simp

section \<open>Emptying a queue from both ends\<close>

text \<open>Taking a value when nobody waits.\<close>

definition queue_leave :: "nat \<Rightarrow> um_heap \<Rightarrow> um_heap" where
  "queue_leave q = upd_queue q (\<lambda>x. x\<lparr>queue_waiters := queue_waiters x - 1,
     queue_state := (if queue_tail x = None then QUEUE_EMPTY else queue_state x)\<rparr>)"

lemma take_step:
  assumes "queue_state (queue_of m q) = QUEUE_READY" "queue_waiters (queue_of m q) = 0"
    and "(case opn of QUEUE_POP \<Rightarrow> queue_remove_tail q | QUEUE_SHIFT \<Rightarrow> queue_remove_head q)
      (upd_queue q (\<lambda>x. x\<lparr>queue_waiters := queue_waiters x + 1, queue_count := queue_count x - 1\<rparr>) (heap m)) = Some (v, h)"
  shows "queue_remove opn sw r q m = Some (Inr v, m\<lparr>heap := queue_leave q h\<rparr>)"
proof -
  have "(case opn of QUEUE_POP \<Rightarrow> queue_remove_tail q
      (upd_queue q (\<lambda>x. x\<lparr>queue_waiters := queue_waiters x + 1, queue_count := queue_count x - 1\<rparr>) (heap m))
    | QUEUE_SHIFT \<Rightarrow> queue_remove_head q
      (upd_queue q (\<lambda>x. x\<lparr>queue_waiters := queue_waiters x + 1, queue_count := queue_count x - 1\<rparr>) (heap m))) = Some (v, h)"
    using assms(3) by (cases opn) simp_all
  note rm = this remove_counters [OF this]
  have u: "upd_queue q f (upd_queue q g h) = upd_queue q (\<lambda>x. f (g x)) h" for f g h
    by (simp add: upd_queue_def)
  have "um_queue_remove_start sw q opn m = Some (Inr v, m\<lparr>heap := h\<rparr>)"
    using rm(1) assms(1)
    by (cases opn) (auto simp: um_queue_remove_start_def queue_wait_loop.simps queue_take_def u
        andthen_def upd_heap_def QUEUE_EMPTY_def QUEUE_READY_def Let_def)
  moreover have "um_queue_remove_complete r q (m\<lparr>heap := h\<rparr>) = Some (Inr Qnil, m\<lparr>heap := queue_leave q h\<rparr>)"
    using rm(2) assms(2) by (auto simp: um_queue_remove_complete_def upd_heap_def queue_leave_def u upd_queue_def)
  ultimately show ?thesis by (simp add: queue_remove_alt rb_ensure_def)
qed

text \<open>
  \<open>pop\<close> leaves the link from the new tail to the entry it removed: with the two entries \<open>x\<close> and \<open>y\<close> in
  the queue, \<open>pop\<close> frees \<open>y\<close>, \<open>shift\<close> then takes \<open>x\<close> and finds \<open>y\<close> behind it.
\<close>

definition two_entries :: "um_heap \<Rightarrow> nat \<Rightarrow> addr \<Rightarrow> addr \<Rightarrow> bool" where
  "two_entries h q x y \<longleftrightarrow> x \<noteq> y \<and> queue_head (queues h q) = Some x \<and> queue_tail (queues h q) = Some y \<and>
     enext h x = Some y \<and> eprev h x = None \<and> eprev h y = Some x"

lemma pop_keeps_link:
  assumes "two_entries h q x y"
  shows "\<exists>h'. queue_remove_tail q h = Some (entry_value (entries h y), h') \<and>
    queue_head (queues h' q) = Some x \<and> queue_tail (queues h' q) = Some x \<and> enext h' x = Some y \<and>
    entry_value (entries h' x) = entry_value (entries h x) \<and> entry_value (entries h' y) = entry_value (entries h y)"
  using assms
  by (auto simp: two_entries_def queue_remove_tail_def um_queue_entry_checkin_def enext_def eprev_def Let_def)

lemma shift_follows_link:
  assumes "queue_head (queues h q) = Some x" "queue_tail (queues h q) = Some x" "enext h x = Some y" "x \<noteq> y"
  shows "\<exists>h'. queue_remove_head q h = Some (entry_value (entries h x), h') \<and>
    queue_head (queues h' q) = Some y \<and> queue_tail (queues h' q) = Some x \<and>
    entry_value (entries h' y) = entry_value (entries h y)"
  using assms by (auto simp: queue_remove_head_def um_queue_entry_checkin_def enext_def Let_def)

text \<open>C36. A queue emptied from both ends hands out a value twice. From a queue of two values \<open>a\<close> and \<open>b\<close>, a \<open>pop\<close>
  returns \<open>b\<close>, a \<open>shift\<close> returns \<open>a\<close>, and another \<open>shift\<close>, which ought to wait, returns \<open>b\<close> again.\<close>

theorem pop_then_shift_twice:
  assumes "queue_ok QUEUE_SHIFT m q [a, b]" "queue_ok QUEUE_POP m q [a, b]"
  shows "map_option fst (andthen (um_queue_pop sw r q) (\<lambda>x. andthen (um_queue_shift sw r q) (\<lambda>y.
      andthen (um_queue_shift sw r q) (\<lambda>z. ret [x, y, z]))) m) = Some (Inr [b, a, b])"
proof -
  let ?u = "\<lambda>x. x\<lparr>queue_waiters := queue_waiters x + 1, queue_count := queue_count x - 1\<rparr>"
  obtain es fs es' fs' where l: "queue_list QUEUE_SHIFT (heap m) q es" "entry_values (heap m) es = [a, b]"
      "entries_ok (heap m) q es fs" "queue_list QUEUE_POP (heap m) q es'" "entry_values (heap m) es' = [a, b]"
      "entries_ok (heap m) q es' fs'"
    using assms unfolding queue_ok_def by blast
  obtain x y where es: "es = [x, y]" using l(2) by (auto simp: entry_values_def Cons_eq_map_conv)
  obtain x' y' where es': "es' = [x', y']" using l(5) by (auto simp: entry_values_def Cons_eq_map_conv)
  have xy: "two_entries (heap m) q x y" "entry_value (entries (heap m) x) = a" "entry_value (entries (heap m) y) = b"
    using l es es' by (auto simp: queue_list_def one_way_def two_entries_def entries_ok_def entry_values_def)
  have st: "queue_state (queue_of m q) = QUEUE_READY" "queue_waiters (queue_of m q) = 0"
    using assms(1) by (simp_all add: queue_ok_def)
  have "two_entries (upd_queue q ?u (heap m)) q x y" using xy(1) by (simp add: two_entries_def)
  from pop_keeps_link [OF this] obtain h1 where h1:
      "queue_remove_tail q (upd_queue q ?u (heap m)) = Some (b, h1)"
      "queue_head (queues h1 q) = Some x" "queue_tail (queues h1 q) = Some x" "enext h1 x = Some y"
      "entry_value (entries h1 x) = a" "entry_value (entries h1 y) = b"
    using xy(2,3) by auto
  have "x \<noteq> y" using xy(1) by (simp add: two_entries_def)
  define m1 where "m1 = m\<lparr>heap := queue_leave q h1\<rparr>"
  have pop: "um_queue_pop sw r q m = Some (Inr b, m1)"
    using take_step [OF st, where opn = QUEUE_POP] h1(1) by (simp add: queue_remove_def m1_def)
  have c1: "queue_state (queues h1 q) = QUEUE_READY" "queue_waiters (queues h1 q) = 1"
    using remove_counters [where opn = QUEUE_POP, simplified, OF h1(1)] st by simp_all
  then have st1: "queue_state (queue_of m1 q) = QUEUE_READY" "queue_waiters (queue_of m1 q) = 0"
    using h1(3) by (simp_all add: m1_def queue_leave_def)
  let ?h1 = "upd_queue q ?u (heap m1)"
  have "queue_head (queues ?h1 q) = Some x" "queue_tail (queues ?h1 q) = Some x" "enext ?h1 x = Some y"
    using h1 by (simp_all add: m1_def queue_leave_def)
  from shift_follows_link [OF this \<open>x \<noteq> y\<close>] obtain h2 where h2:
      "queue_remove_head q ?h1 = Some (a, h2)" "queue_head (queues h2 q) = Some y" "queue_tail (queues h2 q) = Some x"
      "entry_value (entries h2 y) = b"
    using h1(5,6) by (auto simp: m1_def queue_leave_def)
  define m2 where "m2 = m1\<lparr>heap := queue_leave q h2\<rparr>"
  have shift: "um_queue_shift sw r q m1 = Some (Inr a, m2)"
    using take_step [OF st1, where opn = QUEUE_SHIFT] h2(1) by (simp add: queue_remove_def m2_def)
  have c2: "queue_state (queues h2 q) = QUEUE_READY" "queue_waiters (queues h2 q) = 1"
    using remove_counters [where opn = QUEUE_SHIFT, simplified, OF h2(1)] st1 by simp_all
  then have st2: "queue_state (queue_of m2 q) = QUEUE_READY" "queue_waiters (queue_of m2 q) = 0"
    using h2(3) by (simp_all add: m2_def queue_leave_def)
  have "\<exists>h3. queue_remove_head q (upd_queue q ?u (heap m2)) = Some (b, h3)"
    using h2 by (simp add: queue_remove_head_def m2_def queue_leave_def Let_def)
  then obtain h3 where "queue_remove_head q (upd_queue q ?u (heap m2)) = Some (b, h3)" by blast
  then have "um_queue_shift sw r q m2 = Some (Inr b, m2\<lparr>heap := queue_leave q h3\<rparr>)"
    using take_step [OF st2, where opn = QUEUE_SHIFT] by (simp add: queue_remove_def)
  with pop shift show ?thesis by (simp add: andthen_def)
qed

definition queue_of_two :: um where
  "queue_of_two = snd (the (um_queue_push 0 0 Qfalse queue_of_one))"

lemma queue_of_two_ok: "queue_ok opn queue_of_two 0 [Qtrue, Qfalse]"
  using add_ok [OF queue_of_one_ok [of opn], of 0 Qfalse False]
  by (auto simp: queue_of_two_def um_queue_push_def)

theorem pop_then_shift_twice_witness:
  "map_option fst (andthen (um_queue_pop (\<lambda>_ _. ret Qnil) 0 0) (\<lambda>x. andthen (um_queue_shift (\<lambda>_ _. ret Qnil) 0 0) (\<lambda>y.
     andthen (um_queue_shift (\<lambda>_ _. ret Qnil) 0 0) (\<lambda>z. ret [x, y, z]))) queue_of_two) = Some (Inr [Qfalse, Qtrue, Qfalse])"
  by (rule pop_then_shift_twice [OF queue_of_two_ok queue_of_two_ok])

end
