(* ===== verification/UM_Calls_Props.thy ===== *)
theory UM_Calls_Props
  imports UM_Calls
begin

text \<open>
  Blocking calls end to end: the call of \<^verbatim>\<open>ext/um/um.c\<close> composed with the life cycle of its
  operation, the submission queue, the processing of its completion and the scheduler.
\<close>

section \<open>Starting an operation\<close>

lemma acquire_fields:
  assumes "um_op_acquire m = (a, m')"
  shows "sqe_slots m' = sqe_slots m" "sqes m' = sqes m" "current_fiber m' = current_fiber m" "heap m' = heap m"
    "test_mode m' = test_mode m" "sidecar_mode m' = sidecar_mode m" "pending_fibers m' = pending_fibers m"
  using assms by (auto simp: um_op_acquire_def um_op_alloc_def Let_def split: option.splits)

lemma acquire_prepared_run:
  assumes l: "op_lists m q fl ts" and f: "\<not> has_flag f OP_F_TRANSIENT"
  shows "\<exists>a m' fl'. acquire_prepared k n f m = Some (Inr a, m') \<and> detached m' q fl' ts a \<and>
    op_flags (ops m' a) = f \<and> op_ref_count (ops m' a) = n \<and>
    op_fiber (ops m' a) = (if has_flag f OP_F_ASYNC then Qnil else Fiber (current_fiber m)) \<and>
    op_value (ops m' a) = Qnil \<and> sqe_slots m' = sqe_slots m \<and> sqes m' = sqes m \<and>
    current_fiber m' = current_fiber m \<and> heap m' = heap m \<and> test_mode m' = test_mode m \<and>
    sidecar_mode m' = sidecar_mode m"
proof -
  obtain a m1 fl' where m1: "um_op_acquire m = (a, m1)" "op_lists m1 q fl' ts"
    "a \<notin> set (q @ fl' @ ts)" "a < op_fresh m1"
    using acquire_lists [OF l] by blast
  note fr = acquire_fields [OF m1(1)]
  have "detached (um_prep_op a k n f m1) q fl' ts a"
    using m1 f by (simp add: detached_def um_prep_op_def op_has_def op_lists_other [OF m1(3)] Let_def)
  moreover have "acquire_prepared k n f m = Some (Inr a, um_prep_op a k n f m1)"
    using m1(1) by (simp add: acquire_prepared_def state_op_def andthen_def)
  ultimately show ?thesis
    using f fr by (intro exI [of _ a] exI [of _ "um_prep_op a k n f m1"] exI [of _ fl'])
      (simp add: um_prep_op_def op_has_def Let_def)
qed

lemma submit_op_run:
  assumes "sqe_slots m \<noteq> 0"
  shows "\<exists>m'. submit_op a p m = Some (Inr (), m') \<and> ops m' = ops m \<and> op_lists m' = op_lists m \<and>
    op_fresh m' = op_fresh m \<and> sqes m' = sqes m @ [\<lparr>user_data = Some a, sqe_op = p, sqe_skip_success = False\<rparr>] \<and>
    current_fiber m' = current_fiber m \<and> test_mode m' = test_mode m \<and> sidecar_mode m' = sidecar_mode m \<and>
    heap m' = heap m"
proof -
  obtain m1 where m1: "um_get_sqe (Some a) m = Some (Inr (), m1)" "ops m1 = ops m"
    "\<forall>q fl ts. op_lists m1 q fl ts \<longleftrightarrow> op_lists m q fl ts" "op_fresh m1 = op_fresh m"
    "sqes m1 = sqes m @ [\<lparr>user_data = Some a, sqe_op = Prep_unset, sqe_skip_success = False\<rparr>]"
    "current_fiber m1 = current_fiber m" "test_mode m1 = test_mode m"
    using get_sqe_run(2) [OF assms] by blast
  moreover have "sidecar_mode m1 = sidecar_mode m" "heap m1 = heap m" using m1(1) assms by (auto simp: um_get_sqe_def)
  ultimately show ?thesis
    by (intro exI [of _ "prep_sqe p m1"]) (simp add: submit_op_def andthen_step prep_sqe_def fun_eq_iff)
qed

text \<open>When the submission queue is full, the operation that was acquired is not given back.\<close>

lemma submit_op_full:
  assumes "sqe_slots m = 0"
  shows "\<exists>e. submit_op a p m = Some (Inl (UMError e), m)"
  using get_sqe_run(1) [OF assms, of "Some a"] by (auto simp: submit_op_def andthen_def)

section \<open>Completing it\<close>

text \<open>
  The environment of a call on an otherwise idle machine: the machine waits, the kernel completes the
  operation submitted last with result \<open>r\<close>, and the scheduler transfers control back to the fiber.
\<close>

definition completed_with :: "int \<Rightarrow> um \<Rightarrow> wait_env" where
  "completed_with r m = \<lparr>wait_ret = 1,
     wait_cqe = Some \<lparr>cqe_op = user_data (last (sqes m)), cqe_res = r, cqe_flags = 0\<rparr>, wait_ready = [], wait_flush = []\<rparr>"

definition kernel_completes :: "int \<Rightarrow> rvalue comp" where
  "kernel_completes r m =
     (case um_switch [completed_with r m] m of
        Some (Inr (Transfer f v), m') \<Rightarrow> if f = Fiber (current_fiber m) then Some (Inr v, m') else None
      | Some (Inl e, m') \<Rightarrow> Some (Inl e, m')
      | _ \<Rightarrow> None)"

lemma no_more_cqes: "andthen (um_process_ready_cqes [] [] 0) (\<lambda>_. ret ()) = (\<lambda>m. Some (Inr (), m))"
  by (simp add: fun_eq_iff andthen_def)

lemma kernel_completes_run:
  assumes d: "detached m [] fl ts a" and f: "op_flags (ops m a) = 0" "op_ref_count (ops m a) = 2"
    "op_fiber (ops m a) = Fiber (current_fiber m)" and u: "user_data (last (sqes m)) = Some a"
    and t: "\<not> test_mode m" "\<not> sidecar_mode m"
  shows "\<exists>m'. kernel_completes r m = Some (Inr (op_value (ops m a)), m') \<and> detached m' [] fl ts a \<and>
    plain_op m' a \<and> op_has m' a OP_F_CQE_DONE \<and> op_ref_count (ops m' a) = 1 \<and>
    res (op_result (ops m' a)) = r \<and> heap m' = heap m"
proof -
  let ?w = "completed_with r m" let ?c = "\<lparr>cqe_op = Some a, cqe_res = r, cqe_flags = 0\<rparr>"
  obtain m0 where m0: "um_wait_for_and_process_ready_cqes ?w m = Option.bind (um_process_cqe m0 ?c) (\<lambda>m. Some (Inr (), m))"
    "ops m0 = ops m" "op_lists m0 = op_lists m" "op_fresh m0 = op_fresh m" "test_mode m0 = test_mode m"
    "current_fiber m0 = current_fiber m" "heap m0 = heap m"
  proof -
    let ?m1 = "upd_metrics (\<lambda>x. x\<lparr>total_waits := total_waits x + 1\<rparr>) m"
    let ?m0 = "snd (um_wait_for_cqe_without_gvl ?w ?m1)"
    have "fst (um_wait_for_cqe_without_gvl ?w ?m1) = 1"
      by (simp add: um_wait_for_cqe_without_gvl_def completed_with_def)
    then have "um_wait_for_and_process_ready_cqes ?w m = Option.bind (um_process_cqe ?m0 ?c) (\<lambda>m. Some (Inr (), m))"
      using t(2) u
      by (cases "um_wait_for_cqe_without_gvl ?w ?m1")
        (simp add: um_wait_for_and_process_ready_cqes_def completed_with_def no_more_cqes Let_def)
    then show ?thesis
      by (rule that) (simp_all add: um_wait_for_cqe_without_gvl_def completed_with_def submitted_def
          op_lists_upd_metrics fun_eq_iff)
  qed
  have d0: "detached m0 [] fl ts a" using d m0 by (simp add: detached_def)
  have p0: "plain_op m0 a" "\<not> op_has m0 a OP_F_CANCELED" "op_ref_count (ops m0 a) \<noteq> 1"
    using f m0(2) by (simp_all add: plain_op_def op_has_def)
  obtain m1 where m1: "um_process_cqe m0 ?c = Some m1" "op_lists m1 [a] fl ts" "op_ref_count (ops m1 a) = 2"
    "res (op_result (ops m1 a)) = r" "op_fiber (ops m1 a) = Fiber (current_fiber m)" "op_value (ops m1 a) = op_value (ops m a)"
    "op_flags (ops m1 a) = (OP_F_CQE_SEEN OR OP_F_CQE_DONE) OR OP_F_SCHEDULED" "test_mode m1 = test_mode m"
    "op_fresh m1 = op_fresh m" "heap m1 = heap m"
    using cqe_schedules_op [OF d0 p0(1,2,3), of ?c] f m0 by auto
  have p1: "\<not> op_has m1 a OP_F_SKIP" "\<not> test_mode m1" "plain_op m1 a"
    using m1(7,8) t(1) by (simp_all add: plain_op_def op_has_def um_flag_defs)
  obtain m2 where m2: "um_switch [] m1 = Some (Inr (Transfer (Fiber (current_fiber m)) (op_value (ops m a))), m2)"
    "op_ref_count (ops m2 a) = 1" "op_lists m2 [] fl ts" "op_result (ops m2 a) = op_result (ops m1 a)"
    "op_flags (ops m2 a) = ((OP_F_CQE_SEEN OR OP_F_CQE_DONE) OR OP_F_SCHEDULED) AND NOT OP_F_SCHEDULED"
    "op_fresh m2 = op_fresh m1" "heap m2 = heap m1"
    using switch_transfers_head [OF m1(2) p1, of "[]"] m1 by auto
  have "um_runqueue_shift m = (None, m)" using d by (auto simp: detached_def op_lists_def rq.shift_Nil)
  then have "um_switch [?w] m = um_switch [] m1"
    using m0(1) m1(1) by (subst um_switch.simps) simp
  then have "kernel_completes r m = Some (Inr (op_value (ops m a)), m2)"
    using m2(1) by (simp add: kernel_completes_def)
  then show ?thesis
    using m2 m1 d by (intro exI [of _ m2]) (simp add: detached_def plain_op_def op_has_def um_flag_defs)
qed

lemma waiting_run:
  assumes l: "op_lists m [] fl ts" and s: "sqe_slots m \<noteq> 0" and t: "\<not> test_mode m" "\<not> sidecar_mode m"
  obtains a m' fl' where "detached m' [] fl' ts a" "plain_op m' a" "op_has m' a OP_F_CQE_DONE"
    "op_ref_count (ops m' a) = 1" "res (op_result (ops m' a)) = r"
    "\<And>k :: addr \<Rightarrow> rvalue \<Rightarrow> 'a comp. andthen (acquire_prepared kind 2 0) (\<lambda>a. andthen (submit_op a p) (\<lambda>_.
       andthen (um_yield (kernel_completes r)) (k a))) m = k a Qnil m'"
proof -
  obtain a m1 fl' where m1: "acquire_prepared kind 2 0 m = Some (Inr a, m1)" "detached m1 [] fl' ts a"
    "op_flags (ops m1 a) = 0" "op_ref_count (ops m1 a) = 2" "op_fiber (ops m1 a) = Fiber (current_fiber m)"
    "op_value (ops m1 a) = Qnil" "sqe_slots m1 = sqe_slots m" "current_fiber m1 = current_fiber m"
    "test_mode m1 = test_mode m" "sidecar_mode m1 = sidecar_mode m"
    using acquire_prepared_run [OF l has_flag_zero, of kind 2] by auto
  obtain m2 where m2: "submit_op a p m1 = Some (Inr (), m2)" "ops m2 = ops m1" "op_lists m2 = op_lists m1"
    "op_fresh m2 = op_fresh m1" "user_data (last (sqes m2)) = Some a" "current_fiber m2 = current_fiber m1"
    "test_mode m2 = test_mode m1" "sidecar_mode m2 = sidecar_mode m1"
    using submit_op_run [of m1 a p] s m1(7) by fastforce
  let ?m3 = "m2\<lparr>pending_fibers := insert (current_fiber m2) (pending_fibers m2)\<rparr>"
  obtain m4 where m4: "kernel_completes r ?m3 = Some (Inr Qnil, m4)" "detached m4 [] fl' ts a" "plain_op m4 a"
    "op_has m4 a OP_F_CQE_DONE" "op_ref_count (ops m4 a) = 1" "res (op_result (ops m4 a)) = r"
  proof -
    have "detached ?m3 [] fl' ts a" using m1(2) m2(3,4) by (simp add: detached_def)
    then have "\<exists>m'. kernel_completes r ?m3 = Some (Inr Qnil, m') \<and> detached m' [] fl' ts a \<and> plain_op m' a \<and>
        op_has m' a OP_F_CQE_DONE \<and> op_ref_count (ops m' a) = 1 \<and> res (op_result (ops m' a)) = r \<and>
        heap m' = heap ?m3"
      using kernel_completes_run [of ?m3 fl' ts a r] m1 m2 t by simp
    then show ?thesis using that by blast
  qed
  let ?m5 = "m4\<lparr>pending_fibers := pending_fibers m4 - {current_fiber m2}\<rparr>"
  have "um_yield (kernel_completes r) m2 = Some (Inr Qnil, ?m5)"
    using m4(1) by (simp add: um_yield_def andthen_def)
  then have "andthen (acquire_prepared kind 2 0) (\<lambda>a. andthen (submit_op a p) (\<lambda>_.
       andthen (um_yield (kernel_completes r)) (k a))) m = k a Qnil ?m5" for k :: "addr \<Rightarrow> rvalue \<Rightarrow> 'a comp"
    using m1(1) m2(1) by (simp add: andthen_step(1))
  then show ?thesis
    using m4 by (intro that [of ?m5 fl' a]) (simp_all add: detached_def plain_op_def op_has_def)
qed

lemma blocking_run:
  assumes "op_lists m [] fl ts" "sqe_slots m \<noteq> 0" "\<not> test_mode m" "\<not> sidecar_mode m"
  obtains a m' fl' where "detached m' [] fl' ts a" "plain_op m' a" "op_has m' a OP_F_CQE_DONE"
    "op_ref_count (ops m' a) = 1" "res (op_result (ops m' a)) = r"
    "blocking_call (\<lambda>_. kernel_completes r) kind p await result m =
       finish_op (\<lambda>_. kernel_completes r) a await (result a) Qnil m'"
proof -
  obtain a m' fl' where "detached m' [] fl' ts a" "plain_op m' a" "op_has m' a OP_F_CQE_DONE"
    "op_ref_count (ops m' a) = 1" "res (op_result (ops m' a)) = r"
    and "\<And>k :: addr \<Rightarrow> rvalue \<Rightarrow> rvalue comp. andthen (acquire_prepared kind 2 0) (\<lambda>a.
       andthen (submit_op a p) (\<lambda>_. andthen (um_yield (kernel_completes r)) (k a))) m = k a Qnil m'"
    using waiting_run [OF assms] by metis
  then show ?thesis by (intro that [of m' fl' a]) (simp_all add: blocking_call_def)
qed

text \<open>The call returns the result, or raises it as an error, and frees its operation.\<close>

definition returns_result ::
  "um \<Rightarrow> addr list \<Rightarrow> int \<Rightarrow> rvalue \<Rightarrow> ((nat \<Rightarrow> rvalue comp) \<Rightarrow> rvalue comp) \<Rightarrow> bool" where
  "returns_result m ts r v call \<longleftrightarrow>
     (\<exists>m' a fl'. call (\<lambda>_. kernel_completes r) m =
        Some (if r < 0 \<and> r \<noteq> - ETIME then Inl (SysErr (- r)) else Inr v, m') \<and>
        op_lists m' [] (a # fl') ts \<and> op_ref_count (ops m' a) = 0)"

lemma release_done:
  assumes "detached m q fl ts a" "plain_op m a" "op_ref_count (ops m a) = 1"
  obtains m' where "um_op_release m a = Some m'" "op_lists m' q (a # fl) ts" "op_ref_count (ops m' a) = 0"
    "op_result (ops m' a) = op_result (ops m a)"
  using assms free_upd_lists [OF assms(1), of "\<lambda>x. x\<lparr>op_ref_count := op_ref_count x - 1\<rparr>"]
  by (auto simp: release_last_plain plain_op_def free_fields intro!: that)

lemma blocking_returns:
  assumes "op_lists m [] fl ts" "sqe_slots m \<noteq> 0" "\<not> test_mode m" "\<not> sidecar_mode m"
    and res: "\<And>a m. res (op_result (ops m a)) = r \<Longrightarrow> result a m = Some (Inr v, m)"
    and plain: "check v = ret v"
  shows "returns_result m ts r v (\<lambda>sw. blocking_call sw kind p await result)"
proof -
  obtain a m1 fl' where m1: "detached m1 [] fl' ts a" "plain_op m1 a" "op_has m1 a OP_F_CQE_DONE"
    "op_ref_count (ops m1 a) = 1" "res (op_result (ops m1 a)) = r"
    "blocking_call (\<lambda>_. kernel_completes r) kind p await result m =
       finish_op (\<lambda>_. kernel_completes r) a await (result a) Qnil m1"
    using blocking_run [OF assms(1-4)] .
  obtain m2 where m2: "um_op_release m1 a = Some m2" "op_lists m2 [] (a # fl') ts" "op_ref_count (ops m2 a) = 0"
    using release_done [OF m1(1,2,4)] by metis
  have rel: "op_release a m1 = Some (Inr (), m2)"
    using m2(1) by (simp add: op_release_def modify_opt_def)
  have "finish_op (\<lambda>_. kernel_completes r) a await (result a) Qnil m1 =
      Some (if r < 0 \<and> r \<noteq> - ETIME then Inl (SysErr (- r)) else Inr v, m2)"
  proof (cases "r < 0 \<and> r \<noteq> - ETIME")
    case True
    have "um_verify_op_completion (\<lambda>k. kernel_completes r) a await m1 = Some (Inl (SysErr (- r)), m2)"
      using True m1(3,5) rel by (simp add: um_verify_op_completion_def um_raise_on_error_result_def andthen_def)
    with True show ?thesis by (simp add: finish_op_def andthen_def)
  next
    case False
    have "um_verify_op_completion (\<lambda>k. kernel_completes r) a await m1 = Some (Inr True, m1)"
      using False m1(3,5) by (auto simp: um_verify_op_completion_def Let_def)
    with False show ?thesis
      using res [OF m1(5)] rel plain by (simp add: finish_op_def andthen_def)
  qed
  then show ?thesis unfolding returns_result_def m1(6) using m2(2,3) by blast
qed

lemma op_res_run: "res (op_result (ops m a)) = r \<Longrightarrow> op_res a m = Some (Inr (Fixnum r), m)"
  by (simp add: op_res_def)

lemma check_Fixnum: "check (Fixnum r) = ret (Fixnum r)"
  by (simp add: check_def)

text \<open>C28. A blocking call made on an idle machine with room in its submission queue, and completed by the kernel with
  \<open>r\<close>, returns \<open>r\<close>, or raises the error when \<open>r\<close> is negative (a timeout excepted); either way the run
  queue is empty again and the operation the call used is back on the free list, with no reference left.\<close>

theorem blocking_calls_return:
  assumes "op_lists m [] fl ts" "sqe_slots m \<noteq> 0" "\<not> test_mode m" "\<not> sidecar_mode m"
  shows "returns_result m ts r (Fixnum r) (\<lambda>sw. um_open sw path flags mode) \<and>
    returns_result m ts r (Fixnum r) (\<lambda>sw. um_accept sw fd) \<and>
    returns_result m ts r (Fixnum r) (\<lambda>sw. um_connect sw fd address len) \<and>
    returns_result m ts r (Fixnum r) (\<lambda>sw. um_splice sw fd fd' n) \<and>
    returns_result m ts r (Fixnum r) (\<lambda>sw. um_fsync sw fd) \<and>
    returns_result m ts r (Fixnum fd) (\<lambda>sw. um_close sw fd)"
  using blocking_returns [OF assms, where result = op_res and r = r and v = "Fixnum r", OF op_res_run check_Fixnum]
    blocking_returns [OF assms, where result = "\<lambda>_. ret (Fixnum fd)" and r = r and v = "Fixnum fd", OF _ check_Fixnum]
  by (simp add: um_open_def um_accept_def um_connect_def um_splice_def um_fsync_def um_close_def)

definition idle_machine :: um where
  "idle_machine = um_zero\<lparr>sqe_slots := 8\<rparr>"

lemma idle_machine_ok:
  "op_lists idle_machine [] [] []" "sqe_slots idle_machine \<noteq> 0" "\<not> test_mode idle_machine"
  "\<not> sidecar_mode idle_machine"
  using op_lists_zero by (simp_all add: idle_machine_def) (simp_all add: um_zero_def)

theorem blocking_calls_return_witness:
  "returns_result idle_machine [] (- EINVAL) (Fixnum (- EINVAL)) (\<lambda>sw. um_fsync sw 3)"
  using blocking_calls_return [OF idle_machine_ok] by blast

text \<open>When the submission queue is full, a blocking call raises without waiting, but it keeps the operation it
  had acquired: the operation is on none of the lists, with the two references of a call under way.\<close>

theorem full_queue_leaks_operation:
  assumes "op_lists m q fl ts" "sqe_slots m = 0"
  shows "\<exists>e m' a fl'. um_fsync sw fd m = Some (Inl (UMError e), m') \<and> op_lists m' q fl' ts \<and>
    a < op_fresh m' \<and> a \<notin> set (q @ fl' @ ts) \<and> op_ref_count (ops m' a) = 2 \<and> sqes m' = sqes m"
proof -
  obtain a m1 fl' where m1: "acquire_prepared OP_FSYNC 2 0 m = Some (Inr a, m1)" "detached m1 q fl' ts a"
    "op_ref_count (ops m1 a) = 2" "sqe_slots m1 = sqe_slots m" "sqes m1 = sqes m"
    using acquire_prepared_run [OF assms(1) has_flag_zero, of OP_FSYNC 2] by auto
  obtain e where "submit_op a (Prep_fsync fd) m1 = Some (Inl (UMError e), m1)"
    using submit_op_full [of m1] m1(4) assms(2) by auto
  then have "um_fsync sw fd m = Some (Inl (UMError e), m1)"
    using m1(1) by (simp add: um_fsync_def blocking_call_def andthen_def)
  with m1 show ?thesis by (auto simp: detached_def)
qed

theorem full_queue_leaks_operation_witness:
  "\<exists>e m' a fl'. um_fsync (\<lambda>_. ret Qnil) 3 um_zero = Some (Inl (UMError e), m') \<and> op_lists m' [] fl' [] \<and>
    a < op_fresh m' \<and> a \<notin> set ([] @ fl' @ []) \<and> op_ref_count (ops m' a) = 2 \<and> sqes m' = sqes um_zero"
  by (rule full_queue_leaks_operation [OF op_lists_zero]) (simp add: um_zero_def)

section \<open>Vectored writes\<close>

text \<open>
  Each round of \<open>um_writev\<close> stores the array of buffers in the operation and then prepares the operation,
  which clears it: the two releases of the operation, by its completion and by the fiber, free the
  operation but not the array.
\<close>

lemma writev_keeps_iovecs:
  assumes "m1 = um_prep_op a OP_WRITEV 2 OP_F_FREE_IOVECS (set_iovecs a p m)"
  shows "\<exists>m2 m3. um_op_release m1 a = Some m2 \<and> um_op_release m2 a = Some m3 \<and>
    iovecs_live m3 = iovecs_live m \<and> op_freelist m3 = Some a"
proof -
  have f: "op_ref_count (ops m1 a) = 2" "op_flags (ops m1 a) = OP_F_FREE_IOVECS" "op_iovecs (ops m1 a) = None"
    "iovecs_live m1 = iovecs_live m"
    using assms by (simp_all add: um_prep_op_def set_iovecs_def op_has_def um_flag_defs op_zero_def Let_def)
  let ?m2 = "upd_op a (\<lambda>x. x\<lparr>op_ref_count := op_ref_count x - 1\<rparr>) m1"
  have "um_op_release m1 a = Some ?m2" using f(1) by (simp add: release_shared)
  moreover have "um_op_release ?m2 a = Some (um_op_free (upd_op a (\<lambda>x. x\<lparr>op_ref_count := op_ref_count x - 1\<rparr>) ?m2) a)"
    using f by (simp add: um_op_release_def free_iovecs_def op_has_def um_flag_defs)
  ultimately show ?thesis using f(4) by (simp add: um_op_free_def)
qed

end
