(* ===== verification/UM_Mutex_Props.thy ===== *)
theory UM_Mutex_Props
  imports UM_Queue_Props UM_Calls_Props
begin

text \<open>
  Mutexes (\<^verbatim>\<open>ext/um/um_sync.c\<close>). The fibers that use a mutex are an interleaving of the updates the
  code makes of it: entering the wait, taking the mutex once it is seen unlocked, giving it back, and,
  when a fiber waiting in \<open>synchronize\<close> is resumed with an exception, what its \<open>ensure\<close> handler does.
\<close>

section \<open>Mutual exclusion\<close>

datatype place = Outside | Waiting | Inside

text \<open>\<open>intr\<close>: whether a waiting fiber can be interrupted.\<close>

inductive mutex_step :: "bool \<Rightarrow> um_mutex \<times> (fiber \<Rightarrow> place) \<Rightarrow> um_mutex \<times> (fiber \<Rightarrow> place) \<Rightarrow> bool" for intr where
  enter: "p f = Outside \<Longrightarrow> mutex_step intr (x, p) (mutex_enter x, p(f := Waiting))"
| take: "p f = Waiting \<Longrightarrow> mutex_state x \<noteq> MUTEX_LOCKED \<Longrightarrow> mutex_step intr (x, p) (mutex_take x, p(f := Inside))"
| give: "p f = Inside \<Longrightarrow> mutex_step intr (x, p) (mutex_give x, p(f := Outside))"
| interrupted: "intr \<Longrightarrow> p f = Waiting \<Longrightarrow> mutex_step intr (x, p) (mutex_give x, p(f := Outside))"

definition mutex_init :: "um_mutex \<times> (fiber \<Rightarrow> place)" where
  "mutex_init = (\<lparr>mutex_state = MUTEX_UNLOCKED, mutex_waiters = 0\<rparr>, \<lambda>_. Outside)"

inductive mutex_reach :: "bool \<Rightarrow> um_mutex \<times> (fiber \<Rightarrow> place) \<Rightarrow> bool" for intr where
  init: "mutex_reach intr mutex_init"
| step: "mutex_reach intr s \<Longrightarrow> mutex_step intr s t \<Longrightarrow> mutex_reach intr t"

lemmas mutex_ops = mutex_enter_def mutex_take_def mutex_give_def mutex_state_defs

definition at_place :: "place \<Rightarrow> (fiber \<Rightarrow> place) \<Rightarrow> fiber set" where
  "at_place c p = {f. p f = c}"

lemma at_place_upd: "at_place c (p(f := d)) = (if d = c then insert f (at_place c p) else at_place c p - {f})"
  by (auto simp: at_place_def)

lemma at_placeI: "p f = c \<Longrightarrow> f \<in> at_place c p" "p f \<noteq> c \<Longrightarrow> f \<notin> at_place c p"
  by (simp_all add: at_place_def)

text \<open>The waiting fibers are finitely many, and the counter counts them.\<close>

definition mutex_inv :: "um_mutex \<times> (fiber \<Rightarrow> place) \<Rightarrow> bool" where
  "mutex_inv s \<longleftrightarrow> (case s of (x, p) \<Rightarrow>
     (if mutex_state x = MUTEX_LOCKED then \<exists>f. at_place Inside p = {f} else at_place Inside p = {}) \<and>
     finite (at_place Waiting p) \<and> mutex_waiters x = of_nat (card (at_place Waiting p)))"

lemma mutex_inv_step:
  assumes inv: "mutex_inv (x, p)" and step: "mutex_step False (x, p) t"
  shows "mutex_inv t"
proof -
  have fin: "finite (at_place Waiting p)" and n: "mutex_waiters x = of_nat (card (at_place Waiting p))"
    using inv by (auto simp: mutex_inv_def)
  from step show ?thesis
  proof (cases rule: mutex_step.cases)
    case (enter f)
    then have "f \<notin> at_place Inside p" "f \<notin> at_place Waiting p" by (simp_all add: at_placeI)
    with inv enter(1) show ?thesis by (simp add: mutex_inv_def at_place_upd mutex_enter_def split: if_splits)
  next
    case (take f)
    have f: "f \<in> at_place Waiting p" by (rule at_placeI(1)) (use take in simp)
    then have "card (at_place Waiting p) \<noteq> 0" using fin by auto
    then have "(of_nat (card (at_place Waiting p) - 1) :: u32) = of_nat (card (at_place Waiting p)) - 1"
      by (simp add: of_nat_diff Suc_leI)
    with f inv take show ?thesis by (simp add: mutex_inv_def at_place_upd mutex_take_def)
  next
    case (give f)
    then have f: "f \<in> at_place Inside p" "f \<notin> at_place Waiting p" by (simp_all add: at_placeI)
    then have "at_place Inside p = {f}" using inv by (auto simp: mutex_inv_def split: if_splits)
    with f inv give(1) show ?thesis
      by (simp add: mutex_inv_def at_place_upd mutex_give_def mutex_state_defs split: if_splits)
  qed simp
qed

lemma mutex_inv_reach: "mutex_reach False s \<Longrightarrow> mutex_inv s"
proof (induction rule: mutex_reach.induct)
  case init
  show ?case by (simp add: mutex_inv_def mutex_init_def mutex_state_defs at_place_def)
next
  case (step s t)
  then show ?case by (cases s) (blast intro: mutex_inv_step)
qed


lemma one_inside:
  "mutex_reach intr (mutex_take (mutex_enter (fst mutex_init)), (\<lambda>_. Outside)(0 := Waiting, 0 := Inside))"
  using mutex_reach.step [OF mutex_reach.step [OF mutex_reach.init [of intr, unfolded mutex_init_def]
      mutex_step.enter [of "\<lambda>_. Outside" 0]] mutex_step.take [of _ 0]]
  by (simp add: mutex_ops mutex_init_def)


section \<open>The steps of the code\<close>

lemma mutex_of_upd [simp]: "mutex_of (upd_mutex x f m) x = f (mutex_of m x)"
  by (simp add: upd_mutex_def upd_heap_def)

lemma upd_mutex_comp: "upd_mutex x f (upd_mutex x g m) = upd_mutex x (\<lambda>y. f (g y)) m"
  by (simp add: upd_mutex_def upd_heap_def)

lemma lock_uncontended:
  "mutex_state (mutex_of m x) \<noteq> MUTEX_LOCKED \<Longrightarrow>
   um_mutex_lock sw x m = Some (Inr (), upd_mutex x (\<lambda>y. mutex_take (mutex_enter y)) m)"
  by (simp add: um_mutex_lock_def andthen_def mutex_wait_loop.simps [of sw x 0] mutex_enter_def upd_mutex_comp)

lemma unlock_no_waiters:
  "mutex_waiters (mutex_of m x) = 0 \<Longrightarrow> um_mutex_unlock sw x m = Some (Inr (), upd_mutex x mutex_give m)"
  by (simp add: um_mutex_unlock_def mutex_give_def)

text \<open>On a mutex that is free, \<open>synchronize\<close> runs its block with the mutex locked and gives the mutex back
  afterwards, whether the block returns or raises, and passes the outcome on.\<close>

theorem synchronize_uncontended:
  assumes "mutex_state (mutex_of m x) \<noteq> MUTEX_LOCKED"
    and "blk (upd_mutex x (\<lambda>y. mutex_take (mutex_enter y)) m) = Some (r, m1)"
    and "mutex_waiters (mutex_of m1 x) = 0"
  shows "mutex_state (mutex_of (upd_mutex x (\<lambda>y. mutex_take (mutex_enter y)) m) x) = MUTEX_LOCKED \<and>
    um_mutex_synchronize sw sw' blk x m = Some (r, upd_mutex x mutex_give m1)"
  using assms
  by (cases r) (simp_all add: um_mutex_synchronize_def synchronize_start_def synchronize_complete_def rb_ensure_def
      andthen_def lock_uncontended unlock_no_waiters mutex_take_def)

theorem synchronize_uncontended_witness:
  "um_mutex_synchronize (\<lambda>_ _. ret Qnil) (\<lambda>_. ret Qnil) (raise (RubyExn 0)) 0 um_zero =
     Some (Inl (RubyExn 0), upd_mutex 0 mutex_give (upd_mutex 0 (\<lambda>y. mutex_take (mutex_enter y)) um_zero))"
  using synchronize_uncontended [of um_zero 0 "raise (RubyExn 0)" "Inl (RubyExn 0)"
      "upd_mutex 0 (\<lambda>y. mutex_take (mutex_enter y)) um_zero" "\<lambda>_ _. ret Qnil" "\<lambda>_. ret Qnil"]
  by (simp add: um_zero_def heap_zero_def mutex_state_defs mutex_take_def mutex_enter_def)

text \<open>C38. A fiber whose wait in \<open>synchronize\<close> raises (a timeout, a full submission queue) unlocks the mutex although
  another fiber holds it, and stays counted as a waiter. Then the mutex does not exclude: with
  interruptions a second fiber gets inside while the first still is.\<close>

theorem synchronize_interrupted:
  assumes "mutex_state (mutex_of m x) = MUTEX_LOCKED" "mutex_waiters (mutex_of m x) \<noteq> - 1"
    and "um_futex_wait (sw 0) (2 * x) (unat MUTEX_LOCKED) (upd_mutex x mutex_enter m) = Some (Inl e, m1)"
    and "mutex_of m1 x = mutex_enter (mutex_of m x)"
  shows "um_mutex_synchronize sw sw' blk x m =
      rb_ensure (raise e) (um_futex_wake sw' (2 * x) 1) (upd_mutex x mutex_give m1) \<and>
    mutex_of (upd_mutex x mutex_give m1) x =
      \<lparr>mutex_state = MUTEX_UNLOCKED, mutex_waiters = mutex_waiters (mutex_of m x) + 1\<rparr> \<and>
    (\<exists>y p. mutex_reach True (y, p) \<and> p 0 = Inside \<and> p 1 = Inside)"
proof (intro conjI)
  have "mutex_waiters (mutex_of m x) + 1 \<noteq> 0" using assms(2) by (simp flip: eq_neg_iff_add_eq_0)
  then show "um_mutex_synchronize sw sw' blk x m =
      rb_ensure (raise e) (um_futex_wake sw' (2 * x) 1) (upd_mutex x mutex_give m1)"
    using assms
    by (simp add: um_mutex_synchronize_def synchronize_start_def synchronize_complete_def rb_ensure_def
        um_mutex_lock_def um_mutex_unlock_def andthen_def mutex_wait_loop.simps [of sw x 0] mutex_enter_def mutex_give_def
        split: option.splits sum.splits prod.splits)
  show "mutex_of (upd_mutex x mutex_give m1) x =
      \<lparr>mutex_state = MUTEX_UNLOCKED, mutex_waiters = mutex_waiters (mutex_of m x) + 1\<rparr>"
    using assms(4) by (simp add: mutex_give_def mutex_enter_def)
  have 1: "mutex_reach True (mutex_take (mutex_enter (fst mutex_init)), (\<lambda>_. Outside)(0 := Inside))"
    using one_inside [of True] by simp
  note 2 = mutex_reach.step [OF 1 mutex_step.enter [of _ 2]]
  note 3 = mutex_reach.step [OF 2 mutex_step.interrupted [of True _ 2]]
  note 4 = mutex_reach.step [OF 3 mutex_step.enter [of _ 1]]
  note 5 = mutex_reach.step [OF 4 mutex_step.take [of _ 1]]
  show "\<exists>y p. mutex_reach True (y, p) \<and> p 0 = Inside \<and> p 1 = Inside"
    by (rule exI, rule exI, rule conjI [OF 5]) (simp_all add: mutex_ops)
qed

lemma futex_wait_full:
  assumes "op_lists m q fl ts" "sqe_slots m = 0"
  shows "\<exists>e m1. um_futex_wait sw n v m = Some (Inl (UMError e), m1) \<and> heap m1 = heap m"
proof -
  obtain a m1 where m1: "acquire_prepared OP_FUTEX_WAIT 2 0 m = Some (Inr a, m1)" "sqe_slots m1 = sqe_slots m"
    "heap m1 = heap m"
    using acquire_prepared_run [OF assms(1) has_flag_zero, of OP_FUTEX_WAIT 2] by auto
  obtain e where "submit_op a (Prep_futex_wait n v) m1 = Some (Inl (UMError e), m1)"
    using submit_op_full [of m1] m1(2) assms(2) by auto
  with m1 show ?thesis by (simp add: um_futex_wait_def andthen_def)
qed

definition held_mutex :: um where
  "held_mutex = upd_mutex 0 (\<lambda>_. \<lparr>mutex_state = MUTEX_LOCKED, mutex_waiters = 0\<rparr>) um_zero"

lemma op_lists_upd_mutex: "op_lists (upd_mutex x f m) = op_lists m"
  by (rule op_lists_frame) (simp_all add: upd_mutex_def upd_heap_def)

theorem synchronize_interrupted_witness:
  "\<exists>e m1. um_mutex_synchronize (\<lambda>_ _. ret Qnil) (\<lambda>_. ret Qnil) (ret Qnil) 0 held_mutex =
      rb_ensure (raise (UMError e)) (um_futex_wake (\<lambda>_. ret Qnil) 0 1) (upd_mutex 0 mutex_give m1) \<and>
    mutex_of (upd_mutex 0 mutex_give m1) 0 = \<lparr>mutex_state = MUTEX_UNLOCKED, mutex_waiters = 1\<rparr>"
proof -
  let ?m = "upd_mutex 0 mutex_enter held_mutex"
  have "sqe_slots ?m = 0" by (simp add: held_mutex_def upd_mutex_def upd_heap_def um_zero_def)
  then obtain e m1 where m1: "um_futex_wait (\<lambda>_. ret Qnil) 0 (unat MUTEX_LOCKED) ?m = Some (Inl (UMError e), m1)"
    "heap m1 = heap ?m"
    using futex_wait_full [of ?m] op_lists_zero by (force simp: held_mutex_def op_lists_upd_mutex)
  have "mutex_of held_mutex 0 = \<lparr>mutex_state = MUTEX_LOCKED, mutex_waiters = 0\<rparr>" by (simp add: held_mutex_def)
  with synchronize_interrupted [of held_mutex 0 "\<lambda>_ _. ret Qnil" "UMError e" m1 "\<lambda>_. ret Qnil" "ret Qnil"] m1
  show ?thesis by (intro exI [of _ e] exI [of _ m1]) simp
qed

section \<open>Futexes\<close>

text \<open>A futex wait on an idle machine frees its operation. When it fails it raises, or returns if the futex had changed
  (\<open>EAGAIN\<close>), and no reference is left. When the fiber was woken the operation is released once more after it has
  been freed: it lies on the free list with a count below zero.\<close>

theorem futex_wait_releases:
  assumes "op_lists m [] fl ts" "sqe_slots m \<noteq> 0" "\<not> test_mode m" "\<not> sidecar_mode m"
  shows "\<exists>m' a fl'. um_futex_wait (\<lambda>_. kernel_completes r) fx v m =
      Some (if r < 0 \<and> r \<noteq> - EAGAIN then Inl (SysErr (- r)) else Inr (), m') \<and>
    op_lists m' [] (a # fl') ts \<and> op_ref_count (ops m' a) = (if r < 0 then 0 else - 1)"
proof -
  obtain a m1 fl' where m1: "detached m1 [] fl' ts a" "plain_op m1 a" "op_has m1 a OP_F_CQE_DONE"
    "op_ref_count (ops m1 a) = 1" "res (op_result (ops m1 a)) = r"
    and run: "\<And>k :: addr \<Rightarrow> rvalue \<Rightarrow> unit comp. andthen (acquire_prepared OP_FUTEX_WAIT 2 0) (\<lambda>a.
       andthen (submit_op a (Prep_futex_wait fx v)) (\<lambda>_. andthen (um_yield (kernel_completes r)) (k a))) m = k a Qnil m1"
    using waiting_run [OF assms] by metis
  obtain m2 where m2: "um_op_release m1 a = Some m2" "op_lists m2 [] (a # fl') ts" "op_ref_count (ops m2 a) = 0"
    using release_done [OF m1(1,2,4)] by metis
  let ?m3 = "upd_op a (\<lambda>x. x\<lparr>op_ref_count := op_ref_count x - 1\<rparr>) m2"
  have m3: "um_op_release m2 a = Some ?m3" using m2(3) by (intro release_shared) simp
  have l3: "op_lists ?m3 [] (a # fl') ts" using m2(2) op_lists_upd_op [of _ a m2] by simp
  have q: "check Qnil = ret Qnil" by (simp add: check_def)
  have d: "op_has m1 a OP_F_CQE_DONE" "res (op_result (ops m1 a)) = r" by (rule m1(3), rule m1(5))
  have rel: "op_release a m1 = Some (Inr (), m2)" "op_release a m2 = Some (Inr (), ?m3)"
    using m2(1) m3 by (simp_all add: op_release_def modify_opt_def)
  have "um_futex_wait (\<lambda>_. kernel_completes r) fx v m =
      Some (if r < 0 \<and> r \<noteq> - EAGAIN then Inl (SysErr (- r)) else Inr (), if r < 0 then m2 else ?m3)"
    unfolding um_futex_wait_def run using d rel q
    by (auto simp: andthen_def um_raise_on_error_result_def errno_defs)
  then show ?thesis using m2 l3 by (intro exI [of _ "if r < 0 then m2 else ?m3"] exI [of _ a] exI [of _ fl']) simp
qed

theorem futex_wait_releases_witness:
  "\<exists>m' a fl'. um_futex_wait (\<lambda>_. kernel_completes 0) 5 0 idle_machine = Some (Inr (), m') \<and>
    op_lists m' [] (a # fl') [] \<and> op_ref_count (ops m' a) = - 1"
  using futex_wait_releases [OF idle_machine_ok, of 0 5 0] by simp

end
