(* ===== verification/UM_Io_Props.thy ===== *)
theory UM_Io_Props
  imports UM_Io UM_Mutex_Props
begin

text \<open>
  The segments of a stream (\<^verbatim>\<open>ext/um/um_io.c\<close>): the list between \<open>head\<close> and \<open>tail\<close>, and how the results of
  a multishot operation get there.
\<close>

section \<open>The list of segments\<close>

definition snext :: "um \<Rightarrow> addr \<Rightarrow> addr option" where
  "snext m s = seg_next (segments m s)"

definition io_list :: "um \<Rightarrow> nat \<Rightarrow> addr list \<Rightarrow> bool" where
  "io_list m i ss \<longleftrightarrow> one_way (snext m) (io_head (io_of m i)) (io_tail (io_of m i)) ss"

lemma upd_io_fields [simp]:
  "io_of (upd_io i f m) j = (if j = i then f (io_of m i) else io_of m j)"
  "segments (upd_io i f m) = segments m" "ops (upd_io i f m) = ops m" "results (upd_io i f m) = results m"
  "snext (upd_io i f m) = snext m"
  by (simp_all add: upd_io_def upd_heap_def snext_def fun_eq_iff)

lemma result_at_upd_io [simp]: "result_at (upd_io i f m) = result_at m"
  by (simp add: result_at_def fun_eq_iff split: result_ref.splits)

lemma upd_segment_fields [simp]:
  "heap (upd_segment s f m) = heap m" "ops (upd_segment s f m) = ops m" "results (upd_segment s f m) = results m"
  "segments (upd_segment s f m) = (segments m)(s := f (segments m s))"
  "snext (upd_segment s f m) = (snext m)(s := seg_next (f (segments m s)))"
  by (simp_all add: upd_segment_def snext_def fun_eq_iff)

lemma upd_result_fields [simp]:
  "heap (upd_result a ref f m) = heap m" "segments (upd_result a ref f m) = segments m"
  "snext (upd_result a ref f m) = snext m"
  "result_at (upd_result a ref f m) a ref' = (if ref' = ref then f (result_at m a ref) else result_at m a ref')"
  by (auto simp: upd_result_def result_at_def snext_def fun_eq_iff split: result_ref.splits)

lemma add_segment_run:
  assumes l: "io_list m i ss" and s: "s \<notin> set ss"
  shows "io_list (io_add_segment i s m) i (ss @ [s])"
    "io_of (io_add_segment i s m) i = (io_of m i)\<lparr>io_head := (if ss = [] then Some s else io_head (io_of m i)),
       io_tail := Some s, io_pending_bytes := wrap_add 64 (io_pending_bytes (io_of m i)) (seg_len (segments m s))\<rparr>"
    "ops (io_add_segment i s m) = ops m" "results (io_add_segment i s m) = results m"
    "seg_len (segments (io_add_segment i s m) x) = seg_len (segments m x)"
proof -
  let ?m = "io_add_segment i s m"
  have t: "io_tail (io_of m i) = (if ss = [] then None else Some (last ss))"
    using l by (simp add: io_list_def one_way_def)
  have ls: "ss \<noteq> [] \<Longrightarrow> last ss \<noteq> s" using s by auto
  show io: "io_of ?m i = (io_of m i)\<lparr>io_head := (if ss = [] then Some s else io_head (io_of m i)),
       io_tail := Some s, io_pending_bytes := wrap_add 64 (io_pending_bytes (io_of m i)) (seg_len (segments m s))\<rparr>"
    using t ls by (auto simp: io_add_segment_def Let_def)
  show "ops ?m = ops m" "results ?m = results m" "seg_len (segments ?m x) = seg_len (segments m x)"
    using t by (auto simp: io_add_segment_def Let_def)
  have "snext ?m = (if ss = [] then (snext m)(s := None) else (snext m)(s := None, last ss := Some s))"
    using t by (auto simp: io_add_segment_def Let_def)
  then have "one_way (snext ?m) (if ss = [] then Some s else io_head (io_of m i)) (Some s) (ss @ [s])"
    using l s ls by (intro one_way_snoc [of "snext m" _ "io_tail (io_of m i)"]) (auto simp: io_list_def)
  then show "io_list ?m i (ss @ [s])" using io by (simp add: io_list_def)
qed

section \<open>Moving results to the stream\<close>

fun ref_chain :: "um \<Rightarrow> addr \<Rightarrow> result_ref option \<Rightarrow> result_ref list \<Rightarrow> bool" where
  "ref_chain m a p [] \<longleftrightarrow> p = None"
| "ref_chain m a p (r # rs) \<longleftrightarrow> p = Some r \<and> ref_chain m a (map_option Heap (res_next (result_at m a r))) rs"

lemma ref_chain_cong:
  "(\<And>r. r \<in> set rs \<Longrightarrow> res_next (result_at m' a r) = res_next (result_at m a r)) \<Longrightarrow>
   ref_chain m' a p rs \<longleftrightarrow> ref_chain m a p rs"
  by (induction rs arbitrary: p) auto

text \<open>The segment a result brings.\<close>

definition brings :: "um_op_result \<Rightarrow> addr list" where
  "brings x = (if res x > 0 then (case res_segment x of Some s \<Rightarrow> [s] | None \<Rightarrow> []) else [])"

lemma process_result_run:
  assumes l: "io_list m i ss" and s: "distinct (ss @ brings (result_at m a r))" and n: "0 \<le> res (result_at m a r)"
  defines "m' \<equiv> io_process_op_result i a r m"
  shows "io_list m' i (ss @ brings (result_at m a r))"
    "io_eof (io_of m' i) \<longleftrightarrow> io_eof (io_of m i) \<or> res (result_at m a r) = 0"
    "io_pending_bytes (io_of m' i) =
       foldl (wrap_add 64) (io_pending_bytes (io_of m i)) (map (\<lambda>s. seg_len (segments m s)) (brings (result_at m a r)))"
    "res_next (result_at m' a x) = res_next (result_at m a x)"
    "x \<noteq> r \<Longrightarrow> result_at m' a x = result_at m a x" "seg_len (segments m' y) = seg_len (segments m y)"
    "io_op (io_of m' i) = io_op (io_of m i)"
proof -
  let ?x = "result_at m a r"
  consider (eof) "res ?x = 0" | (none) "0 < res ?x" "res_segment ?x = None"
    | (seg) s where "0 < res ?x" "res_segment ?x = Some s"
    using n by fastforce
  then have "io_list m' i (ss @ brings ?x) \<and> (io_eof (io_of m' i) \<longleftrightarrow> io_eof (io_of m i) \<or> res ?x = 0) \<and>
    io_pending_bytes (io_of m' i) =
      foldl (wrap_add 64) (io_pending_bytes (io_of m i)) (map (\<lambda>s. seg_len (segments m s)) (brings ?x)) \<and>
    (\<forall>x. res_next (result_at m' a x) = res_next (result_at m a x) \<and> (x \<noteq> r \<longrightarrow> result_at m' a x = result_at m a x)) \<and>
    (\<forall>y. seg_len (segments m' y) = seg_len (segments m y)) \<and> io_op (io_of m' i) = io_op (io_of m i)"
  proof cases
    case eof
    then have "m' = upd_io i (\<lambda>x. x\<lparr>io_eof := True\<rparr>) m" by (simp add: m'_def io_process_op_result_def)
    with eof l show ?thesis by (simp add: brings_def io_list_def)
  next
    case none
    then have "m' = m" by (simp add: m'_def io_process_op_result_def)
    with none l show ?thesis by (simp add: brings_def)
  next
    case seg
    have m': "m' = upd_result a r (\<lambda>x. x\<lparr>res_segment := None\<rparr>) (io_add_segment i s m)"
      using seg by (simp add: m'_def io_process_op_result_def)
    have b: "brings ?x = [s]" using seg by (simp add: brings_def)
    with s have "s \<notin> set ss" by auto
    note add = add_segment_run [OF l this]
    have at: "result_at (io_add_segment i s m) a x = result_at m a x" for x
      using add(3,4) by (simp add: result_at_def split: result_ref.splits)
    have "io_list m' i (ss @ [s])" using add(1) by (simp add: m' io_list_def)
    then show ?thesis using add(2,5) seg(1) b at by (simp add: m')
  qed
  then show "io_list m' i (ss @ brings ?x)" "io_eof (io_of m' i) \<longleftrightarrow> io_eof (io_of m i) \<or> res ?x = 0"
    "io_pending_bytes (io_of m' i) =
       foldl (wrap_add 64) (io_pending_bytes (io_of m i)) (map (\<lambda>s. seg_len (segments m s)) (brings ?x))"
    "res_next (result_at m' a x) = res_next (result_at m a x)"
    "x \<noteq> r \<Longrightarrow> result_at m' a x = result_at m a x" "seg_len (segments m' y) = seg_len (segments m y)"
    "io_op (io_of m' i) = io_op (io_of m i)"
    by blast+
qed

lemma process_loop_run:
  assumes "ref_chain m a p ks" "distinct ks" "io_list m i ss"
    and "\<forall>r \<in> set ks. 0 \<le> res (result_at m a r)"
    and "distinct (ss @ concat (map (\<lambda>r. brings (result_at m a r)) ks))"
  shows "\<exists>m'. process_segments_loop i a p n h m = Some (Inr (False,
      n + sum_list (map (\<lambda>r. res (result_at m a r)) ks),
      if ks = [] then h else has_flag (res_flags (result_at m a (last ks))) IORING_CQE_F_MORE), m') \<and>
    io_list m' i (ss @ concat (map (\<lambda>r. brings (result_at m a r)) ks)) \<and>
    (io_eof (io_of m' i) \<longleftrightarrow> io_eof (io_of m i) \<or> (\<exists>r \<in> set ks. res (result_at m a r) = 0)) \<and>
    io_pending_bytes (io_of m' i) = foldl (wrap_add 64) (io_pending_bytes (io_of m i))
      (map (\<lambda>s. seg_len (segments m s)) (concat (map (\<lambda>r. brings (result_at m a r)) ks)))"
  using assms
proof (induction ks arbitrary: m p n h ss)
  case Nil
  then show ?case by (subst process_segments_loop.simps) simp
next
  case (Cons r ks)
  let ?x = "result_at m a r" let ?m = "io_process_op_result i a r m"
  have p: "p = Some r" "ref_chain m a (map_option Heap (res_next ?x)) ks" "r \<notin> set ks" "0 \<le> res ?x"
    "distinct (ss @ brings ?x)" using Cons.prems by auto
  note st = process_result_run [OF Cons.prems(3) p(5,4)]
  have same: "result_at ?m a y = result_at m a y" if "y \<in> set ks" for y
    using st(5) [of y] p(3) that by auto
  then have br: "map (\<lambda>r. brings (result_at ?m a r)) ks = map (\<lambda>r. brings (result_at m a r)) ks"
    "map (\<lambda>r. res (result_at ?m a r)) ks = map (\<lambda>r. res (result_at m a r)) ks" by simp_all
  have ch: "ref_chain ?m a (map_option Heap (res_next (result_at ?m a r))) ks"
    using p(2) st(4) ref_chain_cong [of ks ?m a m] by simp
  let ?h = "has_flag (res_flags ?x) IORING_CQE_F_MORE"
  have "\<exists>m'. process_segments_loop i a (map_option Heap (res_next (result_at ?m a r))) (n + res ?x) ?h ?m =
      Some (Inr (False, n + res ?x + sum_list (map (\<lambda>r. res (result_at ?m a r)) ks),
        if ks = [] then ?h else has_flag (res_flags (result_at ?m a (last ks))) IORING_CQE_F_MORE), m') \<and>
    io_list m' i ((ss @ brings ?x) @ concat (map (\<lambda>r. brings (result_at ?m a r)) ks)) \<and>
    (io_eof (io_of m' i) \<longleftrightarrow> io_eof (io_of ?m i) \<or> (\<exists>r \<in> set ks. res (result_at ?m a r) = 0)) \<and>
    io_pending_bytes (io_of m' i) = foldl (wrap_add 64) (io_pending_bytes (io_of ?m i))
      (map (\<lambda>s. seg_len (segments ?m s)) (concat (map (\<lambda>r. brings (result_at ?m a r)) ks)))"
    by (rule Cons.IH [OF ch]) (use Cons.prems st(1) same in \<open>auto simp: br\<close>)
  moreover have "process_segments_loop i a p n h m =
      process_segments_loop i a (map_option Heap (res_next (result_at ?m a r))) (n + res ?x) ?h ?m"
    using p(1,4) by (subst process_segments_loop.simps) (auto simp: ENOBUFS_def ECANCELED_def Let_def)
  ultimately show ?case
    using st(2,3,6) br same by (auto simp: add.assoc cong: bex_cong)
qed

text \<open>The segment brought by a result as the operation holds it.\<close>

fun brought :: "int \<times> u32 \<times> addr option \<Rightarrow> addr list" where
  "brought (r, _, s) = (if r > 0 then (case s of Some s \<Rightarrow> [s] | None \<Rightarrow> []) else [])"

lemma brings_view: "brings x = brought (result_view x)" "res x = fst (result_view x)"
  by (simp_all add: brings_def result_view_def)

definition result_refs :: "addr list \<Rightarrow> result_ref list" where
  "result_refs rs = Inline # map Heap rs"

lemma op_results_refs:
  assumes "op_results m a rs xs" "xs \<noteq> []"
  shows "map (\<lambda>r. result_view (result_at m a r)) (result_refs rs) = xs"
    "ref_chain m a (Some Inline) (result_refs rs)" "distinct (result_refs rs)"
proof -
  have r: "result_view (op_result (ops m a)) # map (\<lambda>r. result_view (results m r)) rs = xs"
    "chain (rnext m) (res_next (op_result (ops m a))) rs"
    using assms by (auto simp: op_results_def)
  show "map (\<lambda>r. result_view (result_at m a r)) (result_refs rs) = xs"
    using r(1) by (simp add: result_refs_def result_at_def comp_def)
  have "chain (rnext m) p rs \<Longrightarrow> ref_chain m a (map_option Heap p) (map Heap rs)" for p
    by (induction rs arbitrary: p) (auto simp: rnext_def result_at_def)
  from this [OF r(2)] show "ref_chain m a (Some Inline) (result_refs rs)"
    by (simp add: result_refs_def result_at_def)
  show "distinct (result_refs rs)"
    using chain_distinct [OF r(2)] by (auto simp: result_refs_def distinct_map inj_on_def)
qed

text \<open>C40. Processing the results of a stream's multishot operation, when none is an error, moves the segment of every
  result to the end of the stream's list, in the order of the completions, adds their bytes to the bytes
  pending and to the count, notes the end of the stream when a result is 0, and tells from the last result
  whether more will follow.\<close>

theorem process_segments_moves:
  assumes "io_op (io_of m i) = Some a" "op_results m a rs xs" "xs \<noteq> []" "io_list m i ss"
    and "\<forall>x \<in> set xs. 0 \<le> fst x" "distinct (ss @ concat (map brought xs))"
  shows "\<exists>m'. io_process_segments i n m = Some (Inr (False, n + sum_list (map fst xs),
      has_flag (fst (snd (last xs))) IORING_CQE_F_MORE), m') \<and>
    io_list m' i (ss @ concat (map brought xs)) \<and>
    (io_eof (io_of m' i) \<longleftrightarrow> io_eof (io_of m i) \<or> 0 \<in> fst ` set xs) \<and>
    io_pending_bytes (io_of m' i) = foldl (wrap_add 64) (io_pending_bytes (io_of m i))
      (map (\<lambda>s. seg_len (segments m s)) (concat (map brought xs)))"
proof -
  let ?m = "clear_flags a OP_F_CQE_SEEN m" and ?ks = "result_refs rs"
  have "rnext ?m = rnext m" by (simp add: rnext_def fun_eq_iff)
  then have res: "op_results ?m a rs xs" using assms(2) by (simp add: op_results_def)
  note v = op_results_refs [OF res assms(3)]
  have l: "io_list ?m i ss" using assms(4) by (simp add: io_list_def snext_def [abs_def])
  have ne: "?ks \<noteq> []" by (simp add: result_refs_def)
  have m1: "map (\<lambda>r. brings (result_at ?m a r)) ?ks = map brought xs"
    "map (\<lambda>r. res (result_at ?m a r)) ?ks = map fst xs"
    unfolding v(1) [symmetric] by (simp_all add: brings_view)
  have set: "(\<lambda>r. result_view (result_at ?m a r)) ` set ?ks = set xs"
    unfolding v(1) [symmetric] by simp
  have nn: "\<forall>r \<in> set ?ks. 0 \<le> res (result_at ?m a r)"
    using assms(5) set by (auto simp: brings_view(2))
  have zero: "(\<exists>r \<in> set ?ks. res (result_at ?m a r) = 0) \<longleftrightarrow> 0 \<in> fst ` set xs"
    unfolding set [symmetric] by (auto simp: brings_view(2) image_iff)
  have lst: "res_flags (result_at ?m a (last ?ks)) = fst (snd (last xs))"
    unfolding v(1) [symmetric] using ne by (simp add: last_map result_view_def)
  have "io_process_segments i n m = process_segments_loop i a (Some Inline) n False ?m"
    using assms(1) by (simp add: io_process_segments_def the_op_def andthen_def)
  then show ?thesis
    using process_loop_run [OF v(2,3) l nn, of n False] assms(6) ne zero lst
    unfolding m1 by simp
qed

theorem process_segments_moves_witness:
  "\<exists>m'. io_process_segments 0 0 (upd_io 0 (\<lambda>x. x\<lparr>io_op := Some 0\<rparr>) demo_op) =
      Some (Inr (False, 11, False), m') \<and> io_list m' 0 [] \<and> \<not> io_eof (io_of m' 0)"
proof -
  let ?m = "upd_io 0 (\<lambda>x. x\<lparr>io_op := Some 0\<rparr>) demo_op"
  have r: "op_results ?m 0 [0] [(5, 0, None), (6, 0, None)]"
    using demo_op_ok(1) by (simp add: op_results_def rnext_def [abs_def])
  have "io_list ?m 0 []" "\<not> io_eof (io_of ?m 0)"
    by (simp_all add: io_list_def demo_op_def um_zero_def heap_zero_def)
  then show ?thesis
    using process_segments_moves [of ?m 0 0 "[0]" "[(5, 0, None), (6, 0, None)]" "[]" 0] r by auto
qed

section \<open>A wake-up that is not a completion\<close>

text \<open>A fiber that waits for data on a stream and is resumed with a value before anything has arrived takes the
  zeroed result of its operation for the end of the stream: the read returns nothing and the stream is marked
  as ended, for good.\<close>

theorem spurious_wakeup_is_eof:
  assumes "io_op (io_of m i) = Some a" "\<not> io_eof (io_of m i)" "\<not> op_has m a OP_F_CQE_SEEN"
    and "um_yield (sw 0) (clear_flags a OP_F_ASYNC m) = Some (Inr v, m1)" "\<not> um_value_is_exception_p v"
    and "io_of m1 i = io_of m i" "op_result (ops m1 a) = result_zero" "op_result_count (ops m1 a) = 0"
  shows "\<exists>m'. io_get_more_segments_bp sw i 0 0 m = Some (Inr 0, m') \<and> io_eof (io_of m' i) \<and>
    io_head (io_of m' i) = io_head (io_of m i)"
proof -
  have cv: "check v = ret v" using assms(5) by (cases v) (simp_all add: check_def)
  let ?m2 = "set_flags a OP_F_ASYNC m1"
  let ?m3 = "upd_io i (\<lambda>x. x\<lparr>io_eof := True\<rparr>) (clear_flags a OP_F_CQE_SEEN ?m2)"
  have "io_await_segments (sw 0) i m = Some (Inr (), ?m2)"
    using assms(1,3,4) cv by (simp add: io_await_segments_def the_op_def andthen_def)
  moreover have "io_process_segments i 0 ?m2 = Some (Inr (False, 0, False), ?m3)"
    using assms(1,6,7)
    by (simp add: io_process_segments_def the_op_def andthen_def process_segments_loop.simps [of i a "Some Inline"]
        process_segments_loop.simps [of i a None] io_process_op_result_def result_at_def result_zero_def
        ENOBUFS_def ECANCELED_def)
  moreover have "um_op_multishot_results_clear ?m3 a = Some ?m3"
    using assms(8) by (simp add: um_op_multishot_results_clear_def)
  ultimately have "bp_round (sw 0) i 0 m = Some (Inr 0, ?m3)"
    using assms(1,6) by (simp add: bp_round_def the_op_def andthen_def modify_opt_def)
  then show ?thesis
    using assms(2,6) by (subst io_get_more_segments_bp.simps) (simp add: to_int32_def)
qed

lemma yield_ret:
  "um_yield (ret v) m = Some (Inr v, m\<lparr>pending_fibers := insert (current_fiber m) (pending_fibers m) - {current_fiber m}\<rparr>)"
  by (simp add: um_yield_def)

theorem spurious_wakeup_is_eof_witness:
  "\<exists>m'. io_get_more_segments_bp (\<lambda>_. ret Qnil) 0 0 0 (upd_io 0 (\<lambda>x. x\<lparr>io_op := Some 0\<rparr>) um_zero) = Some (Inr 0, m') \<and>
    io_eof (io_of m' 0)"
proof -
  let ?m = "upd_io 0 (\<lambda>x. x\<lparr>io_op := Some 0\<rparr>) um_zero"
  have z: "io_of um_zero 0 = ios heap_zero 0" "ops um_zero = (\<lambda>_. op_zero)" by (simp_all add: um_zero_def)
  have "\<not> io_eof (io_of ?m 0)" "\<not> op_has ?m 0 OP_F_CQE_SEEN"
    by (simp_all add: z heap_zero_def op_has_def op_zero_def)
  then show ?thesis
    using spurious_wakeup_is_eof [of ?m 0 0 "\<lambda>_. ret Qnil" Qnil, OF _ _ _ yield_ret] z
    by (auto simp: op_zero_def)
qed

end
