(* ===== verification/UM_Stream_Mem.thy ===== *)
theory UM_Stream_Mem
  imports UM_Io_Props UM_Stream_Props UM_Pool_Props
begin

text \<open>
  Reading from the segments in memory. \<open>UM_Stream\<close> has the readers over the bytes of a stream; the
  functions of \<^verbatim>\<open>ext/um/um_io.c\<close> that take bytes off a stream are modelled here a second time, over the
  machine: they follow the list of segments and check a segment in when it has been passed. \<open>mem b n\<close>
  is byte \<open>n\<close> of buffer \<open>b\<close>. The two models are related by a simulation, which also shows that
  the buffer pool counts exactly the segments the stream still holds.
\<close>

section \<open>The functions\<close>

definition io_shift_head_mem :: "nat \<Rightarrow> um \<Rightarrow> um option" where
  "io_shift_head_mem i m = do {
     s \<leftarrow> io_head (io_of m i);
     let nxt = seg_next (segments m s);
     let m = upd_io i (\<lambda>x. x\<lparr>io_head := nxt, io_tail := (if nxt = None then None else io_tail x)\<rparr>) m;
     m \<leftarrow> um_segment_checkin m s;
     Some (upd_io i (\<lambda>x. x\<lparr>io_pos := 0\<rparr>) m)
   }"

text \<open>Moving on by \<open>n\<close> bytes of the first segment.\<close>

definition io_advance_mem :: "nat \<Rightarrow> nat \<Rightarrow> um \<Rightarrow> um option" where
  "io_advance_mem n i m = do {
     let m = upd_io i (\<lambda>x. x\<lparr>io_pos := wrap_add 64 (io_pos x) n,
                             io_consumed_bytes := wrap_add 64 (io_consumed_bytes x) n,
                             io_pending_bytes := wrap_sub 64 (io_pending_bytes x) n\<rparr>) m;
     s \<leftarrow> io_head (io_of m i);
     if io_pos (io_of m i) = seg_len (segments m s) then io_shift_head_mem i m else Some m
   }"

definition seg_slice :: "(addr \<Rightarrow> nat \<Rightarrow> char) \<Rightarrow> um_segment \<Rightarrow> nat \<Rightarrow> nat \<Rightarrow> char list" where
  "seg_slice mem x from n =
     (case seg_buffer x of None \<Rightarrow> [] | Some b \<Rightarrow> map (mem b) [seg_ptr x + from ..< seg_ptr x + from + n])"

partial_function (option) io_copy_mem ::
  "(addr \<Rightarrow> nat \<Rightarrow> char) \<Rightarrow> nat \<Rightarrow> nat \<Rightarrow> um \<Rightarrow> (char list \<times> um) option" where
  "io_copy_mem mem i len m =
     (if len = 0 then Some ([], m)
      else case io_head (io_of m i) of
             None \<Rightarrow> None
           | Some s \<Rightarrow>
               (let segment_len = wrap_sub 64 (seg_len (segments m s)) (io_pos (io_of m i));
                    cpy_len = (if segment_len \<le> len then segment_len else len) in
                Option.bind (io_advance_mem cpy_len i m) (\<lambda>m'.
                Option.bind (io_copy_mem mem i (len - cpy_len) m') (\<lambda>r.
                Some (seg_slice mem (segments m s) (io_pos (io_of m i)) cpy_len @ fst r, snd r)))))"

text \<open>\<open>get k\<close> is the \<open>k\<close>-th call of \<open>io_get_more_segments\<close>.\<close>

partial_function (option) skip_loop_mem ::
  "(nat \<Rightarrow> int comp) \<Rightarrow> nat \<Rightarrow> nat \<Rightarrow> bool \<Rightarrow> nat \<Rightarrow> unit comp" where
  "skip_loop_mem get i inc safe_inc k m =
     (if inc = 0 then Some (Inr (), m)
      else case io_head (io_of m i) of
             None \<Rightarrow> None
           | Some s \<Rightarrow>
               (let segment_len = wrap_sub 64 (seg_len (segments m s)) (io_pos (io_of m i));
                    inc_len = (if segment_len \<le> inc then segment_len else inc) in
                Option.bind (io_advance_mem inc_len i m) (\<lambda>m.
                  if inc - inc_len \<noteq> 0 \<and> safe_inc \<and> io_head (io_of m i) = None then
                    Option.bind (get k m) (\<lambda>(y, m).
                      case y of
                        Inl e \<Rightarrow> Some (Inl e, m)
                      | Inr r \<Rightarrow>
                          if r = 0 then Some (Inr (), m)
                          else skip_loop_mem get i (inc - inc_len) safe_inc (Suc k) m)
                  else skip_loop_mem get i (inc - inc_len) safe_inc k m)))"

definition io_skip_mem :: "(nat \<Rightarrow> int comp) \<Rightarrow> nat \<Rightarrow> nat \<Rightarrow> bool \<Rightarrow> unit comp" where
  "io_skip_mem get i inc safe_inc =
     andthen (gets (\<lambda>m. io_of m i)) (\<lambda>x.
     if io_eof x \<and> io_head x = None then ret ()
     else if safe_inc \<and> io_tail x = None
     then andthen (get 0) (\<lambda>r. if r = 0 then ret () else skip_loop_mem get i inc safe_inc 1)
     else skip_loop_mem get i inc safe_inc 0)"

definition io_consume_string_mem ::
  "(nat \<Rightarrow> int comp) \<Rightarrow> (addr \<Rightarrow> nat \<Rightarrow> char) \<Rightarrow> nat \<Rightarrow> nat \<Rightarrow> nat \<Rightarrow> bool \<Rightarrow> char list comp" where
  "io_consume_string_mem get mem i len inc safe_inc =
     andthen (\<lambda>m. map_option (\<lambda>(str, m). (Inr str, m)) (io_copy_mem mem i len m)) (\<lambda>str.
     andthen (if inc \<noteq> 0 then io_skip_mem get i inc safe_inc else ret ()) (\<lambda>_. ret str))"

section \<open>The abstraction\<close>

text \<open>
  \<open>held m ss a\<close> is how many of the segments \<open>ss\<close> lie in buffer \<open>a\<close>; \<open>other a\<close> how many references to it
  there are from elsewhere.
\<close>

definition seg_bytes :: "(addr \<Rightarrow> nat \<Rightarrow> char) \<Rightarrow> um_segment \<Rightarrow> char list" where
  "seg_bytes mem x = seg_slice mem x 0 (seg_len x)"

definition held :: "um \<Rightarrow> addr list \<Rightarrow> addr \<Rightarrow> nat" where
  "held m ss a = length (filter (\<lambda>s. seg_buffer (segments m s) = Some a) ss)"

definition io_view :: "(addr \<Rightarrow> nat \<Rightarrow> char) \<Rightarrow> um \<Rightarrow> nat \<Rightarrow> addr list \<Rightarrow> stream \<Rightarrow> bool" where
  "io_view mem m i ss s \<longleftrightarrow>
     io_list m i ss \<and> segs s = map (\<lambda>x. seg_bytes mem (segments m x)) ss \<and>
     (\<forall>x \<in> set ss. seg_buffer (segments m x) \<noteq> None) \<and>
     io_pos (io_of m i) = spos s \<and> io_consumed_bytes (io_of m i) = s_consumed s \<and>
     io_pending_bytes (io_of m i) = s_pending s \<and> io_eof (io_of m i) = s_eof s"

definition io_sim ::
  "(addr \<Rightarrow> nat \<Rightarrow> char) \<Rightarrow> (addr \<Rightarrow> nat) \<Rightarrow> um \<Rightarrow> nat \<Rightarrow> addr list \<Rightarrow> stream \<Rightarrow> bool" where
  "io_sim mem other m i ss s \<longleftrightarrow>
     io_view mem m i ss s \<and> stream_ok s \<and> s_consumed s + length (avail s) < 2 ^ 64 \<and>
     (\<forall>b \<in> set (segs s). length b < 2 ^ 64) \<and>
     (\<exists>fl. pool_inv m (\<lambda>a. other a + held m ss a) fl)"

lemma length_seg_slice [simp]: "seg_buffer x \<noteq> None \<Longrightarrow> length (seg_slice mem x p n) = n"
  by (auto simp: seg_slice_def)

lemma seg_slice_bytes:
  "p + n \<le> seg_len x \<Longrightarrow> seg_slice mem x p n = take n (drop p (seg_bytes mem x))"
  by (auto simp: seg_slice_def seg_bytes_def drop_map take_map split: option.splits)

lemma held_Cons:
  "held m (s # ss) a = (if seg_buffer (segments m s) = Some a then 1 else 0) + held m ss a"
  by (simp add: held_def)

lemma checkin_segment_frame:
  assumes "um_segment_checkin m x = Some m'"
  shows "heap m' = heap m" "seg_buffer (segments m' y) = seg_buffer (segments m y)"
    "seg_bytes mem (segments m' y) = seg_bytes mem (segments m y)" "seg_len (segments m' y) = seg_len (segments m y)"
    "y \<noteq> x \<Longrightarrow> snext m' y = snext m y"
proof -
  obtain b m1 where m1: "bp_buffer_checkin m b = Some m1" "m' = um_segment_free m1 x"
    using assms by (auto simp: um_segment_checkin_def bind_eq_Some_conv)
  have fr: "heap m1 = heap m" "segments m1 = segments m"
    using pool_viewD(3,7) [OF checkin_frame [OF m1(1)]] by simp_all
  show "heap m' = heap m" "seg_buffer (segments m' y) = seg_buffer (segments m y)"
    "seg_bytes mem (segments m' y) = seg_bytes mem (segments m y)" "seg_len (segments m' y) = seg_len (segments m y)"
    "y \<noteq> x \<Longrightarrow> snext m' y = snext m y"
    by (simp_all add: m1(2) um_segment_free_def fr seg_bytes_def seg_slice_def snext_def split: option.split)
qed

lemma held_cong:
  "(\<And>x. x \<in> set ss \<Longrightarrow> seg_buffer (segments m' x) = seg_buffer (segments m x)) \<Longrightarrow> held m' ss = held m ss"
  by (auto simp: held_def fun_eq_iff intro!: arg_cong [where f = length] filter_cong)

section \<open>Simulation\<close>

lemma pool_inv_upd_io [simp]: "pool_inv (upd_io i f m) ext fl \<longleftrightarrow> pool_inv m ext fl"
  by (rule pool_inv_cong) (simp_all add: upd_io_def upd_heap_def same_slots_def)

lemma shift_head_sim:
  assumes v: "io_view mem m i (x # ss) s" and pi: "pool_inv m (\<lambda>a. other a + held m (x # ss) a) fl"
  shows "\<exists>m' fl'. io_shift_head_mem i m = Some m' \<and> io_view mem m' i ss (io_shift_head s) \<and>
    pool_inv m' (\<lambda>a. other a + held m' ss a) fl'"
proof -
  let ?nxt = "seg_next (segments m x)"
  let ?m = "upd_io i (\<lambda>y. y\<lparr>io_head := ?nxt, io_tail := (if ?nxt = None then None else io_tail y)\<rparr>) m"
  have l: "one_way (snext m) (Some x) (io_tail (io_of m i)) (x # ss)" and hd: "io_head (io_of m i) = Some x"
    using v by (auto simp: io_view_def io_list_def one_way_def)
  have x: "x \<notin> set ss" using l chain_distinct [of "snext m" "Some x" "x # ss"] by (simp add: one_way_def)
  obtain b where b: "seg_buffer (segments ?m x) = Some b" using v by (auto simp: io_view_def)
  have "held m (x # ss) b > 0" using b by (simp add: held_Cons)
  then obtain m1 fl' where m1: "um_segment_checkin ?m x = Some m1"
    "pool_inv m1 ((\<lambda>a. other a + held m (x # ss) a)(b := other b + held m (x # ss) b - 1)) fl'"
    using segment_checkin_inv [of ?m "\<lambda>a. other a + held m (x # ss) a" fl x b] pi b by auto
  note fr = checkin_segment_frame [OF m1(1)]
  let ?m' = "upd_io i (\<lambda>x. x\<lparr>io_pos := 0\<rparr>) m1"
  have h: "held ?m' ss = held m ss" using fr(2) by (intro held_cong) simp
  have "(\<lambda>a. other a + held m (x # ss) a)(b := other b + held m (x # ss) b - 1) = (\<lambda>a. other a + held ?m' ss a)"
    using b h by (auto simp: held_Cons)
  with m1(2) have "pool_inv ?m' (\<lambda>a. other a + held ?m' ss a) fl'" by simp
  moreover have io: "io_of ?m' i = (io_of m i)\<lparr>io_head := ?nxt,
      io_tail := (if ?nxt = None then None else io_tail (io_of m i)), io_pos := 0\<rparr>"
    using fr(1) by simp
  have "one_way (snext m) (snext m x) (if snext m x = None then None else io_tail (io_of m i)) ss"
    by (rule one_way_tl [OF l])
  then have "one_way (snext ?m') ?nxt (if ?nxt = None then None else io_tail (io_of m i)) ss"
    using fr(5) x one_way_cong [of ss "snext ?m'" "snext m"] by (metis (no_types, lifting) snext_def upd_io_fields(5))
  then have "io_view mem ?m' i ss (io_shift_head s)"
    using v io fr(2,3) by (simp add: io_view_def io_list_def)
  moreover have "io_shift_head_mem i m = Some ?m'" using hd m1(1) by (simp add: io_shift_head_mem_def Let_def)
  ultimately show ?thesis by blast
qed

lemma io_sim_head:
  assumes "io_sim mem other m i ss s" "segs s = b # bs"
  shows "\<exists>x xs. ss = x # xs \<and> io_head (io_of m i) = Some x \<and> b = seg_bytes mem (segments m x) \<and>
    length b = seg_len (segments m x) \<and> seg_buffer (segments m x) \<noteq> None \<and> spos s < length b"
proof -
  have v: "io_view mem m i ss s" and ok: "stream_ok s" using assms(1) by (simp_all add: io_sim_def)
  obtain x xs where x: "ss = x # xs" using v assms(2) by (cases ss) (auto simp: io_view_def)
  have "io_head (io_of m i) = Some x" using v by (simp add: io_view_def io_list_def one_way_def x)
  moreover have "seg_buffer (segments m x) \<noteq> None" "b = seg_bytes mem (segments m x)"
    using v assms(2) by (auto simp: io_view_def x)
  ultimately show ?thesis using x stream_ok_Cons [OF ok assms(2)] by (auto simp: seg_bytes_def)
qed

lemma advance_sim:
  assumes sim: "io_sim mem other m i ss s" and seg: "segs s = b # bs" and n: "n \<le> length b - spos s"
  shows "\<exists>m' ss'. io_advance_mem n i m = Some m' \<and> io_sim mem other m' i ss' (io_advance n s) \<and>
    (ss' = ss \<or> ss' = tl ss)"
proof -
  have v: "io_view mem m i ss s" and ok: "stream_ok s" and room: "s_consumed s + length (avail s) < 2 ^ 64"
    using sim by (simp_all add: io_sim_def)
  obtain fl where pi: "pool_inv m (\<lambda>a. other a + held m ss a) fl" using sim by (auto simp: io_sim_def)
  obtain x xs where x: "ss = x # xs" "io_head (io_of m i) = Some x" "length b = seg_len (segments m x)" "spos s < length b"
    using io_sim_head [OF sim seg] by blast
  let ?s = "s\<lparr>spos := spos s + n, s_consumed := s_consumed s + n, s_pending := s_pending s - n\<rparr>"
  let ?m = "upd_io i (\<lambda>y. y\<lparr>io_pos := wrap_add 64 (io_pos y) n, io_consumed_bytes := wrap_add 64 (io_consumed_bytes y) n,
      io_pending_bytes := wrap_sub 64 (io_pending_bytes y) n\<rparr>) m"
  have le: "length b - spos s \<le> length (avail s)" using x(4) by (simp add: avail_Cons [OF seg])
  have b: "s_pending s = length (avail s)" "spos s + n < 2 ^ 64" "s_consumed s + n < 2 ^ 64" "n \<le> s_pending s"
  proof -
    show p: "s_pending s = length (avail s)" using ok by (simp add: stream_ok_def)
    show "n \<le> s_pending s" "s_consumed s + n < 2 ^ 64" using n le room p by simp_all
    have "length b < 2 ^ 64" using sim seg by (simp add: io_sim_def)
    then show "spos s + n < 2 ^ 64" using n x(4) by simp
  qed
  have v1: "io_view mem ?m i ss ?s" using v b by (simp add: io_view_def io_list_def wrap_add_small)
  have h: "held ?m ss = held m ss" by (rule held_cong) simp
  have moved: "moved n s (io_advance n s)" by (rule advance_moved [OF ok seg n])
  have keep: "stream_ok (io_advance n s)" "s_consumed (io_advance n s) + length (avail (io_advance n s)) < 2 ^ 64"
      "\<forall>b \<in> set (segs (io_advance n s)). length b < 2 ^ 64"
    using moved room b(1,4) sim seg by (auto simp: moved_def io_advance_segs io_sim_def)
  have pos: "io_pos (io_of ?m i) = seg_len (segments ?m x) \<longleftrightarrow> spos s + n = length b"
    using v b x(3) by (simp add: io_view_def wrap_add_small)
  show ?thesis
  proof (cases "spos s + n = length b")
    case True
    obtain m' fl' where m': "io_shift_head_mem i ?m = Some m'" "io_view mem m' i xs (io_shift_head ?s)"
      "pool_inv m' (\<lambda>a. other a + held m' xs a) fl'"
      using shift_head_sim [OF v1 [unfolded x(1)], of other fl] pi h x(1) by auto
    have "io_advance_mem n i m = Some m'" using x(2) pos True m'(1) by (simp add: io_advance_mem_def)
    moreover have "io_advance n s = io_shift_head ?s" using True seg by (simp add: io_advance_def)
    ultimately show ?thesis using m'(2,3) keep x(1) by (intro exI [of _ m'] exI [of _ xs]) (auto simp: io_sim_def)
  next
    case False
    have "io_advance_mem n i m = Some ?m" using x(2) pos False by (simp add: io_advance_mem_def)
    moreover have "io_advance n s = ?s" using False seg by (simp add: io_advance_def)
    ultimately show ?thesis using v1 pi h keep by (intro exI [of _ ?m] exI [of _ ss]) (auto simp: io_sim_def)
  qed
qed

text \<open>What the abstract function computes, the function in memory computes too, as long as no bytes beyond those
  available are asked for.\<close>

lemma copy_sim:
  "io_copy n s = Some (str, s') \<Longrightarrow> io_sim mem other m i ss s \<Longrightarrow>
   \<exists>m' ss' k. io_copy_mem mem i n m = Some (str, m') \<and> io_sim mem other m' i ss' s' \<and> ss' = drop k ss"
proof (induction n s arbitrary: str m ss rule: io_copy.induct)
  case (1 n s)
  show ?case
  proof (cases "n = 0")
    case True
    with 1(2,3) show ?thesis by (intro exI [of _ m] exI [of _ ss] exI [of _ 0]) (simp add: io_copy.simps [of 0] io_copy_mem.simps)
  next
    case n: False
    then obtain b bs where seg: "segs s = b # bs" using 1(2) by (cases "segs s") (auto simp: io_copy.simps [of n])
    obtain x xs where x: "ss = x # xs" "io_head (io_of m i) = Some x" "b = seg_bytes mem (segments m x)"
      "length b = seg_len (segments m x)" "seg_buffer (segments m x) \<noteq> None" "spos s < length b"
      using io_sim_head [OF 1(3) seg] by blast
    have pos: "io_pos (io_of m i) = spos s" using 1(3) by (simp add: io_sim_def io_view_def)
    define c where "c = min (length b - spos s) n"
    have c: "c \<le> length b - spos s" by (simp add: c_def)
    obtain str1 where str: "io_copy (n - c) (io_advance c s) = Some (str1, s')" "str = take c (drop (spos s) b) @ str1"
      using 1(2) n seg x(6) by (auto simp: io_copy.simps [of n s] Let_def simp flip: c_def)
    obtain m1 ss1 where m1: "io_advance_mem c i m = Some m1" "io_sim mem other m1 i ss1 (io_advance c s)"
      "ss1 = ss \<or> ss1 = tl ss" using advance_sim [OF 1(3) seg c] by blast
    have np: "\<not> length b < spos s" using x(6) by simp
    obtain m' ss' k where m': "io_copy_mem mem i (n - c) m1 = Some (str1, m')" "io_sim mem other m' i ss' s'"
      "ss' = drop k ss1" using 1(1) [OF n seg np c_def str(1) m1(2)] by blast
    have sl: "seg_slice mem (segments m x) (spos s) c = take c (drop (spos s) b)"
      unfolding x(3) by (rule seg_slice_bytes) (use c x(4,6) in simp)
    have cc: "(if length b - spos s \<le> n then length b - spos s else n) = c" by (simp add: c_def)
    have "io_copy_mem mem i n m = Some (str, m')"
      using n x(2,6) m1(1) m'(1) sl str(2) cc
      by (subst io_copy_mem.simps) (simp add: pos Let_def flip: x(4))
    moreover have "\<exists>k. ss' = drop k ss" using m1(3) m'(3) by (auto simp: drop_Suc [symmetric])
    ultimately show ?thesis using m'(2) by blast
  qed
qed

lemma skip_sim:
  "n \<le> length (avail s) \<Longrightarrow> io_sim mem other m i ss s \<Longrightarrow>
   \<exists>m' ss' s' k. skip_loop_mem get i n safe_inc j m = Some (Inr (), m') \<and> skip_loop n safe_inc s = Some s' \<and>
     io_sim mem other m' i ss' s' \<and> ss' = drop k ss"
proof (induction n arbitrary: s m ss rule: less_induct)
  case (less n)
  show ?case
  proof (cases "n = 0")
    case True
    with less(3) show ?thesis
      by (intro exI [of _ m] exI [of _ ss] exI [of _ s] exI [of _ 0]) (simp add: skip_loop.simps [of 0] skip_loop_mem.simps)
  next
    case n: False
    then obtain b bs where seg: "segs s = b # bs" using less(2) by (cases "segs s") (auto simp: avail_def)
    have ok: "stream_ok s" using less(3) by (simp add: io_sim_def)
    obtain x xs where x: "ss = x # xs" "io_head (io_of m i) = Some x" "length b = seg_len (segments m x)" "spos s < length b"
      using io_sim_head [OF less(3) seg] by blast
    have pos: "io_pos (io_of m i) = spos s" using less(3) by (simp add: io_sim_def io_view_def)
    define c where "c = min (length b - spos s) n"
    have c: "c \<le> length b - spos s" "0 < c" "c \<le> n" using n x(4) by (simp_all add: c_def)
    obtain m1 ss1 where m1: "io_advance_mem c i m = Some m1" "io_sim mem other m1 i ss1 (io_advance c s)"
      "ss1 = ss \<or> ss1 = tl ss" using advance_sim [OF less(3) seg c(1)] by blast
    have mv: "avail (io_advance c s) = drop c (avail s)" using advance_moved [OF ok seg c(1)] by (simp add: moved_def)
    have len: "n - c \<le> length (avail (io_advance c s))" using less(2) by (simp add: mv)
    obtain m' ss' s' k where m': "skip_loop_mem get i (n - c) safe_inc j m1 = Some (Inr (), m')"
      "skip_loop (n - c) safe_inc (io_advance c s) = Some s'" "io_sim mem other m' i ss' s'" "ss' = drop k ss1"
      using less(1) [OF _ len m1(2)] c n by auto
    have more: "n - c = 0 \<or> segs (io_advance c s) \<noteq> []"
      using len avail_Nil [of "io_advance c s"] m1(2) by (auto simp: io_sim_def)
    then have more_mem: "n - c = 0 \<or> io_head (io_of m1 i) \<noteq> None"
      using io_sim_head [OF m1(2)] by (cases "segs (io_advance c s)") auto
    have cc: "(if length b - spos s \<le> n then length b - spos s else n) = c" by (simp add: c_def)
    have "skip_loop_mem get i n safe_inc j m = Some (Inr (), m')"
      using n x(2,4) m1(1) m'(1) cc more_mem
      by (subst skip_loop_mem.simps) (auto simp: pos Let_def simp flip: x(3))
    moreover have "skip_loop n safe_inc s = Some s'"
      using n m'(2) seg x(4) more
      by (subst skip_loop.simps) (auto simp: Let_def io_advance_segs simp flip: c_def)
    moreover have "\<exists>k. ss' = drop k ss" using m1(3) m'(4) by (auto simp: drop_Suc [symmetric])
    ultimately show ?thesis using m'(3) by blast
  qed
qed

text \<open>C22. Taking a string of \<open>len\<close> bytes and \<open>inc\<close> bytes of delimiter off a stream, both in its segments, gives the bytes
  at the stream's position as the model over bytes does. The segments passed, and only those, are checked
  in: the pool's invariant holds with the references of the segments that are left.\<close>

theorem consume_string_refines:
  assumes sim: "io_sim mem other m i ss s" and len: "len + inc \<le> length (avail s)"
  shows "\<exists>m' ss' s'. io_consume_string_mem get mem i len inc safe_inc m = Some (Inr (take len (avail s)), m') \<and>
    io_consume_string len inc safe_inc s = Some (Some (take len (avail s)), s') \<and>
    io_sim mem other m' i ss' s' \<and> avail s' = drop (len + inc) (avail s) \<and> (\<exists>k. ss' = drop k ss)"
proof -
  have ok: "stream_ok s" using sim by (simp add: io_sim_def)
  obtain s1 where s1: "io_copy len s = Some (take len (avail s), s1)" "moved len s s1"
    using io_copy_moved [OF ok, of len] len by auto
  obtain m1 ss1 k where m1: "io_copy_mem mem i len m = Some (take len (avail s), m1)" "io_sim mem other m1 i ss1 s1"
    "ss1 = drop k ss" using copy_sim [OF s1(1) sim] by blast
  have av: "avail s1 = drop len (avail s)" using s1(2) by (simp add: moved_def)
  show ?thesis
  proof (cases "inc = 0")
    case True
    then show ?thesis using s1(1) m1 av
      by (intro exI [of _ m1] exI [of _ ss1] exI [of _ s1])
        (auto simp: io_consume_string_mem_def io_consume_string_def andthen_def)
  next
    case False
    have le: "inc \<le> length (avail s1)" using len by (simp add: av)
    obtain b bs where seg: "segs s1 = b # bs" using False le by (cases "segs s1") (auto simp: avail_def)
    obtain x t where x: "io_head (io_of m1 i) = Some x" "io_tail (io_of m1 i) = Some t"
      using io_sim_head [OF m1(2) seg] m1(2) by (auto simp: io_sim_def io_view_def io_list_def one_way_def)
    obtain m' ss' s' j where m': "skip_loop_mem get i inc safe_inc 0 m1 = Some (Inr (), m')"
      "skip_loop inc safe_inc s1 = Some s'" "io_sim mem other m' i ss' s'" "ss' = drop j ss1"
      using skip_sim [OF le m1(2), of get safe_inc 0] by blast
    have "io_skip_mem get i inc safe_inc m1 = Some (Inr (), m')"
      using x m'(1) by (simp add: io_skip_mem_def andthen_def)
    moreover have "io_skip inc safe_inc s1 = Some s'" using m'(2) seg by (simp add: io_skip_def)
    moreover have "avail s' = drop (len + inc) (avail s)"
      using skip_loop_moved [of s1 inc safe_inc] m1(2) le m'(2) by (auto simp: io_sim_def moved_def av add.commute)
    ultimately show ?thesis using False s1(1) m1(1,3) m'(3,4)
      by (intro exI [of _ m'] exI [of _ ss'] exI [of _ s'])
        (auto simp: io_consume_string_mem_def io_consume_string_def andthen_def)
  qed
qed

definition demo_io :: um where
  "demo_io = upd_segment 0 (\<lambda>x. x\<lparr>seg_ptr := 0, seg_len := 5, seg_next := None\<rparr>)
     (upd_io 0 (\<lambda>x. x\<lparr>io_head := Some 0, io_tail := Some 0, io_consumed_bytes := 0, io_pending_bytes := 5,
        io_pos := 0, io_eof := False, io_op := None, io_working_buffer := None\<rparr>) demo_segment)"

lemma demo_io_sim:
  "io_sim (\<lambda>_ n. ''ab,cd'' ! n) (\<lambda>_. 0) demo_io 0 [0]
     \<lparr>segs = [''ab,cd''], spos = 0, s_consumed = 0, s_pending = 5, s_eof = False, feed = []\<rparr>"
proof -
  have io: "io_head (io_of demo_io 0) = Some 0" "io_tail (io_of demo_io 0) = Some 0" "io_pos (io_of demo_io 0) = 0"
    "io_consumed_bytes (io_of demo_io 0) = 0" "io_pending_bytes (io_of demo_io 0) = 5" "\<not> io_eof (io_of demo_io 0)"
    by (simp_all add: demo_io_def)
  have sg: "seg_buffer (segments demo_io 0) = Some 0" "seg_ptr (segments demo_io 0) = 0" "seg_len (segments demo_io 0) = 5"
    "snext demo_io 0 = None"
    using demo_segment_inv(2) by (simp_all add: demo_io_def)
  have "[0..<5] = [0, 1, 2, 3, 4 :: nat]" by (simp add: upt_rec)
  then have b: "seg_bytes (\<lambda>_ n. ''ab,cd'' ! n) (segments demo_io 0) = ''ab,cd''"
    using sg by (simp add: seg_bytes_def seg_slice_def)
  have "pool_inv demo_io (\<lambda>a. 0 + held demo_io [0] a) [] \<longleftrightarrow> pool_inv demo_segment (\<lambda>a. 0 + held demo_io [0] a) []"
    by (rule pool_inv_cong) (simp_all add: demo_io_def upd_segment_def upd_io_def upd_heap_def same_slots_def)
  moreover have "(\<lambda>a. 0 + held demo_io [0] a) = (\<lambda>_. 0)(0 := 1)" using sg by (auto simp: held_def)
  ultimately have "pool_inv demo_io (\<lambda>a. 0 + held demo_io [0] a) []" using demo_segment_inv(1) by (simp only:)
  then show ?thesis using io sg b
    by (auto simp: io_sim_def io_view_def io_list_def one_way_def stream_ok_def avail_def)
qed

theorem consume_string_refines_witness:
  "\<exists>m'. io_consume_string_mem (\<lambda>_. ret 0) (\<lambda>_ n. ''ab,cd'' ! n) 0 2 1 False demo_io = Some (Inr ''ab'', m')"
  using consume_string_refines [OF demo_io_sim, of 2 1 "\<lambda>_. ret 0" False] by (auto simp: avail_def)

end
