(* ===== verification/UM_Io_Class.thy ===== *)
theory UM_Io_Class
  imports UM_Stream_Mem UM_Resp
begin

text \<open>
  \<^verbatim>\<open>ext/um/um_io_class.c\<close>: the methods of a stream, over the functions of \<open>UM_Io\<close>, the readers of \<open>UM_Stream\<close> and
  the encoder of \<open>UM_Resp\<close>. They convert their arguments first. The machine is reached through the
  pointer of the stream, which is null before \<open>initialize\<close> has set it (\<open>io_machine\<close>).
\<close>

section \<open>Life of a stream\<close>

text \<open>What marking and compaction of the segments did is commented out: they follow the list.\<close>

partial_function (option) io_mark_segments :: "um \<Rightarrow> addr option \<Rightarrow> unit option" where
  "io_mark_segments m p =
     (case p of None \<Rightarrow> Some () | Some s \<Rightarrow> io_mark_segments m (seg_next (segments m s)))"

partial_function (option) io_compact_segments :: "um \<Rightarrow> addr option \<Rightarrow> unit option" where
  "io_compact_segments m p =
     (case p of None \<Rightarrow> Some () | Some s \<Rightarrow> io_compact_segments m (seg_next (segments m s)))"

text \<open>The values marked; \<open>self\<close> is the object of the machine.\<close>

definition IO_mark :: "rvalue \<Rightarrow> um \<Rightarrow> nat \<Rightarrow> rvalue list option" where
  "IO_mark self m i =
     (let x = io_of m i in
      if \<not> io_machine x then None
      else if io_has_target_obj_p x
      then map_option (\<lambda>_. [io_self x, self, Obj (io_target x)]) (io_mark_segments m (io_head x))
      else Some [io_self x, self])"

definition IO_compact :: "(rvalue \<Rightarrow> rvalue) \<Rightarrow> nat \<Rightarrow> um \<Rightarrow> um option" where
  "IO_compact loc i m =
     (let m = upd_io i (\<lambda>x. x\<lparr>io_self := loc (io_self x)\<rparr>) m in
      if io_has_target_obj_p (io_of m i)
      then
        (let m = upd_io i (\<lambda>x. x\<lparr>io_target := (case loc (Obj (io_target x)) of Obj t \<Rightarrow> t | _ \<Rightarrow> io_target x)\<rparr>) m in
         map_option (\<lambda>_. m) (io_compact_segments m (io_head (io_of m i))))
      else Some m)"

definition IO_free :: "nat \<Rightarrow> unit comp" where
  "IO_free i = io_clear i"

definition IO_clear :: "nat \<Rightarrow> rvalue comp" where
  "IO_clear i = andthen (io_clear i) (\<lambda>_. gets (\<lambda>m. io_self (io_of m i)))"

text \<open>The counters are of type \<open>size_t\<close> and made numbers as if they were \<open>long\<close>.\<close>

definition IO_consumed :: "um_io \<Rightarrow> rvalue" where
  "IO_consumed x = Fixnum (to_ssize (int (io_consumed_bytes x)))"

definition IO_pending :: "um_io \<Rightarrow> rvalue" where
  "IO_pending x = Fixnum (to_ssize (int (io_pending_bytes x)))"

section \<open>Reading\<close>

text \<open>A method that reads faults (\<open>None\<close>), raises or returns a value and the stream after it.\<close>

type_synonym 'a reading = "(um_error + 'a \<times> stream) option"

definition with_arg :: "um_error + 'n \<Rightarrow> ('n \<Rightarrow> ('a \<times> stream) option) \<Rightarrow> 'a reading" where
  "with_arg r k = (case r of Inl e \<Rightarrow> Some (Inl e) | Inr n \<Rightarrow> map_option Inr (k n))"

definition IO_read_line :: "rvalue \<Rightarrow> stream \<Rightarrow> char list option reading" where
  "IO_read_line limit s = with_arg (num2ulong limit) (\<lambda>n. io_read_line n s)"

definition IO_read :: "rvalue \<Rightarrow> stream \<Rightarrow> char list option reading" where
  "IO_read len s = with_arg (num2long len) (\<lambda>n. io_read n 0 False s)"

definition IO_read_to_delim :: "char list \<Rightarrow> rvalue \<Rightarrow> stream \<Rightarrow> char list option reading" where
  "IO_read_to_delim delim limit s =
     (case num2long limit of
        Inl e \<Rightarrow> Some (Inl e)
      | Inr n \<Rightarrow>
          (case io_read_to_delim delim n s of Inl e \<Rightarrow> Some (Inl e) | Inr r \<Rightarrow> map_option Inr r))"

text \<open>The number of bytes becomes a \<open>size_t\<close>; the argument itself is returned.\<close>

definition IO_skip :: "rvalue \<Rightarrow> stream \<Rightarrow> rvalue reading" where
  "IO_skip len s =
     with_arg (num2long len) (\<lambda>n. map_option (Pair len) (io_skip (nat (n mod 2 ^ 64)) True s))"

text \<open>The chunks given to the block, which does not touch the stream.\<close>

definition IO_read_each :: "stream \<Rightarrow> (char list list \<times> stream) option" where
  "IO_read_each s = io_read_each s"

section \<open>Writing\<close>

definition IO_write ::
  "(nat \<Rightarrow> rvalue comp) \<Rightarrow> (nat \<Rightarrow> nat) \<Rightarrow> (nat \<Rightarrow> nat \<Rightarrow> nat \<Rightarrow> int \<Rightarrow> int comp) \<Rightarrow> nat \<Rightarrow> nat list \<Rightarrow> rvalue comp" where
  "IO_write sw base ssl_write i bufs = io_writev sw base ssl_write i bufs"

text \<open>The message is encoded into the new string \<open>buf\<close>, which is then written.\<close>

definition IO_resp_write ::
  "(nat \<Rightarrow> rvalue comp) \<Rightarrow> (nat \<Rightarrow> nat \<Rightarrow> int \<Rightarrow> int comp) \<Rightarrow> (rat \<Rightarrow> char list) \<Rightarrow> nat \<Rightarrow> nat \<Rightarrow> resp \<Rightarrow> rvalue comp" where
  "IO_resp_write sw ssl_write fmt i buf v =
     (case resp_encode fmt (write_buffer_init []) v of
        None \<Rightarrow> (\<lambda>_. None)
      | Some (Inl e) \<Rightarrow> raise e
      | Some (Inr wb) \<Rightarrow>
          andthen (io_write_raw sw ssl_write i buf (length (wb_bytes (write_buffer_update_len wb)))) (\<lambda>len.
          ret (Fixnum (len mod 2 ^ 64))))"

end
