(* ===== verification/UM_Io_Class_Props.thy ===== *)
theory UM_Io_Class_Props
  imports UM_Io_Class
begin

text \<open>
  Properties of the methods of a stream: clearing it gives every buffer reference back to the pool and
  forgets the position in the stream, and installing the BIO of a TLS connection.
\<close>

section \<open>Clearing a stream\<close>

lemma checkin_segments_run:
  "chain (snext m) (io_head (io_of m i)) ss \<Longrightarrow> \<forall>x \<in> set ss. seg_buffer (segments m x) \<noteq> None \<Longrightarrow>
   pool_inv m (\<lambda>a. other a + held m ss a) fl \<Longrightarrow>
   \<exists>m' fl'. checkin_segments i m = Some m' \<and> pool_inv m' other fl' \<and>
     io_of m' i = (io_of m i)\<lparr>io_head := None\<rparr>"
proof (induction ss arbitrary: m fl)
  case Nil
  then have "io_head (io_of m i) = None" "pool_inv m other fl" by (simp_all add: held_def)
  then show ?case by (intro exI [of _ m] exI [of _ fl]) (simp add: checkin_segments.simps)
next
  case (Cons x ss)
  have hd: "io_head (io_of m i) = Some x" and ch: "chain (snext m) (snext m x) ss" and x: "x \<notin> set ss"
    using Cons.prems(1) chain_distinct [OF Cons.prems(1)] by simp_all
  obtain b where b: "seg_buffer (segments m x) = Some b" using Cons.prems(2) by auto
  have "held m (x # ss) b > 0" using b by (simp add: held_Cons)
  then obtain m1 fl1 where m1: "um_segment_checkin m x = Some m1"
    "pool_inv m1 ((\<lambda>a. other a + held m (x # ss) a)(b := other b + held m (x # ss) b - 1)) fl1"
    using segment_checkin_inv [OF Cons.prems(3) b] by auto
  note fr = checkin_segment_frame [OF m1(1)]
  let ?m = "upd_io i (\<lambda>y. y\<lparr>io_head := snext m x\<rparr>) m1"
  have h: "held ?m ss = held m ss" using fr(2) by (intro held_cong) simp
  have "(\<lambda>a. other a + held m (x # ss) a)(b := other b + held m (x # ss) b - 1) = (\<lambda>a. other a + held ?m ss a)"
    using b h by (auto simp: held_Cons)
  with m1(2) have pi: "pool_inv ?m (\<lambda>a. other a + held ?m ss a) fl1" by simp
  have "chain (snext m1) (snext m x) ss"
    using ch fr(5) x chain_cong [of ss "snext m" "snext m1"] by metis
  then have "chain (snext ?m) (io_head (io_of ?m i)) ss" by simp
  moreover have "\<forall>y \<in> set ss. seg_buffer (segments ?m y) \<noteq> None" using Cons.prems(2) fr(2) by simp
  ultimately obtain m' fl' where m': "checkin_segments i ?m = Some m'" "pool_inv m' other fl'"
    "io_of m' i = (io_of ?m i)\<lparr>io_head := None\<rparr>"
    using Cons.IH [OF _ _ pi] by blast
  have "checkin_segments i m = Some m'"
    using hd m1(1) m'(1) by (subst checkin_segments.simps) (simp add: snext_def)
  then show ?case using m'(2,3) fr(1) by (intro exI [of _ m'] exI [of _ fl']) simp
qed

text \<open>What is left of the bytes of a stream.\<close>

definition cleared :: "stream \<Rightarrow> stream" where
  "cleared s = s\<lparr>segs := [], s_pending := 0\<rparr>"


lemma demo_io_idle: "io_op (io_of demo_io 0) = None" "io_working_buffer (io_of demo_io 0) = None"
  by (simp_all add: demo_io_def)


text \<open>A stream that is cleared in the middle of a segment and then read loses the first bytes of what
  arrives: as many as had been read of the segment it was in. If less arrives, memory beyond the new
  segment is read.\<close>

theorem read_after_clear_loses:
  assumes "\<not> s_eof s" "feed s = ([x], True, e) # fs"
  shows "if spos s \<le> length x then \<exists>s'. IO_read (Fixnum 0) (cleared s) = Some (Inr (Some (drop (spos s) x), s'))
    else IO_read (Fixnum 0) (cleared s) = None"
proof -
  define t where "t = (cleared s)\<lparr>segs := [x], s_pending := length x, s_eof := e, feed := fs\<rparr>"
  have t: "segs t = [x]" "spos t = spos s" by (simp_all add: t_def cleared_def)
  have "io_ready (cleared s) = (True, t)"
    using assms by (simp add: io_ready_def get_more_def cleared_def t_def)
  then have u: "IO_read (Fixnum 0) (cleared s) = map_option Inr (read_loop 0 0 False 0 (spos s) 0 0 t)"
    by (simp add: IO_read_def with_arg_def num2long_def io_read_def t(2))
  show ?thesis
  proof (cases "spos s \<le> length x")
    case True
    have "\<exists>s'. io_copy (length x - spos s) t = Some (drop (spos s) x, s')"
      using True t by (simp add: io_copy.simps [of "length x - spos s"] io_copy.simps [of 0] Let_def)
    then show ?thesis using True t by (auto simp: u read_loop.simps [of 0] Let_def io_consume_string_def)
  next
    case False
    then show ?thesis using t by (simp add: u read_loop.simps [of 0])
  qed
qed

theorem read_after_clear_loses_witness:
  "\<exists>s'. IO_read (Fixnum 0) (cleared \<lparr>segs = [''hello''], spos = 3, s_consumed = 3, s_pending = 2, s_eof = False,
     feed = [([''world''], True, False)]\<rparr>) = Some (Inr (Some ''ld'', s'))"
  using read_after_clear_loses [of "\<lparr>segs = [''hello''], spos = 3, s_consumed = 3, s_pending = 2, s_eof = False,
     feed = [([''world''], True, False)]\<rparr>" "''world''" False "[]"] by simp

section \<open>The BIO of a TLS connection\<close>

text \<open>What OpenSSL is asked to do for a connection whose BIO is to be \<open>bio\<close>.\<close>

definition bio_calls :: "nat \<Rightarrow> nat \<Rightarrow> int \<Rightarrow> ssl_call list" where
  "bio_calls ssl bio fd =
     [BIO_new bio, BIO_set_ex_data bio IDX_BIO_DATA_MACHINE Machine_ptr, BIO_set_ex_data bio IDX_BIO_DATA_FD (Word_data fd),
      BIO_up_ref bio, SSL_set0_rbio ssl bio, SSL_set0_wbio ssl bio]"

lemma set_bio_again:
  "bio_method_set (heap m) \<Longrightarrow> ssl_bio_ivar (heap m) ssl \<Longrightarrow> um_ssl_set_bio os (Obj ssl) m = Some (Inr (), m)"
  by (simp add: um_ssl_set_bio_def andthen_def gets_def ret_def)

text \<open>When OpenSSL's calls succeed, setting the BIO of a connection installs one new BIO for reading and writing,
  with a reference for each and with the machine and the descriptor as its data, in this order; doing so
  again does nothing.\<close>

theorem set_bio_once:
  assumes "bio_method_set (heap m)" "\<not> ssl_bio_ivar (heap m) ssl"
    and "fileno os ssl = ret (Fixnum fd)" "- (2 ^ 63) \<le> fd" "fd < 2 ^ 63" "bio_new os = Some bio" "\<And>idx. set_ex os idx"
  shows "\<exists>m'. um_ssl_set_bio os (Obj ssl) m = Some (Inr (), m') \<and>
    ssl_calls (heap m') = ssl_calls (heap m) @ bio_calls ssl bio fd \<and>
    um_ssl_set_bio os (Obj ssl) m' = Some (Inr (), m')"
proof -
  let ?m' = "upd_heap (\<lambda>h. h\<lparr>ssl_bio_ivar := (ssl_bio_ivar h)(ssl := True),
      ssl_calls := ssl_calls h @ bio_calls ssl bio fd\<rparr>) m"
  have "um_ssl_set_bio os (Obj ssl) m = Some (Inr (), ?m')"
    using assms by (simp add: um_ssl_set_bio_def andthen_def gets_def modify_def num2long_def of_sum_def ret_def
        ssl_call_def bio_set_ex_data_def upd_heap_def bio_calls_def)
  moreover have "um_ssl_set_bio os (Obj ssl) ?m' = Some (Inr (), ?m')"
    by (rule set_bio_again) (simp_all add: upd_heap_def assms(1))
  ultimately show ?thesis by (intro exI [of _ ?m']) (simp add: upd_heap_def)
qed

text \<open>A connection is marked as set up before its BIO is made: when making it fails, every later attempt
  returns as if it had succeeded, without a call to OpenSSL, and the connection keeps its own BIO.\<close>

theorem set_bio_failed_for_good:
  assumes "bio_method_set (heap m)" "\<not> ssl_bio_ivar (heap m) ssl"
    and "fileno os ssl = ret (Fixnum fd)" "- (2 ^ 63) \<le> fd" "fd < 2 ^ 63" "bio_new os = None"
  shows "\<exists>m'. um_ssl_set_bio os (Obj ssl) m = Some (Inl (UMError ''Failed to create custom BIO''), m') \<and>
    ssl_calls (heap m') = ssl_calls (heap m) \<and> (\<forall>os'. um_ssl_set_bio os' (Obj ssl) m' = Some (Inr (), m'))"
proof -
  let ?m' = "upd_heap (\<lambda>h. h\<lparr>ssl_bio_ivar := (ssl_bio_ivar h)(ssl := True)\<rparr>) m"
  have "um_ssl_set_bio os (Obj ssl) m = Some (Inl (UMError ''Failed to create custom BIO''), ?m')"
    using assms by (simp add: um_ssl_set_bio_def andthen_def gets_def modify_def num2long_def of_sum_def ret_def raise_def)
  moreover have "um_ssl_set_bio os' (Obj ssl) ?m' = Some (Inr (), ?m')" for os'
    by (rule set_bio_again) (simp_all add: upd_heap_def assms(1))
  ultimately show ?thesis by (intro exI [of _ ?m']) (simp add: upd_heap_def)
qed

text \<open>A machine on which the method exists, and OpenSSL with room for a BIO or without.\<close>

definition demo_tls :: um where
  "demo_tls = upd_heap (\<lambda>h. h\<lparr>bio_method_set := True\<rparr>) um_zero"

definition demo_openssl :: "nat option \<Rightarrow> openssl" where
  "demo_openssl b = \<lparr>meth_new = True, fileno = (\<lambda>_. ret (Fixnum 7)), bio_new = b, set_ex = (\<lambda>_. True)\<rparr>"

lemma demo_tls_fields:
  "bio_method_set (heap demo_tls)" "\<not> ssl_bio_ivar (heap demo_tls) 4" "ssl_calls (heap demo_tls) = []"
  by (simp_all add: demo_tls_def upd_heap_def um_zero_def heap_zero_def)

theorem set_bio_once_witness:
  "\<exists>m'. um_ssl_set_bio (demo_openssl (Some 9)) (Obj 4) demo_tls = Some (Inr (), m') \<and> ssl_calls (heap m') = bio_calls 4 9 7"
  using set_bio_once [OF demo_tls_fields(1,2), of "demo_openssl (Some 9)" 7 9]
  by (auto simp: demo_openssl_def demo_tls_fields(3))

theorem set_bio_failed_for_good_witness:
  "\<exists>m'. um_ssl_set_bio (demo_openssl None) (Obj 4) demo_tls = Some (Inl (UMError ''Failed to create custom BIO''), m') \<and>
     um_ssl_set_bio (demo_openssl (Some 9)) (Obj 4) m' = Some (Inr (), m')"
  using set_bio_failed_for_good [OF demo_tls_fields(1,2), of "demo_openssl None" 7]
  by (auto simp: demo_openssl_def)

end
