(* ===== verification/UM_Class.thy ===== *)
theory UM_Class
  imports UM_Select UM_Multishot UM_Io
begin

text \<open>
  \<^verbatim>\<open>ext/um/um_class.c\<close>, \<^verbatim>\<open>um_mutex_class.c\<close> and \<^verbatim>\<open>um_queue_class.c\<close>: the methods that Ruby code
  calls. They check that the machine is initialized, convert their arguments and call the functions of
  the other files. C does not order the conversions of the arguments of a call: they are made from left
  to right here. Buffers and path names are objects, given by their number.
\<close>

section \<open>Conversions\<close>

definition RTEST :: "rvalue \<Rightarrow> bool" where
  "RTEST v = (v \<noteq> Qnil \<and> v \<noteq> Qfalse)"

definition numeric_value :: "rvalue \<Rightarrow> int comp" where
  "numeric_value v = (case v of Qtrue \<Rightarrow> ret 1 | Qfalse \<Rightarrow> ret 0 | _ \<Rightarrow> num2int v)"

definition unless_nil :: "rvalue \<Rightarrow> 'a \<Rightarrow> (rvalue \<Rightarrow> 'a comp) \<Rightarrow> 'a comp" where
  "unless_nil v d f = (if v = Qnil then ret d else f v)"

definition with_int :: "rvalue \<Rightarrow> (int \<Rightarrow> 'a comp) \<Rightarrow> 'a comp" where
  "with_int v k = um_get_machine (andthen (num2int v) k)"

section \<open>Life of a machine\<close>

text \<open>
  The keyword arguments of \<open>initialize\<close>. \<open>rb_get_kwargs\<close> is only called when some are given, and then
  stores \<open>Qundef\<close> for those that are not: this is \<open>None\<close>, which is none of Ruby's values. Without
  keyword arguments each stays \<open>Qnil\<close>. An unknown one is an \<open>ArgumentError\<close> (exception class 2).
\<close>

definition kwarg :: "(string \<times> rvalue) list option \<Rightarrow> string \<Rightarrow> rvalue option" where
  "kwarg opts key = (case opts of None \<Rightarrow> Some Qnil | Some kws \<Rightarrow> map_of kws key)"

text \<open>\<open>RTEST\<close> tests whether a bit other than that of \<open>Qnil\<close> is set, and \<open>Qundef\<close> has one.\<close>

definition RTEST_kwarg :: "rvalue option \<Rightarrow> bool" where
  "RTEST_kwarg v = (case v of None \<Rightarrow> True | Some v \<Rightarrow> RTEST v)"

text \<open>A float out of range is undefined behaviour.\<close>

definition get_sqpoll_timeout_msec :: "rvalue option \<Rightarrow> nat comp" where
  "get_sqpoll_timeout_msec t =
     (case t of
        None \<Rightarrow> ret 0
      | Some Qnil \<Rightarrow> ret 0
      | Some Qfalse \<Rightarrow> ret 0
      | Some (Flonum x) \<Rightarrow>
          (let n = fst (modf (x * 1000)) in if 0 \<le> n \<and> n < 2 ^ 32 then ret (nat n) else (\<lambda>_. None))
      | Some (Fixnum n) \<Rightarrow> andthen (uint_range n) (\<lambda>s. ret (s * 1000 mod 2 ^ 32))
      | Some Qtrue \<Rightarrow> ret 1000
      | Some _ \<Rightarrow> raise (UMError ''Invalid sqpoll_timeout value''))"

text \<open>
  \<open>init\<close>, \<open>br\<close> and \<open>pt\<close> are the environment of \<open>um_setup\<close>, which clears the struct of the machine.
\<close>

definition UM_initialize ::
  "(nat \<Rightarrow> io_uring_params \<Rightarrow> int \<times> nat) \<Rightarrow> int option \<Rightarrow> (nat \<Rightarrow> int option) \<Rightarrow> (string \<times> rvalue) list option \<Rightarrow> unit comp" where
  "UM_initialize init br pt opts =
     (if \<exists>kws. opts = Some kws \<and> \<not> fst ` set kws \<subseteq> {''size'', ''sqpoll'', ''sidecar''} then raise (RubyExn 2)
      else
        andthen (case kwarg opts ''size'' of Some (Fixnum n) \<Rightarrow> uint_range n | _ \<Rightarrow> ret 0) (\<lambda>entries_i.
        andthen (get_sqpoll_timeout_msec (kwarg opts ''sqpoll'')) (\<lambda>msec.
        um_setup init br pt entries_i msec (RTEST_kwarg (kwarg opts ''sidecar'')))))"

text \<open>\<open>self\<close> and \<open>pending_fibers\<close>: the object of the machine, and that of its set of pending fibers.\<close>

definition UM_mark :: "rvalue \<Rightarrow> rvalue \<Rightarrow> um \<Rightarrow> rvalue list option" where
  "UM_mark self pending m = do {
     vs \<leftarrow> um_op_list_mark m (transient_head m);
     ws \<leftarrow> um_op_list_mark m (runqueue_head m);
     Some (self # pending # vs @ ws)
   }"

definition UM_compact :: "(rvalue \<Rightarrow> rvalue) \<Rightarrow> rvalue \<Rightarrow> rvalue \<Rightarrow> um \<Rightarrow> (rvalue \<times> rvalue \<times> um) option" where
  "UM_compact loc self pending m = do {
     m \<leftarrow> um_op_list_compact loc m (transient_head m);
     m \<leftarrow> um_op_list_compact loc m (runqueue_head m);
     Some (loc self, loc pending, m)
   }"

definition UM_free :: "um \<Rightarrow> um option" where
  "UM_free m = um_teardown m"

section \<open>Attributes and modes\<close>

definition bool_value :: "bool \<Rightarrow> rvalue" where
  "bool_value b = (if b then Qtrue else Qfalse)"

definition UM_size :: "rvalue comp" where
  "UM_size = um_get_machine (gets (\<lambda>m. uint2num (um_size m)))"

definition UM_mark_m :: "rvalue \<Rightarrow> unit comp" where
  "UM_mark_m v = um_get_machine (andthen (num2uint v) (\<lambda>n. modify (\<lambda>m. m\<lparr>um_mark := n\<rparr>)))"

definition UM_metrics :: "rat \<Rightarrow> (string \<times> rvalue) list comp" where
  "UM_metrics cpu = um_get_machine (gets (um_metrics_hash cpu))"

definition UM_profile_mode_p :: "rvalue comp" where
  "UM_profile_mode_p = um_get_machine (gets (\<lambda>m. bool_value (profile_mode m)))"

definition UM_sqpoll_mode_p :: "rvalue comp" where
  "UM_sqpoll_mode_p = um_get_machine (gets (\<lambda>m. bool_value (sqpoll_mode m)))"

text \<open>\<open>cpu\<close> is the processor time read.\<close>

definition UM_profile_mode_set :: "rat \<Rightarrow> rvalue \<Rightarrow> rvalue comp" where
  "UM_profile_mode_set cpu v =
     um_get_machine
       (andthen (modify (\<lambda>m. m\<lparr>profile_mode := RTEST v\<rparr>)) (\<lambda>_.
        andthen (if RTEST v
                 then modify (upd_metrics (\<lambda>x. x\<lparr>time_total_wait := 0, time_last_cpu := cpu, time_first_cpu := cpu\<rparr>))
                 else ret ()) (\<lambda>_.
        ret v)))"

definition UM_test_mode_set :: "rvalue \<Rightarrow> rvalue comp" where
  "UM_test_mode_set v = um_get_machine (andthen (modify (\<lambda>m. m\<lparr>test_mode := RTEST v\<rparr>)) (\<lambda>_. ret v))"

definition UM_sidecar_mode_p :: "rvalue comp" where
  "UM_sidecar_mode_p = um_get_machine (gets (\<lambda>m. bool_value (sidecar_mode m)))"

definition UM_sidecar_start :: "(nat \<Rightarrow> int option) \<Rightarrow> unit comp" where
  "UM_sidecar_start pt = um_get_machine (\<lambda>m. Some (um_sidecar_setup pt m))"

definition UM_sidecar_stop :: "unit comp" where
  "UM_sidecar_stop = um_get_machine (modify um_sidecar_teardown)"

section \<open>Switching\<close>

definition UM_snooze :: "rvalue comp \<Rightarrow> rvalue comp" where
  "UM_snooze sw =
     um_get_machine
       (andthen (modify (\<lambda>m. um_schedule (Fiber (current_fiber m)) Qnil m)) (\<lambda>_. andthen sw check))"

definition UM_yield :: "rvalue comp \<Rightarrow> rvalue comp" where
  "UM_yield sw = um_get_machine (andthen (um_yield sw) check)"

definition UM_switch :: "rvalue comp \<Rightarrow> rvalue comp" where
  "UM_switch sw = um_get_machine (andthen sw check)"

definition UM_wakeup :: "int \<Rightarrow> rvalue comp" where
  "UM_wakeup r = um_get_machine (um_wakeup r)"

definition UM_submit :: "int \<Rightarrow> rvalue comp" where
  "UM_submit r = um_get_machine (andthen (um_submit r) (\<lambda>n. ret (uint2num (nat (n mod 2 ^ 32)))))"

definition UM_pending_fibers :: "fiber set comp" where
  "UM_pending_fibers = um_get_machine (gets pending_fibers)"

definition UM_schedule :: "rvalue \<Rightarrow> rvalue \<Rightarrow> unit comp" where
  "UM_schedule f v = um_get_machine (modify (um_schedule f v))"

definition UM_timeout :: "rvalue comp \<Rightarrow> rvalue \<Rightarrow> rvalue \<Rightarrow> rvalue comp" where
  "UM_timeout blk interval exception = um_get_machine (um_timeout blk interval exception)"

definition UM_sleep :: "(nat \<Rightarrow> rvalue comp) \<Rightarrow> rvalue \<Rightarrow> rvalue comp" where
  "UM_sleep sw duration = um_get_machine (andthen (num2dbl duration) (um_sleep sw))"

definition UM_periodically ::
  "(nat \<Rightarrow> rvalue comp) \<Rightarrow> (nat \<Rightarrow> rvalue comp) \<Rightarrow> unit comp \<Rightarrow> rvalue \<Rightarrow> rvalue comp" where
  "UM_periodically sw sw' blk interval =
     um_get_machine (andthen (num2dbl interval) (um_periodically sw sw' blk))"

definition UM_prep_timeout :: "rvalue \<Rightarrow> rvalue comp" where
  "UM_prep_timeout interval = um_get_machine (andthen (num2dbl interval) um_prep_timeout)"

section \<open>Files\<close>

text \<open>A file offset is a 64-bit number of which only the lower 32 bits can be given; all ones is none.\<close>

definition file_offset_i :: "rvalue \<Rightarrow> int comp" where
  "file_offset_i v = unless_nil v (2 ^ 64 - 1) (\<lambda>v. andthen (num2uint v) (\<lambda>n. ret (int n)))"

definition write_len_i :: "rvalue \<Rightarrow> int comp" where
  "write_len_i v = unless_nil v (2 ^ 64 - 1) (\<lambda>v. andthen (num2uint v) (\<lambda>n. ret (int n)))"

definition UM_read ::
  "(nat \<Rightarrow> rvalue comp) \<Rightarrow> rvalue \<Rightarrow> nat \<Rightarrow> rvalue \<Rightarrow> rvalue \<Rightarrow> rvalue \<Rightarrow> rvalue comp" where
  "UM_read sw fd buf maxlen buffer_offset file_offset =
     um_get_machine
       (andthen (unless_nil maxlen (- 1) num2int) (\<lambda>maxlen_i.
        andthen (unless_nil buffer_offset 0 num2int) (\<lambda>buffer_offset_i.
        andthen (file_offset_i file_offset) (\<lambda>offset.
        andthen (num2int fd) (\<lambda>fd.
        um_read sw fd buf maxlen_i buffer_offset_i offset)))))"

definition UM_read_each ::
  "(nat \<Rightarrow> rvalue comp) \<Rightarrow> (nat \<Rightarrow> rvalue comp) \<Rightarrow> (um_segment \<Rightarrow> unit comp) \<Rightarrow> rvalue \<Rightarrow> rvalue comp" where
  "UM_read_each sw sw' blk fd = with_int fd (um_read_each sw sw' blk)"

definition UM_write :: "(nat \<Rightarrow> rvalue comp) \<Rightarrow> rvalue \<Rightarrow> nat \<Rightarrow> rvalue \<Rightarrow> rvalue \<Rightarrow> rvalue comp" where
  "UM_write sw fd buf len file_offset =
     um_get_machine
       (andthen (write_len_i len) (\<lambda>len_i.
        andthen (file_offset_i file_offset) (\<lambda>offset.
        andthen (num2int fd) (\<lambda>fd. um_write sw fd buf len_i offset))))"

definition UM_write_async :: "rvalue \<Rightarrow> nat \<Rightarrow> rvalue \<Rightarrow> rvalue \<Rightarrow> rvalue comp" where
  "UM_write_async fd buf len file_offset =
     um_get_machine
       (andthen (write_len_i len) (\<lambda>len_i.
        andthen (file_offset_i file_offset) (\<lambda>offset.
        andthen (num2int fd) (\<lambda>fd. um_write_async fd buf len_i offset))))"

text \<open>
  The arguments of \<open>writev\<close> and \<open>sendv\<close>: the descriptor, when there is one, then buffers and,
  for \<open>writev\<close>, an integer file offset at the end, which alone makes \<open>argc\<close> 2 too.
\<close>

definition UM_writev ::
  "(nat \<Rightarrow> rvalue comp) \<Rightarrow> (nat \<Rightarrow> nat) \<Rightarrow> rvalue option \<Rightarrow> nat list \<Rightarrow> int option \<Rightarrow> rvalue comp" where
  "UM_writev sw base fd bufs file_offset =
     um_get_machine
       (case fd of
          None \<Rightarrow> raise (RubyExn 2)
        | Some fd \<Rightarrow>
            andthen (num2int fd) (\<lambda>fd.
            if bufs = [] \<and> file_offset = None then ret (Fixnum 0)
            else um_writev sw base fd bufs file_offset))"

definition UM_sendv ::
  "(nat \<Rightarrow> rvalue comp) \<Rightarrow> (nat \<Rightarrow> nat) \<Rightarrow> rvalue option \<Rightarrow> nat list \<Rightarrow> rvalue comp" where
  "UM_sendv sw base fd bufs =
     um_get_machine
       (case fd of
          None \<Rightarrow> raise (RubyExn 2)
        | Some fd \<Rightarrow>
            andthen (num2int fd) (\<lambda>fd.
            if bufs = [] then ret (Fixnum 0) else um_sendv sw base fd bufs))"

definition UM_statx ::
  "(nat \<Rightarrow> rvalue comp) \<Rightarrow> statx \<Rightarrow> nat \<Rightarrow> rvalue \<Rightarrow> nat option \<Rightarrow> rvalue \<Rightarrow> rvalue \<Rightarrow> (string \<times> rvalue) list comp" where
  "UM_statx sw st empty_path dirfd path flags stx_mask =
     with_int dirfd (\<lambda>dirfd.
     andthen (num2int flags) (\<lambda>flags.
     andthen (num2uint stx_mask) (um_statx sw st empty_path dirfd path flags)))"

definition UM_splice :: "(nat \<Rightarrow> rvalue comp) \<Rightarrow> rvalue \<Rightarrow> rvalue \<Rightarrow> rvalue \<Rightarrow> rvalue comp" where
  "UM_splice sw in_fd out_fd n =
     with_int in_fd (\<lambda>i. andthen (num2int out_fd) (\<lambda>out. andthen (num2uint n) (um_splice sw i out)))"

definition UM_tee :: "(nat \<Rightarrow> rvalue comp) \<Rightarrow> rvalue \<Rightarrow> rvalue \<Rightarrow> rvalue \<Rightarrow> rvalue comp" where
  "UM_tee sw in_fd out_fd n =
     with_int in_fd (\<lambda>i. andthen (num2int out_fd) (\<lambda>out. andthen (num2uint n) (um_tee sw i out)))"

definition UM_fsync :: "(nat \<Rightarrow> rvalue comp) \<Rightarrow> rvalue \<Rightarrow> rvalue comp" where
  "UM_fsync sw fd = with_int fd (um_fsync sw)"

definition UM_close :: "(nat \<Rightarrow> rvalue comp) \<Rightarrow> rvalue \<Rightarrow> rvalue comp" where
  "UM_close sw fd = with_int fd (um_close sw)"

definition UM_close_async :: "rvalue \<Rightarrow> rvalue comp" where
  "UM_close_async fd = with_int fd um_close_async"

text \<open>\<open>blk\<close> is the block given, if one is; \<open>sw'\<close> is what happens while the descriptor is closed.\<close>

definition UM_open_complete :: "(nat \<Rightarrow> rvalue comp) \<Rightarrow> rvalue \<Rightarrow> rvalue comp" where
  "UM_open_complete sw fd = UM_close sw fd"

definition UM_open ::
  "(nat \<Rightarrow> rvalue comp) \<Rightarrow> (nat \<Rightarrow> rvalue comp) \<Rightarrow> (rvalue \<Rightarrow> rvalue comp) option \<Rightarrow> nat \<Rightarrow> rvalue \<Rightarrow> rvalue comp" where
  "UM_open sw sw' blk pathname flags =
     with_int flags (\<lambda>flags.
     andthen (um_open sw pathname flags 438) (\<lambda>fd.
     case blk of None \<Rightarrow> ret fd | Some blk \<Rightarrow> rb_ensure (blk fd) (UM_open_complete sw' fd)))"

definition UM_poll :: "(nat \<Rightarrow> rvalue comp) \<Rightarrow> rvalue \<Rightarrow> rvalue \<Rightarrow> rvalue comp" where
  "UM_poll sw fd events = with_int fd (\<lambda>fd. andthen (num2uint events) (um_poll sw fd))"

definition UM_select ::
  "(nat \<Rightarrow> rvalue comp) \<Rightarrow> rvalue list \<Rightarrow> rvalue list \<Rightarrow> rvalue list \<Rightarrow> rvalue comp" where
  "UM_select sw rfds wfds efds = um_get_machine (um_select sw rfds wfds efds)"

definition UM_waitid :: "(nat \<Rightarrow> rvalue comp) \<Rightarrow> rvalue \<Rightarrow> rvalue \<Rightarrow> rvalue \<Rightarrow> rvalue comp" where
  "UM_waitid sw idtype i options =
     with_int idtype (\<lambda>t. andthen (num2int i) (\<lambda>i. andthen (num2int options) (um_waitid sw t i)))"

section \<open>Sockets\<close>

definition UM_accept :: "(nat \<Rightarrow> rvalue comp) \<Rightarrow> rvalue \<Rightarrow> rvalue comp" where
  "UM_accept sw fd = with_int fd (um_accept sw)"

definition UM_accept_each ::
  "(nat \<Rightarrow> rvalue comp) \<Rightarrow> (nat \<Rightarrow> rvalue comp) \<Rightarrow> (rvalue \<Rightarrow> unit comp) \<Rightarrow> rvalue \<Rightarrow> rvalue comp" where
  "UM_accept_each sw sw' blk fd = with_int fd (um_accept_each sw sw' blk)"

definition UM_accept_into_queue ::
  "(nat \<Rightarrow> rvalue comp) \<Rightarrow> (nat \<Rightarrow> rvalue comp) \<Rightarrow> (rvalue \<Rightarrow> int) \<Rightarrow> rvalue \<Rightarrow> nat \<Rightarrow> rvalue comp" where
  "UM_accept_into_queue sw sw' r fd q = with_int fd (\<lambda>fd. um_accept_into_queue sw sw' r fd q)"

definition UM_socket :: "(nat \<Rightarrow> rvalue comp) \<Rightarrow> rvalue \<Rightarrow> rvalue \<Rightarrow> rvalue \<Rightarrow> rvalue \<Rightarrow> rvalue comp" where
  "UM_socket sw domain type protocol flags =
     with_int domain (\<lambda>d. andthen (num2int type) (\<lambda>t. andthen (num2int protocol) (\<lambda>p.
       andthen (num2uint flags) (um_socket sw d t p))))"

definition UM_shutdown :: "(nat \<Rightarrow> rvalue comp) \<Rightarrow> rvalue \<Rightarrow> rvalue \<Rightarrow> rvalue comp" where
  "UM_shutdown sw fd how = with_int fd (\<lambda>fd. andthen (num2int how) (um_shutdown sw fd))"

definition UM_shutdown_async :: "rvalue \<Rightarrow> rvalue \<Rightarrow> rvalue comp" where
  "UM_shutdown_async fd how = with_int fd (\<lambda>fd. andthen (num2int how) (um_shutdown_async fd))"

definition UM_send_fd :: "(nat \<Rightarrow> rvalue comp) \<Rightarrow> rvalue \<Rightarrow> rvalue \<Rightarrow> rvalue comp" where
  "UM_send_fd sw sock_fd fd = with_int sock_fd (\<lambda>s. andthen (num2int fd) (um_send_fd sw s))"

definition UM_recv_fd :: "(nat \<Rightarrow> rvalue comp) \<Rightarrow> cmsg option \<Rightarrow> rvalue \<Rightarrow> rvalue comp" where
  "UM_recv_fd sw received sock_fd = with_int sock_fd (um_recv_fd sw received)"

text \<open>
  \<open>htons\<close> on a little endian host: the port is truncated to 16 bits and its bytes are swapped.
  \<open>inet\<close> is \<open>inet_addr\<close> of the host given, whose failure is not looked at; \<open>mem\<close> is where the
  struct with these contents lies. The size of the struct is 16.
\<close>

definition htons :: "int \<Rightarrow> nat" where
  "htons n = (let p = nat (n mod 2 ^ 16) in p mod 256 * 256 + p div 256)"

record sockaddr_in =
  sin_family :: nat
  sin_addr :: nat
  sin_port :: nat

definition inet_address :: "nat \<Rightarrow> rvalue \<Rightarrow> sockaddr_in comp" where
  "inet_address inet port =
     andthen (num2int port) (\<lambda>p. ret \<lparr>sin_family = 2, sin_addr = inet, sin_port = htons p\<rparr>)"

definition UM_connect ::
  "(nat \<Rightarrow> rvalue comp) \<Rightarrow> (sockaddr_in \<Rightarrow> nat) \<Rightarrow> rvalue \<Rightarrow> nat \<Rightarrow> rvalue \<Rightarrow> rvalue comp" where
  "UM_connect sw mem fd inet port =
     um_get_machine
       (andthen (inet_address inet port) (\<lambda>address.
        andthen (num2int fd) (\<lambda>fd. um_connect sw fd (mem address) 16)))"

definition UM_bind ::
  "(nat \<Rightarrow> rvalue comp) \<Rightarrow> (sockaddr_in \<Rightarrow> nat) \<Rightarrow> rvalue \<Rightarrow> nat \<Rightarrow> rvalue \<Rightarrow> rvalue comp" where
  "UM_bind sw mem fd inet port =
     andthen (inet_address inet port) (\<lambda>address. with_int fd (\<lambda>fd. um_bind sw fd (mem address) 16))"

definition UM_listen :: "(nat \<Rightarrow> rvalue comp) \<Rightarrow> rvalue \<Rightarrow> rvalue \<Rightarrow> rvalue comp" where
  "UM_listen sw fd backlog = with_int fd (\<lambda>fd. andthen (num2int backlog) (um_listen sw fd))"

definition UM_send :: "(nat \<Rightarrow> rvalue comp) \<Rightarrow> rvalue \<Rightarrow> nat \<Rightarrow> rvalue \<Rightarrow> rvalue \<Rightarrow> rvalue comp" where
  "UM_send sw fd buf len flags =
     with_int fd (\<lambda>fd. andthen (num2int len) (\<lambda>len. andthen (num2int flags) (um_send sw fd buf len)))"

definition UM_recv :: "(nat \<Rightarrow> rvalue comp) \<Rightarrow> rvalue \<Rightarrow> nat \<Rightarrow> rvalue \<Rightarrow> rvalue \<Rightarrow> rvalue comp" where
  "UM_recv sw fd buf maxlen flags =
     with_int fd (\<lambda>fd. andthen (num2int maxlen) (\<lambda>n. andthen (num2int flags) (um_recv sw fd buf n)))"

definition UM_recv_each ::
  "(nat \<Rightarrow> rvalue comp) \<Rightarrow> (nat \<Rightarrow> rvalue comp) \<Rightarrow> (um_segment \<Rightarrow> unit comp) \<Rightarrow> rvalue \<Rightarrow> rvalue \<Rightarrow> rvalue comp" where
  "UM_recv_each sw sw' blk fd flags =
     with_int fd (\<lambda>fd. andthen (num2int flags) (um_recv_each sw sw' blk fd))"

definition UM_getsockopt :: "(nat \<Rightarrow> rvalue comp) \<Rightarrow> rvalue \<Rightarrow> rvalue \<Rightarrow> rvalue \<Rightarrow> rvalue comp" where
  "UM_getsockopt sw fd level opt =
     with_int fd (\<lambda>fd. andthen (num2int level) (\<lambda>level. andthen (num2int opt) (um_getsockopt sw fd level)))"

definition UM_setsockopt :: "(nat \<Rightarrow> rvalue comp) \<Rightarrow> rvalue \<Rightarrow> rvalue \<Rightarrow> rvalue \<Rightarrow> rvalue \<Rightarrow> rvalue comp" where
  "UM_setsockopt sw fd level opt v =
     with_int fd (\<lambda>fd. andthen (num2int level) (\<lambda>level. andthen (num2int opt) (\<lambda>opt.
       andthen (numeric_value v) (um_setsockopt sw fd level opt))))"

section \<open>Mutexes and queues\<close>

definition UM_mutex_synchronize ::
  "(nat \<Rightarrow> nat \<Rightarrow> rvalue comp) \<Rightarrow> (nat \<Rightarrow> rvalue comp) \<Rightarrow> rvalue comp \<Rightarrow> nat \<Rightarrow> rvalue comp" where
  "UM_mutex_synchronize sw sw' blk x = um_get_machine (um_mutex_synchronize sw sw' blk x)"

definition UM_queue_push :: "int \<Rightarrow> nat \<Rightarrow> rvalue \<Rightarrow> rvalue comp" where
  "UM_queue_push r q v = um_get_machine (um_queue_push r q v)"

definition UM_queue_pop :: "(nat \<Rightarrow> nat \<Rightarrow> rvalue comp) \<Rightarrow> int \<Rightarrow> nat \<Rightarrow> rvalue comp" where
  "UM_queue_pop sw r q = um_get_machine (um_queue_pop sw r q)"

definition UM_queue_unshift :: "int \<Rightarrow> nat \<Rightarrow> rvalue \<Rightarrow> rvalue comp" where
  "UM_queue_unshift r q v = um_get_machine (um_queue_unshift r q v)"

definition UM_queue_shift :: "(nat \<Rightarrow> nat \<Rightarrow> rvalue comp) \<Rightarrow> int \<Rightarrow> nat \<Rightarrow> rvalue comp" where
  "UM_queue_shift sw r q = um_get_machine (um_queue_shift sw r q)"

definition Mutex_initialize :: "nat \<Rightarrow> um \<Rightarrow> um" where
  "Mutex_initialize x = um_mutex_init x"

text \<open>Queue \<open>q\<close> is the object \<open>Obj q\<close>.\<close>

definition Queue_initialize :: "nat \<Rightarrow> um_heap \<Rightarrow> um_heap" where
  "Queue_initialize q h = um_queue_init q (upd_queue q (\<lambda>x. x\<lparr>queue_self := Obj q\<rparr>) h)"

definition Queue_count :: "nat \<Rightarrow> um_heap \<Rightarrow> rvalue" where
  "Queue_count q h = uint2num (unat (queue_count (queues h q)))"

definition Queue_mark :: "nat \<Rightarrow> um_heap \<Rightarrow> rvalue list option" where
  "Queue_mark q h = um_queue_mark q h"

definition Queue_compact :: "(rvalue \<Rightarrow> rvalue) \<Rightarrow> nat \<Rightarrow> um_heap \<Rightarrow> um_heap option" where
  "Queue_compact loc q h = um_queue_compact loc q h"

definition Queue_free :: "nat \<Rightarrow> um_heap \<Rightarrow> um_heap option" where
  "Queue_free q h = um_queue_free q h"

section \<open>TLS\<close>

definition UM_ssl_set_bio :: "openssl \<Rightarrow> rvalue \<Rightarrow> unit comp" where
  "UM_ssl_set_bio os ssl = um_get_machine (um_ssl_set_bio os ssl)"

definition UM_ssl_read :: "(int \<Rightarrow> int comp) \<Rightarrow> nat \<Rightarrow> rvalue \<Rightarrow> rvalue comp" where
  "UM_ssl_read ssl_read buf maxlen =
     with_int maxlen (\<lambda>n. andthen (um_ssl_read ssl_read buf (nat (n mod 2 ^ 64))) (\<lambda>r. ret (Fixnum r)))"

definition UM_ssl_write :: "(nat \<Rightarrow> int \<Rightarrow> int comp) \<Rightarrow> nat \<Rightarrow> rvalue \<Rightarrow> rvalue comp" where
  "UM_ssl_write ssl_write buf len =
     with_int len (\<lambda>n. andthen (um_ssl_write ssl_write buf (nat (n mod 2 ^ 64))) (\<lambda>r. ret (Fixnum r)))"

section \<open>System calls\<close>

text \<open>\<open>r\<close> is what the call returns, \<open>e\<close> the value of \<open>errno\<close> after it.\<close>

definition UM_pipe :: "int \<Rightarrow> int \<Rightarrow> int \<times> int \<Rightarrow> rvalue comp" where
  "UM_pipe r e fds = (if r \<noteq> 0 then raise (SysErr e) else ret (Ary [Fixnum (fst fds), Fixnum (snd fds)]))"

definition UM_socketpair ::
  "(int \<Rightarrow> int \<Rightarrow> int \<Rightarrow> int \<times> int \<times> int \<times> int) \<Rightarrow> rvalue \<Rightarrow> rvalue \<Rightarrow> rvalue \<Rightarrow> rvalue comp" where
  "UM_socketpair call domain type protocol =
     andthen (num2int domain) (\<lambda>d. andthen (num2int type) (\<lambda>t. andthen (num2int protocol) (\<lambda>p.
       case call d t p of (r, e, a, b) \<Rightarrow> if r \<noteq> 0 then raise (SysErr e) else ret (Ary [Fixnum a, Fixnum b]))))"

definition UM_pidfd_open :: "(int \<Rightarrow> int \<times> int) \<Rightarrow> rvalue \<Rightarrow> rvalue comp" where
  "UM_pidfd_open call pid =
     andthen (num2int pid) (\<lambda>p. case call p of (r, e) \<Rightarrow> if r = - 1 then raise (SysErr e) else ret (Fixnum r))"

definition UM_pidfd_send_signal :: "(int \<Rightarrow> int \<Rightarrow> int \<times> int) \<Rightarrow> rvalue \<Rightarrow> rvalue \<Rightarrow> rvalue comp" where
  "UM_pidfd_send_signal call fd sig =
     andthen (num2int fd) (\<lambda>f. andthen (num2int sig) (\<lambda>s.
       case call f s of (r, e) \<Rightarrow> if r \<noteq> 0 then raise (SysErr e) else ret fd))"

definition UM_inotify_init :: "int \<times> int \<Rightarrow> rvalue comp" where
  "UM_inotify_init r = (if fst r = - 1 then raise (SysErr (snd r)) else ret (Fixnum (fst r)))"

definition UM_inotify_add_watch ::
  "(int \<Rightarrow> nat \<Rightarrow> int \<times> int) \<Rightarrow> rvalue \<Rightarrow> rvalue \<Rightarrow> rvalue comp" where
  "UM_inotify_add_watch call fd events =
     andthen (num2int fd) (\<lambda>f. andthen (num2uint events) (\<lambda>n.
       case call f n of (r, e) \<Rightarrow> if r = - 1 then raise (SysErr e) else ret (Fixnum r)))"

definition UM_pr_set_child_subreaper :: "(bool \<Rightarrow> int \<times> int) \<Rightarrow> rvalue \<Rightarrow> rvalue comp" where
  "UM_pr_set_child_subreaper call v =
     (case call (RTEST v) of (r, e) \<Rightarrow> if r \<noteq> 0 then raise (SysErr e) else ret v)"

section \<open>Events of inotify\<close>

text \<open>
  \<open>struct inotify_event\<close>: four 32-bit numbers, least byte first, of which the last is the length
  of the name that follows. \<open>bytes\<close> are those of the array on the stack from the event on, of which
  the kernel has filled the first \<open>len\<close>; \<open>None\<close> is a read beyond the array.
\<close>

record inotify_event =
  evt_wd :: int
  evt_mask :: nat
  evt_name :: "char list"

definition le32 :: "char list \<Rightarrow> nat" where
  "le32 cs = foldr (\<lambda>c v. of_char c + 256 * v) (take 4 cs) 0"

definition cstr :: "char list \<Rightarrow> char list option" where
  "cstr cs = (if CHR 0x00 \<in> set cs then Some (takeWhile (\<lambda>c. c \<noteq> CHR 0x00) cs) else None)"

function inotify_get_events :: "char list \<Rightarrow> nat \<Rightarrow> inotify_event list option" where
  "inotify_get_events bytes len =
     (if len = 0 then Some []
      else if length bytes < 16 then None
      else
        (let evt_len = 16 + le32 (drop 12 bytes) in
         Option.bind (cstr (drop 16 bytes)) (\<lambda>name.
         Option.bind (inotify_get_events (drop evt_len bytes) (wrap_sub 64 len evt_len)) (\<lambda>evts.
         Some (\<lparr>evt_wd = to_int32 (int (le32 bytes)), evt_mask = le32 (drop 4 bytes), evt_name = name\<rparr> # evts)))))"
  by pat_completeness auto

termination
  by (relation "measure (length \<circ> fst)") auto

text \<open>\<open>buf\<close> is the array, \<open>bytes\<close> what it holds after the read.\<close>

definition UM_inotify_get_events ::
  "(nat \<Rightarrow> rvalue comp) \<Rightarrow> nat \<Rightarrow> char list \<Rightarrow> rvalue \<Rightarrow> inotify_event list comp" where
  "UM_inotify_get_events sw buf bytes fd =
     with_int fd (\<lambda>fd.
     andthen (um_read_raw sw fd buf 4096) (\<lambda>r m.
       map_option (\<lambda>evts. (Inr evts, m)) (inotify_get_events bytes (nat (r mod 2 ^ 64)))))"

end
