(* ===== verification/UM_Class_Props.thy ===== *)
theory UM_Class_Props
  imports UM_Class
begin

text \<open>
  What \<open>initialize\<close> makes of its keyword arguments, and the events that inotify writes read back.
\<close>

section \<open>Initialization\<close>

lemma setup_modes:
  "\<exists>m'. um_setup (\<lambda>n _. (0, n)) None (\<lambda>_. None) n t s m = Some (Inr (), m') \<and> ring_initialized m' \<and>
    um_size m' = (if n = 0 then 4096 else n) \<and> sqpoll_mode m' = (t \<noteq> 0) \<and> sidecar_mode m' = s \<and> sidecar_thread m' = s"
  by (cases s) (auto simp: um_setup_def um_memset_def bp_setup_def um_sidecar_setup_def DEFAULT_SIZE_def um_zero_def Let_def)

text \<open>On a host where setting up the ring and starting the sidecar thread succeed, a machine created with
  the keyword arguments \<open>opts\<close> has the size given, or 4096, and the SQPOLL mode given. Without keyword
  arguments the sidecar thread is off; with some of which \<open>sidecar\<close> is not one it is on.\<close>

theorem initialize_modes:
  assumes keys: "\<And>kws. opts = Some kws \<Longrightarrow> fst ` set kws \<subseteq> {''size'', ''sqpoll'', ''sidecar''}"
    and sz: "(case kwarg opts ''size'' of Some (Fixnum n) \<Rightarrow> uint_range n | _ \<Rightarrow> ret 0) m = Some (Inr n, m)"
    and t: "get_sqpoll_timeout_msec (kwarg opts ''sqpoll'') m = Some (Inr t, m)"
  shows "\<exists>m'. UM_initialize (\<lambda>n _. (0, n)) None (\<lambda>_. None) opts m = Some (Inr (), m') \<and> ring_initialized m' \<and>
    um_size m' = (if n = 0 then 4096 else n) \<and> sqpoll_mode m' = (t \<noteq> 0) \<and>
    sidecar_mode m' = (case opts of None \<Rightarrow> False
                       | Some kws \<Rightarrow> (case map_of kws ''sidecar'' of None \<Rightarrow> True | Some v \<Rightarrow> RTEST v)) \<and>
    sidecar_thread m' = sidecar_mode m'"
proof -
  let ?s = "RTEST_kwarg (kwarg opts ''sidecar'')"
  have s: "?s = (case opts of None \<Rightarrow> False
      | Some kws \<Rightarrow> (case map_of kws ''sidecar'' of None \<Rightarrow> True | Some v \<Rightarrow> RTEST v))"
    by (simp add: RTEST_kwarg_def kwarg_def RTEST_def split: option.split)
  have k: "\<not> (\<exists>kws. opts = Some kws \<and> \<not> fst ` set kws \<subseteq> {''size'', ''sqpoll'', ''sidecar''})"
    using keys by blast
  obtain m' where m': "um_setup (\<lambda>n _. (0, n)) None (\<lambda>_. None) n t ?s m = Some (Inr (), m')" "ring_initialized m'"
    "um_size m' = (if n = 0 then 4096 else n)" "sqpoll_mode m' = (t \<noteq> 0)" "sidecar_mode m' = ?s" "sidecar_thread m' = ?s"
    using setup_modes [of n t ?s m] by blast
  have "UM_initialize (\<lambda>n _. (0, n)) None (\<lambda>_. None) opts m = Some (Inr (), m')"
    unfolding UM_initialize_def if_not_P [OF k] by (simp add: andthen_def sz t m'(1))
  then show ?thesis using m' s by auto
qed

theorem initialize_modes_witness:
  "\<exists>m'. UM_initialize (\<lambda>n _. (0, n)) None (\<lambda>_. None) (Some [(''size'', Fixnum 13)]) um_zero = Some (Inr (), m') \<and>
    um_size m' = 13 \<and> \<not> sqpoll_mode m' \<and> sidecar_mode m'"
proof -
  have "(case kwarg (Some [(''size'', Fixnum 13)]) ''size'' of Some (Fixnum n) \<Rightarrow> uint_range n | _ \<Rightarrow> ret 0) um_zero
      = Some (Inr 13, um_zero)"
    "get_sqpoll_timeout_msec (kwarg (Some [(''size'', Fixnum 13)]) ''sqpoll'') um_zero = Some (Inr 0, um_zero)"
    by (simp_all add: kwarg_def uint_range_def ret_def get_sqpoll_timeout_msec_def)
  from initialize_modes [OF _ this] show ?thesis by auto
qed

section \<open>Events of inotify\<close>

text \<open>
  What the kernel writes for an event: the name is padded with \<open>pad\<close> null bytes, and there is neither
  name nor padding when the event is of the watched file itself.
\<close>

definition bytes32 :: "nat \<Rightarrow> char list" where
  "bytes32 n = map char_of [n mod 256, n div 256 mod 256, n div 65536 mod 256, n div 16777216 mod 256]"

definition event_bytes :: "inotify_event \<times> nat \<times> nat \<Rightarrow> char list" where
  "event_bytes e =
     (case e of (evt, cookie, pad) \<Rightarrow>
        bytes32 (nat (evt_wd evt mod 2 ^ 32)) @ bytes32 (evt_mask evt) @ bytes32 cookie @
        bytes32 (length (evt_name evt) + pad) @ evt_name evt @ replicate pad (CHR 0x00))"

definition event_ok :: "inotify_event \<times> nat \<times> nat \<Rightarrow> bool" where
  "event_ok e =
     (case e of (evt, cookie, pad) \<Rightarrow>
        - (2 ^ 31) \<le> evt_wd evt \<and> evt_wd evt < 2 ^ 31 \<and> evt_mask evt < 2 ^ 32 \<and>
        CHR 0x00 \<notin> set (evt_name evt) \<and> length (evt_name evt) + pad < 2 ^ 32)"

lemma length_bytes32 [simp]: "length (bytes32 n) = 4"
  by (simp add: bytes32_def)

lemma le32_bytes32 [simp]:
  assumes "n < 2 ^ 32" shows "le32 (bytes32 n @ r) = n"
proof -
  let ?d = "n div 256" and ?e = "n div 65536" and ?f = "n div 16777216"
  have e: "?e = ?d div 256" "?f = ?e div 256" by (simp_all flip: div_mult2_eq)
  have f: "?f < 256" using assms by (simp add: less_mult_imp_div_less)
  have "n = n mod 256 + 256 * (?d mod 256 + 256 * (?e mod 256 + 256 * ?f))"
    unfolding e by (metis mod_mult_div_eq)
  then show ?thesis using f by (simp add: le32_def bytes32_def)
qed

lemma drop_event:
  assumes "event_ok (evt, cookie, pad)"
  shows "le32 (event_bytes (evt, cookie, pad) @ r) = nat (evt_wd evt mod 2 ^ 32)"
    "le32 (drop 4 (event_bytes (evt, cookie, pad) @ r)) = evt_mask evt"
    "le32 (drop 12 (event_bytes (evt, cookie, pad) @ r)) = length (evt_name evt) + pad"
    "drop 16 (event_bytes (evt, cookie, pad) @ r) = evt_name evt @ replicate pad (CHR 0x00) @ r"
    "drop (16 + (length (evt_name evt) + pad)) (event_bytes (evt, cookie, pad) @ r) = r"
    "length (event_bytes (evt, cookie, pad)) = 16 + (length (evt_name evt) + pad)"
  using assms by (auto simp: event_bytes_def event_ok_def nat_less_iff)

lemma wd_back: "- (2 ^ 31) \<le> w \<Longrightarrow> w < 2 ^ 31 \<Longrightarrow> to_int32 (w mod 4294967296) = w"
  by (simp add: to_int32_def mod_simps)

text \<open>One round: what follows the name up to the next null byte belongs to it.\<close>

lemma inotify_step:
  assumes ok: "event_ok (evt, cookie, pad)" and n: "n + length (event_bytes (evt, cookie, pad)) < 2 ^ 64"
  shows "inotify_get_events (event_bytes (evt, cookie, pad) @ r) (length (event_bytes (evt, cookie, pad)) + n) =
    Option.bind (cstr (evt_name evt @ replicate pad (CHR 0x00) @ r)) (\<lambda>name.
      map_option ((#) (evt\<lparr>evt_name := name\<rparr>)) (inotify_get_events r n))"
proof -
  let ?b = "event_bytes (evt, cookie, pad) @ r" and ?l = "16 + (length (evt_name evt) + pad)"
  have w: "to_int32 (evt_wd evt mod 4294967296) = evt_wd evt"
    using ok by (intro wd_back) (simp_all add: event_ok_def)
  have l: "wrap_sub 64 (?l + n) ?l = n"
    using n drop_event(6) [OF ok] by simp
  have evt: "\<lparr>evt_wd = evt_wd evt, evt_mask = evt_mask evt, evt_name = name\<rparr> = evt\<lparr>evt_name := name\<rparr>" for name
    by simp
  define b where "b = ?b"
  have b: "le32 b = nat (evt_wd evt mod 2 ^ 32)" "le32 (drop 4 b) = evt_mask evt"
    "le32 (drop 12 b) = length (evt_name evt) + pad"
    "drop 16 b = evt_name evt @ replicate pad (CHR 0x00) @ r" "drop ?l b = r" "\<not> length b < 16"
    using drop_event [OF ok] by (simp_all only: b_def) simp
  show ?thesis
    unfolding drop_event(6) [OF ok] b_def [symmetric]
    by (subst inotify_get_events.simps)
      (simp add: b(1-5) b(6) w l Let_def map_conv_bind_option comp_def evt del: inotify_get_events.simps)
qed

lemma cstr_padded: "CHR 0x00 \<notin> set name \<Longrightarrow> 0 < pad \<Longrightarrow> cstr (name @ replicate pad (CHR 0x00) @ r) = Some name"
  by (cases pad) (auto simp: cstr_def takeWhile_append)

text \<open>The events that the kernel has written into the array, each with a padded name, are read back as they
  were, whatever the rest of the array holds.\<close>

theorem inotify_roundtrip:
  assumes "\<And>e. e \<in> set evs \<Longrightarrow> event_ok e \<and> 0 < snd (snd e)"
    and "length (concat (map event_bytes evs)) < 2 ^ 64"
  shows "inotify_get_events (concat (map event_bytes evs) @ r) (length (concat (map event_bytes evs))) =
    Some (map fst evs)"
  using assms
proof (induction evs)
  case Nil
  then show ?case by (simp add: inotify_get_events.simps)
next
  case (Cons e evs)
  obtain evt cookie pad where e: "e = (evt, cookie, pad)" by (cases e)
  have ok: "event_ok (evt, cookie, pad)" "0 < pad" using Cons.prems(1) [of e] by (simp_all add: e)
  have ih: "inotify_get_events (concat (map event_bytes evs) @ r) (length (concat (map event_bytes evs))) =
      Some (map fst evs)"
    using Cons by (intro Cons.IH) auto
  have "cstr (evt_name evt @ replicate pad (CHR 0x00) @ concat (map event_bytes evs) @ r) = Some (evt_name evt)"
    using ok by (intro cstr_padded) (simp_all add: event_ok_def)
  then show ?case
    using inotify_step [OF ok(1), of "length (concat (map event_bytes evs))" "concat (map event_bytes evs) @ r"]
      Cons.prems(2) ih
    by (simp add: e add.commute)
qed

theorem inotify_roundtrip_witness:
  "inotify_get_events (concat (map event_bytes [(\<lparr>evt_wd = 1, evt_mask = 256, evt_name = ''a''\<rparr>, 0, 15)]) @ [])
     (length (concat (map event_bytes [(\<lparr>evt_wd = 1, evt_mask = 256, evt_name = ''a''\<rparr>, 0, 15)]))) =
   Some [\<lparr>evt_wd = 1, evt_mask = 256, evt_name = ''a''\<rparr>]"
proof -
  let ?e = "(\<lparr>evt_wd = 1, evt_mask = 256, evt_name = ''a''\<rparr>, 0 :: nat, 15 :: nat)"
  have "event_ok ?e \<and> 0 < snd (snd ?e)" by (simp add: event_ok_def)
  moreover have "length (concat (map event_bytes [?e])) < 2 ^ 64" by (simp add: event_bytes_def)
  ultimately show ?thesis using inotify_roundtrip [of "[?e]" "[]"] by simp
qed

text \<open>The name of an event that has none is taken from the bytes that follow it in the array.\<close>

theorem inotify_nameless_event:
  assumes "event_ok (evt, cookie, 0)" "evt_name evt = []"
  shows "inotify_get_events (event_bytes (evt, cookie, 0) @ r) 16 =
    map_option (\<lambda>name. [evt\<lparr>evt_name := name\<rparr>]) (cstr r)"
  using inotify_step [OF assms(1), of 0 r] drop_event(6) [OF assms(1)] assms(2)
  by (cases "cstr r") (simp_all add: inotify_get_events.simps [of _ 0])

theorem inotify_nameless_event_witness:
  "inotify_get_events (event_bytes (\<lparr>evt_wd = 1, evt_mask = 2, evt_name = []\<rparr>, 0, 0) @ ''stale'' @ [CHR 0x00]) 16 =
   Some [\<lparr>evt_wd = 1, evt_mask = 2, evt_name = ''stale''\<rparr>]"
  using inotify_nameless_event [of "\<lparr>evt_wd = 1, evt_mask = 2, evt_name = []\<rparr>" 0 "''stale'' @ [CHR 0x00]"]
  by (simp add: event_ok_def cstr_def)

end
