(* ===== verification/UM_Async_Props.thy ===== *)
theory UM_Async_Props
  imports UM_Multishot UM_Calls_Props
begin

text \<open>
  The life of an asynchronous timeout (\<^verbatim>\<open>um_async_op.c\<close>, \<^verbatim>\<open>um_async_op_class.c\<close>): the operation is held by its
  handle and by its completion, and is on the transient list until a fiber awaits it.
\<close>

lemma op_lists_upd_heap [simp]: "op_lists (upd_heap f m) = op_lists m"
proof -
  have "opnext (m\<lparr>heap := h\<rparr>) = opnext m" "opprev (m\<lparr>heap := h\<rparr>) = opprev m" for h
    by (auto simp: opnext_def opprev_def)
  then show ?thesis unfolding upd_heap_def by (intro ext) (simp add: op_lists_def rq_rel_def)
qed

lemma upd_heap_fields [simp]:
  "ops (upd_heap f m) = ops m" "sqe_slots (upd_heap f m) = sqe_slots m" "sqes (upd_heap f m) = sqes m"
  "current_fiber (upd_heap f m) = current_fiber m" "test_mode (upd_heap f m) = test_mode m"
  "sidecar_mode (upd_heap f m) = sidecar_mode m" "heap (upd_heap f m) = f (heap m)"
  by (simp_all add: upd_heap_def)

text \<open>A timeout on its way: handle \<open>i\<close> holds operation \<open>a\<close>, which was submitted last.\<close>

definition pending_handle :: "um \<Rightarrow> nat \<Rightarrow> addr \<Rightarrow> bool" where
  "pending_handle m i a \<longleftrightarrow>
     async_op_op (async_of m i) = Some a \<and> op_flags (ops m a) = OP_F_ASYNC OR OP_F_TRANSIENT \<and>
     op_ref_count (ops m a) = 2 \<and> op_value (ops m a) = Qnil \<and> user_data (last (sqes m)) = Some a"

lemma prep_timeout_run:
  assumes l: "op_lists m q fl ts" and s: "sqe_slots m \<noteq> 0"
  shows "\<exists>i a m' fl'. um_prep_timeout t m = Some (Inr (Obj i), m') \<and> op_lists m' q fl' (a # ts) \<and>
    pending_handle m' i a \<and> current_fiber m' = current_fiber m \<and> test_mode m' = test_mode m \<and>
    sidecar_mode m' = sidecar_mode m"
proof -
  obtain a m1 fl' where m1: "um_op_acquire m = (a, m1)" "op_lists m1 q fl' ts"
    "a \<notin> set (q @ fl' @ ts)" "a < op_fresh m1"
    using acquire_lists [OF l] by blast
  note fr = acquire_fields [OF m1(1)]
  let ?f = "OP_F_ASYNC OR OP_F_TRANSIENT"
  let ?m2 = "um_prep_op a OP_TIMEOUT 2 ?f m1"
  have f: "has_flag ?f OP_F_TRANSIENT" "has_flag ?f OP_F_ASYNC" by (simp_all add: um_flag_defs)
  have "op_lists (um_op_transient_add (upd_op a (\<lambda>_. op_zero\<lparr>op_kind := OP_TIMEOUT, op_ref_count := 2, op_flags := ?f\<rparr>) m1) a)
      q fl' (a # ts)"
    using m1 by (intro transient_add_lists) (simp_all add: op_lists_other [OF m1(3)] op_zero_def)
  then have l2: "op_lists ?m2 q fl' (a # ts)"
    using f by (simp add: um_prep_op_def op_has_def Let_def op_lists_upd_op transient_add_fields)
  have o2: "op_flags (ops ?m2 a) = ?f" "op_ref_count (ops ?m2 a) = 2" "op_value (ops ?m2 a) = Qnil"
    "sqe_slots ?m2 = sqe_slots m" "current_fiber ?m2 = current_fiber m" "test_mode ?m2 = test_mode m"
    "sidecar_mode ?m2 = sidecar_mode m"
    using f fr by (simp_all add: um_prep_op_def op_has_def Let_def transient_add_fields)
  have acq: "acquire_prepared OP_TIMEOUT 2 ?f m = Some (Inr a, ?m2)"
    using m1(1) by (simp add: acquire_prepared_def state_op_def andthen_def)
  define i where "i = async_fresh (heap ?m2)"
  let ?m3 = "upd_op a (\<lambda>x. x\<lparr>op_async_op := Obj i\<rparr>) (um_async_op_set i a (AsyncOp_initialize i
      (upd_heap (\<lambda>h. h\<lparr>async_fresh := i + 1\<rparr>) (upd_op a (\<lambda>x. x\<lparr>op_ts := t\<rparr>) ?m2))))"
  have l3: "op_lists ?m3 q fl' (a # ts)"
    using l2 by (simp add: op_lists_upd_op um_async_op_set_def AsyncOp_initialize_def)
  have o3: "op_flags (ops ?m3 a) = ?f" "op_ref_count (ops ?m3 a) = 2" "op_value (ops ?m3 a) = Qnil"
    "sqe_slots ?m3 \<noteq> 0" "current_fiber ?m3 = current_fiber m" "test_mode ?m3 = test_mode m"
    "sidecar_mode ?m3 = sidecar_mode m" "async_op_op (async_of ?m3 i) = Some a"
    using o2 s by (simp_all add: um_async_op_set_def AsyncOp_initialize_def)
  obtain m4 where m4: "submit_op a (Prep_timeout t False) ?m3 = Some (Inr (), m4)" "ops m4 = ops ?m3"
    "op_lists m4 = op_lists ?m3" "user_data (last (sqes m4)) = Some a" "current_fiber m4 = current_fiber ?m3"
    "test_mode m4 = test_mode ?m3" "sidecar_mode m4 = sidecar_mode ?m3" "heap m4 = heap ?m3"
    using submit_op_run [OF o3(4), of a "Prep_timeout t False"] by auto
  have "um_prep_timeout t m = Some (Inr (Obj i), m4)"
    using acq m4(1) by (simp add: um_prep_timeout_def AsyncOp_new_def andthen_def gets_def modify_def ret_def i_def)
  then show ?thesis
    using l3 o3 m4 by (intro exI [of _ i] exI [of _ a] exI [of _ m4] exI [of _ fl']) (simp add: pending_handle_def)
qed

lemma cleared_flags: "((f OR g) AND NOT g) AND NOT (f OR g) = (0 :: u32)"
  by (rule bit_word_eqI) (auto simp: bit_simps)

text \<open>Awaiting it: the operation leaves the transient list, and the kernel completes it.\<close>

lemma await_pending_run:
  assumes l: "op_lists m [] fl (a # ts)" and h: "pending_handle m i a" and t: "\<not> test_mode m" "\<not> sidecar_mode m"
  obtains m' where "AsyncOp_await (\<lambda>_. kernel_completes r) i m =
      andthen (um_verify_op_completion (\<lambda>_. kernel_completes r) a True) (\<lambda>_. op_res a) m'"
    "detached m' [] fl ts a" "plain_op m' a" "op_has m' a OP_F_CQE_DONE" "op_ref_count (ops m' a) = 1"
    "res (op_result (ops m' a)) = r" "async_op_op (async_of m' i) = Some a"
proof -
  note h = h [unfolded pending_handle_def]
  let ?m1 = "um_op_transient_remove (upd_op a (\<lambda>x. x\<lparr>op_fiber := Fiber (current_fiber m)\<rparr>) m) a"
  let ?m2 = "clear_flags a (OP_F_ASYNC OR OP_F_TRANSIENT) ?m1"
  have "op_lists ?m1 [] fl ts \<and> a \<notin> set ([] @ fl @ ts)"
    using transient_remove_lists [of "upd_op a (\<lambda>x. x\<lparr>op_fiber := Fiber (current_fiber m)\<rparr>) m" "[]" fl "a # ts" a] l
    by (simp add: op_lists_upd_op)
  moreover have "a < op_fresh m" using l by (simp add: op_lists_def)
  ultimately have d: "detached ?m2 [] fl ts a" by (simp add: detached_def transient_remove_fields)
  have f: "op_flags (ops ?m2 a) = 0" "op_ref_count (ops ?m2 a) = 2" "op_fiber (ops ?m2 a) = Fiber (current_fiber ?m2)"
    "op_value (ops ?m2 a) = Qnil" "user_data (last (sqes ?m2)) = Some a" "\<not> test_mode ?m2" "\<not> sidecar_mode ?m2"
    "heap ?m2 = heap m"
    using h t cleared_flags [of OP_F_ASYNC OP_F_TRANSIENT] by (simp_all add: transient_remove_fields)
  obtain m' where m': "kernel_completes r ?m2 = Some (Inr Qnil, m')" "detached m' [] fl ts a" "plain_op m' a"
    "op_has m' a OP_F_CQE_DONE" "op_ref_count (ops m' a) = 1" "res (op_result (ops m' a)) = r" "heap m' = heap ?m2"
    using kernel_completes_run [OF d f(1-3,5-7), of r] f(4) by auto
  have nd: "\<not> op_has m a OP_F_CQE_DONE" using h by (simp add: op_has_def um_flag_defs)
  have "check Qnil = ret Qnil" by (simp add: check_def)
  then have "AsyncOp_await (\<lambda>_. kernel_completes r) i m =
      andthen (um_verify_op_completion (\<lambda>_. kernel_completes r) a True) (\<lambda>_. op_res a) m'"
    using h nd m'(1)
    by (simp add: AsyncOp_await_def raise_on_missing_op_def async_op_is_done_def um_async_op_await_def andthen_def
        gets_def modify_def ret_def)
  then show ?thesis using m' f(8) h by (intro that [of m']) simp_all
qed

text \<open>C29. A timeout that is prepared on an idle machine and then awaited returns the kernel's result: that it
  expired, or a result that is no error. When the handle is collected the operation goes back to the free list.\<close>

theorem timeout_awaited:
  assumes "op_lists m [] fl ts" "sqe_slots m \<noteq> 0" "\<not> test_mode m" "\<not> sidecar_mode m" and r: "0 \<le> r \<or> r = - ETIME"
  shows "\<exists>i m1 m2 m3 a fl'. um_prep_timeout t m = Some (Inr (Obj i), m1) \<and>
    AsyncOp_await (\<lambda>_. kernel_completes r) i m1 = Some (Inr (Fixnum r), m2) \<and>
    AsyncOp_result i m2 = Some (Inr (Fixnum r), m2) \<and>
    AsyncOp_free i m2 = Some m3 \<and> op_lists m3 [] (a # fl') ts \<and> op_ref_count (ops m3 a) = 0"
proof -
  obtain i a m1 fl' where m1: "um_prep_timeout t m = Some (Inr (Obj i), m1)" "op_lists m1 [] fl' (a # ts)"
    "pending_handle m1 i a" "\<not> test_mode m1" "\<not> sidecar_mode m1"
    using prep_timeout_run [OF assms(1,2), of t] assms(3,4) by auto
  obtain m2 where m2: "AsyncOp_await (\<lambda>_. kernel_completes r) i m1 =
      andthen (um_verify_op_completion (\<lambda>_. kernel_completes r) a True) (\<lambda>_. op_res a) m2"
    "detached m2 [] fl' ts a" "plain_op m2 a" "op_has m2 a OP_F_CQE_DONE" "op_ref_count (ops m2 a) = 1"
    "res (op_result (ops m2 a)) = r" "async_op_op (async_of m2 i) = Some a"
    using await_pending_run [OF m1(2-5)] by metis
  have "AsyncOp_await (\<lambda>_. kernel_completes r) i m1 = Some (Inr (Fixnum r), m2)"
    unfolding m2(1) using m2(4,6) r op_res_run [OF m2(6)]
    by (auto simp: andthen_def um_verify_op_completion_def Let_def ret_def)
  moreover have "AsyncOp_result i m2 = Some (Inr (Fixnum r), m2)"
    using m2(4,6,7) by (simp add: AsyncOp_result_def raise_on_missing_op_def async_op_is_done_def)
  moreover obtain m3 where "um_op_release m2 a = Some m3" "op_lists m3 [] (a # fl') ts" "op_ref_count (ops m3 a) = 0"
    using release_done [OF m2(2,3,5)] by metis
  ultimately show ?thesis using m1(1) m2(7)
    by (intro exI [of _ i] exI [of _ m1] exI [of _ m2] exI [of _ m3] exI [of _ a] exI [of _ fl'])
      (simp add: AsyncOp_free_def)
qed

theorem timeout_awaited_witness:
  "\<exists>i m1 m2. um_prep_timeout 3 idle_machine = Some (Inr (Obj i), m1) \<and>
    AsyncOp_await (\<lambda>_. kernel_completes (- ETIME)) i m1 = Some (Inr (Fixnum (- ETIME)), m2)"
  using timeout_awaited [OF idle_machine_ok, of "- ETIME" 3] by blast

text \<open>C30. When a fiber awaits a timeout and the timeout fails, as it does when another fiber cancels it, the
  awaiting fiber gives the operation up while the handle still holds it. The next operation acquired is
  the same, and collecting the handle takes a reference from it.\<close>

theorem cancelled_await_double_release:
  assumes "op_lists m [] fl ts" "sqe_slots m \<noteq> 0" "\<not> test_mode m" "\<not> sidecar_mode m" and r: "r < 0" "r \<noteq> - ETIME"
  shows "\<exists>i m1 m2 m3 m4 a fl'. um_prep_timeout t m = Some (Inr (Obj i), m1) \<and>
    AsyncOp_await (\<lambda>_. kernel_completes r) i m1 = Some (Inl (SysErr (- r)), m2) \<and>
    op_lists m2 [] (a # fl') ts \<and> async_op_op (async_of m2 i) = Some a \<and>
    acquire_prepared k 2 0 m2 = Some (Inr a, m3) \<and>
    AsyncOp_free i m3 = Some m4 \<and> op_ref_count (ops m4 a) = 1"
proof -
  obtain i a m1 fl' where m1: "um_prep_timeout t m = Some (Inr (Obj i), m1)" "op_lists m1 [] fl' (a # ts)"
    "pending_handle m1 i a" "\<not> test_mode m1" "\<not> sidecar_mode m1"
    using prep_timeout_run [OF assms(1,2), of t] assms(3,4) by auto
  obtain m2 where m2: "AsyncOp_await (\<lambda>_. kernel_completes r) i m1 =
      andthen (um_verify_op_completion (\<lambda>_. kernel_completes r) a True) (\<lambda>_. op_res a) m2"
    "detached m2 [] fl' ts a" "plain_op m2 a" "op_has m2 a OP_F_CQE_DONE" "op_ref_count (ops m2 a) = 1"
    "res (op_result (ops m2 a)) = r" "async_op_op (async_of m2 i) = Some a"
    using await_pending_run [OF m1(2-5)] by metis
  let ?m2 = "um_op_free (upd_op a (\<lambda>x. x\<lparr>op_ref_count := op_ref_count x - 1\<rparr>) m2) a"
  have rel: "um_op_release m2 a = Some ?m2"
    using m2(3,5) by (intro release_last_plain) (simp_all add: plain_op_def)
  have l2: "op_lists ?m2 [] (a # fl') ts" by (rule free_upd_lists [OF m2(2)]) simp
  have "AsyncOp_await (\<lambda>_. kernel_completes r) i m1 = Some (Inl (SysErr (- r)), ?m2)"
    unfolding m2(1) using m2(4,6) r rel
    by (simp add: andthen_def um_verify_op_completion_def um_raise_on_error_result_def op_release_def modify_opt_def raise_def)
  moreover have h2: "async_op_op (async_of ?m2 i) = Some a" using m2(7) by (simp add: um_op_free_def)
  moreover obtain m3 where m3: "acquire_prepared k 2 0 ?m2 = Some (Inr a, m3)" "op_ref_count (ops m3 a) = 2" "heap m3 = heap ?m2"
  proof -
    obtain m1' where "um_op_acquire ?m2 = (a, m1')"
      by (simp add: um_op_acquire_def um_op_alloc_def um_op_free_def Let_def)
    then show ?thesis
      using acquire_prepared_run [OF l2 has_flag_zero, of k 2] that
      by (auto simp: acquire_prepared_def state_op_def andthen_def modify_def)
  qed
  moreover have "AsyncOp_free i m3 = Some (upd_op a (\<lambda>x. x\<lparr>op_ref_count := op_ref_count x - 1\<rparr>) m3)"
    using h2 m3(2,3) release_shared [of m3 a] by (simp add: AsyncOp_free_def)
  ultimately show ?thesis using m1(1) l2 m3(2)
    by (intro exI [of _ i] exI [of _ m1] exI [of _ ?m2] exI [of _ m3] exI [of _ "upd_op a (\<lambda>x. x\<lparr>op_ref_count := op_ref_count x - 1\<rparr>) m3"]
        exI [of _ a] exI [of _ fl']) simp
qed

theorem cancelled_await_double_release_witness:
  "\<exists>i m1 m2. um_prep_timeout 3 idle_machine = Some (Inr (Obj i), m1) \<and>
    AsyncOp_await (\<lambda>_. kernel_completes (- ECANCELED)) i m1 = Some (Inl (SysErr ECANCELED), m2)"
proof -
  have "- ECANCELED < 0" "- ECANCELED \<noteq> - ETIME" by (simp_all add: ECANCELED_def ETIME_def)
  from cancelled_await_double_release [OF idle_machine_ok this, of 3 OP_FSYNC] show ?thesis by auto
qed

end
