(* ===== verification/UM_Select_Props.thy ===== *)
theory UM_Select_Props
  imports UM_Select
begin

text \<open>
  What \<open>um_select\<close> does once it is resumed: the first pass over its operations takes the results of those that
  are done and settles the others.
\<close>

lemma cancel_discard_exact:
  assumes "sqe_slots m \<noteq> 0"
  shows "\<exists>m'. um_cancel_op_and_discard_cqe a m = Some (Inr (), m') \<and>
    ops m' = (ops m)(a := (ops m a)\<lparr>op_flags := op_flags (ops m a) OR OP_F_CANCELED\<rparr>) \<and>
    sqe_slots m' = sqe_slots m - 1 \<and>
    sqes m' = sqes m @ [\<lparr>user_data = None, sqe_op = Prep_cancel a, sqe_skip_success = True\<rparr>]"
  using assms
  by (simp add: um_cancel_op_and_discard_cqe_def um_cancel_op_def andthen_def um_get_sqe_def modify_def
      prep_sqe_def sqe_skip_flag_def)

text \<open>What becomes of an operation: one that is done but whose fiber has not been resumed for it is marked to be
  skipped, one that is not done is cancelled.\<close>

definition settled :: "um_op \<Rightarrow> um_op" where
  "settled x =
     (if has_flag (op_flags x) OP_F_CQE_DONE
      then if has_flag (op_flags x) OP_F_SCHEDULED then x\<lparr>op_flags := op_flags x OR OP_F_SKIP\<rparr> else x
      else x\<lparr>op_flags := op_flags x OR OP_F_CANCELED\<rparr>)"

lemma select_add_settled: "has_flag (op_flags x) OP_F_CQE_DONE \<Longrightarrow> select_add (settled x) = select_add x"
  by (rule ext) (simp add: select_add_def settled_def um_flag_defs has_flag_or Let_def)

lemma select_collect_run:
  "distinct as \<Longrightarrow> length (filter (\<lambda>a. \<not> op_has m a OP_F_CQE_DONE) as) \<le> sqe_slots m \<Longrightarrow>
   \<exists>m'. select_collect as s m =
       Some (Inr (fold (\<lambda>a. select_add (ops m a)) (filter (\<lambda>a. op_has m a OP_F_CQE_DONE) as) s), m') \<and>
     sqes m' = sqes m @ map (\<lambda>a. \<lparr>user_data = None, sqe_op = Prep_cancel a, sqe_skip_success = True\<rparr>)
       (filter (\<lambda>a. \<not> op_has m a OP_F_CQE_DONE) as) \<and>
     (\<forall>x. ops m' x = (if x \<in> set as then settled (ops m x) else ops m x))"
proof (induction as arbitrary: m s)
  case Nil
  then show ?case by (simp add: ret_def)
next
  case (Cons a as)
  have a: "a \<notin> set as" "distinct as" using Cons.prems(1) by simp_all
  have same: "op_has m1 x OP_F_CQE_DONE = op_has m x OP_F_CQE_DONE" "ops m1 x = ops m x"
    if "ops m1 = (ops m)(a := y)" "x \<in> set as" for m1 x y
    using that a(1) by (auto simp: op_has_def)
  have filters: "filter (\<lambda>x. op_has m1 x OP_F_CQE_DONE) as = filter (\<lambda>x. op_has m x OP_F_CQE_DONE) as"
    "filter (\<lambda>x. \<not> op_has m1 x OP_F_CQE_DONE) as = filter (\<lambda>x. \<not> op_has m x OP_F_CQE_DONE) as"
    "fold (\<lambda>x. select_add (ops m1 x)) (filter (\<lambda>x. op_has m x OP_F_CQE_DONE) as) =
     fold (\<lambda>x. select_add (ops m x)) (filter (\<lambda>x. op_has m x OP_F_CQE_DONE) as)"
    if "ops m1 = (ops m)(a := y)" for m1 y
    using same [OF that] by (auto intro!: filter_cong fold_cong)
  show ?case
  proof (cases "op_has m a OP_F_CQE_DONE")
    case True
    let ?m1 = "if op_has m a OP_F_SCHEDULED then set_flags a OP_F_SKIP m else m"
    have m1: "ops ?m1 = (ops m)(a := settled (ops m a))" "sqe_slots ?m1 = sqe_slots m" "sqes ?m1 = sqes m"
      using True by (auto simp: settled_def op_has_def)
    have "length (filter (\<lambda>x. \<not> op_has ?m1 x OP_F_CQE_DONE) as) \<le> sqe_slots ?m1"
      unfolding filters(2) [OF m1(1)] m1(2) using Cons.prems(2) True by simp
    from Cons.IH [OF a(2) this, of "select_add (ops m a) s"]
    obtain m' where m': "select_collect as (select_add (ops m a) s) ?m1 =
        Some (Inr (fold (\<lambda>x. select_add (ops m x)) (filter (\<lambda>x. op_has m x OP_F_CQE_DONE) as) (select_add (ops m a) s)), m')"
      "sqes m' = sqes m @ map (\<lambda>a. \<lparr>user_data = None, sqe_op = Prep_cancel a, sqe_skip_success = True\<rparr>)
         (filter (\<lambda>x. \<not> op_has m x OP_F_CQE_DONE) as)"
      "\<forall>x. ops m' x = (if x \<in> set as then settled (ops ?m1 x) else ops ?m1 x)"
      unfolding filters [OF m1(1)] m1(3) by blast
    have "select_add (settled (ops m a)) = select_add (ops m a)"
      using True by (intro select_add_settled) (simp add: op_has_def)
    then have "select_collect (a # as) s m = select_collect as (select_add (ops m a) s) ?m1"
      using True m1(1) by (simp add: andthen_def modify_def)
    then show ?thesis using m' m1(1) a(1) True by (intro exI [of _ m']) auto
  next
    case False
    then have "sqe_slots m \<noteq> 0" using Cons.prems(2) by auto
    then obtain m1 where m1: "um_cancel_op_and_discard_cqe a m = Some (Inr (), m1)"
      "ops m1 = (ops m)(a := (ops m a)\<lparr>op_flags := op_flags (ops m a) OR OP_F_CANCELED\<rparr>)" "sqe_slots m1 = sqe_slots m - 1"
      "sqes m1 = sqes m @ [\<lparr>user_data = None, sqe_op = Prep_cancel a, sqe_skip_success = True\<rparr>]"
      using cancel_discard_exact by blast
    have "length (filter (\<lambda>x. \<not> op_has m1 x OP_F_CQE_DONE) as) \<le> sqe_slots m1"
      unfolding filters(2) [OF m1(2)] m1(3) using Cons.prems(2) False by simp
    from Cons.IH [OF a(2) this, of s]
    obtain m' where m': "select_collect as s m1 =
        Some (Inr (fold (\<lambda>x. select_add (ops m x)) (filter (\<lambda>x. op_has m x OP_F_CQE_DONE) as) s), m')"
      "sqes m' = sqes m1 @ map (\<lambda>a. \<lparr>user_data = None, sqe_op = Prep_cancel a, sqe_skip_success = True\<rparr>)
         (filter (\<lambda>x. \<not> op_has m x OP_F_CQE_DONE) as)"
      "\<forall>x. ops m' x = (if x \<in> set as then settled (ops m1 x) else ops m1 x)"
      unfolding filters [OF m1(2)] by blast
    have "select_collect (a # as) s m = select_collect as s m1"
      using False m1(1) by (simp add: andthen_def)
    moreover have "(ops m a)\<lparr>op_flags := op_flags (ops m a) OR OP_F_CANCELED\<rparr> = settled (ops m a)"
      using False by (simp add: settled_def op_has_def)
    ultimately show ?thesis using m' m1(2,4) a(1) False by (intro exI [of _ m']) auto
  qed
qed

lemma fold_select_add:
  "\<forall>a \<in> set as. 0 \<le> res (op_result (f a)) \<Longrightarrow>
   fold (\<lambda>a. select_add (f a)) as s =
     s\<lparr>rfds_out := rfds_out s @ map (op_value \<circ> f) (filter (\<lambda>a. has_flag (op_flags (f a)) OP_F_SELECT_POLLIN) as),
       wfds_out := wfds_out s @ map (op_value \<circ> f) (filter (\<lambda>a. has_flag (op_flags (f a)) OP_F_SELECT_POLLOUT) as),
       efds_out := efds_out s @ map (op_value \<circ> f) (filter (\<lambda>a. has_flag (op_flags (f a)) OP_F_SELECT_POLLPRI) as)\<rparr>"
  by (induction as arbitrary: s) (simp_all add: select_add_def Let_def)

text \<open>The descriptors of the operations that are done, of those waiting for an event.\<close>

definition ready_fds :: "um \<Rightarrow> addr list \<Rightarrow> u32 \<Rightarrow> rvalue list" where
  "ready_fds m as event =
     map (op_value \<circ> ops m) (filter (\<lambda>a. op_has m a event) (filter (\<lambda>a. op_has m a OP_F_CQE_DONE) as))"

text \<open>C31. When \<open>select\<close> is resumed and no operation has failed, the descriptors collected for each kind of event are
  those of the operations that are done, in the order in which they were given. Exactly the operations not
  done are cancelled, and those done that are still on the run queue are marked to be skipped there.\<close>

theorem select_collects_ready:
  assumes "distinct as" and room: "length (filter (\<lambda>a. \<not> op_has m a OP_F_CQE_DONE) as) \<le> sqe_slots m"
    and ok: "\<And>a. a \<in> set as \<Longrightarrow> op_has m a OP_F_CQE_DONE \<Longrightarrow> 0 \<le> res (op_result (ops m a))"
  shows "\<exists>m'. select_collect as \<lparr>rfds_out = [], wfds_out = [], efds_out = [], error_code = 0\<rparr> m =
      Some (Inr \<lparr>rfds_out = ready_fds m as OP_F_SELECT_POLLIN, wfds_out = ready_fds m as OP_F_SELECT_POLLOUT,
                 efds_out = ready_fds m as OP_F_SELECT_POLLPRI, error_code = 0\<rparr>, m') \<and>
    map sqe_op (sqes m') = map sqe_op (sqes m) @ map Prep_cancel (filter (\<lambda>a. \<not> op_has m a OP_F_CQE_DONE) as) \<and>
    (\<forall>x. ops m' x = (if x \<in> set as then settled (ops m x) else ops m x))"
proof -
  let ?d = "filter (\<lambda>a. op_has m a OP_F_CQE_DONE) as"
  have "\<forall>a \<in> set ?d. 0 \<le> res (op_result (ops m a))" using ok by simp
  from fold_select_add [OF this] select_collect_run [OF assms(1) room, of "\<lparr>rfds_out = [], wfds_out = [], efds_out = [], error_code = 0\<rparr>"]
  show ?thesis by (auto simp: ready_fds_def op_has_def comp_def)
qed

definition demo_select :: um where
  "demo_select = um_zero\<lparr>sqe_slots := 4, ops := (\<lambda>a.
     if a = 10 then op_zero\<lparr>op_flags := OP_F_SELECT_POLLIN OR OP_F_CQE_DONE, op_value := Fixnum 5\<rparr>
     else if a = 11 then op_zero\<lparr>op_flags := OP_F_SELECT_POLLIN, op_value := Fixnum 6\<rparr>
     else op_zero\<lparr>op_flags := OP_F_SELECT_POLLOUT OR OP_F_CQE_DONE, op_value := Fixnum 7\<rparr>)\<rparr>"

theorem select_collects_ready_witness:
  "\<exists>m'. select_collect [10, 11, 12] \<lparr>rfds_out = [], wfds_out = [], efds_out = [], error_code = 0\<rparr> demo_select =
      Some (Inr \<lparr>rfds_out = [Fixnum 5], wfds_out = [Fixnum 7], efds_out = [], error_code = 0\<rparr>, m') \<and>
    map sqe_op (sqes m') = [Prep_cancel 11]"
proof -
  have f: "op_has demo_select 10 OP_F_CQE_DONE" "\<not> op_has demo_select 11 OP_F_CQE_DONE" "op_has demo_select 12 OP_F_CQE_DONE"
    "op_has demo_select 10 OP_F_SELECT_POLLIN" "\<not> op_has demo_select 10 OP_F_SELECT_POLLOUT" "\<not> op_has demo_select 10 OP_F_SELECT_POLLPRI"
    "op_has demo_select 12 OP_F_SELECT_POLLOUT" "\<not> op_has demo_select 12 OP_F_SELECT_POLLIN" "\<not> op_has demo_select 12 OP_F_SELECT_POLLPRI"
    "sqe_slots demo_select = 4" "sqes demo_select = []" "op_value (ops demo_select 10) = Fixnum 5"
    "op_value (ops demo_select 12) = Fixnum 7" "res (op_result (ops demo_select a)) = 0" for a
    by (simp_all add: demo_select_def op_has_def um_flag_defs op_zero_def result_zero_def) (simp add: um_zero_def)
  from select_collects_ready [of "[10, 11, 12]" demo_select] show ?thesis
    by (auto simp: f ready_fds_def simp del: select_collect.simps)
qed

end
