(* ===== verification/UM_Multishot_Props.thy ===== *)
theory UM_Multishot_Props
  imports UM_Io_Props
begin

text \<open>
  The loop of the multishot operations: every result goes through the handler once, in the order of the
  completions; for \<open>accept_into_queue\<close> this fills the queue.
\<close>

section \<open>Handling every result\<close>

text \<open>\<open>I rs\<close> is what holds when the results \<open>rs\<close> are still to be handled; a handler keeps the links of the list.\<close>

lemma each_result_all:
  assumes step: "\<And>r rs m. I (r # rs) m \<Longrightarrow> \<exists>m'. f r m = Some (Inr Go_on, m') \<and> I rs m' \<and> result_at m' a = result_at m a"
  shows "ref_chain m a p ks \<Longrightarrow> I ks m \<Longrightarrow>
    \<exists>m'. each_result f a p m = Some (Inr Go_on, m') \<and> I [] m' \<and> result_at m' a = result_at m a"
proof (induction ks arbitrary: m p)
  case Nil
  then show ?case by (simp add: each_result.simps)
next
  case (Cons r ks)
  obtain m1 where m1: "f r m = Some (Inr Go_on, m1)" "I ks m1" "result_at m1 a = result_at m a"
    using step [OF Cons.prems(2)] by blast
  have "ref_chain m1 a (map_option Heap (res_next (result_at m1 a r))) ks"
    using Cons.prems(1) ref_chain_cong [of ks m1 a m] m1(3) by simp
  from Cons.IH [OF this m1(2)] show ?case
    using Cons.prems(1) m1(1,3) by (subst each_result.simps) simp
qed

section \<open>Accepting into a queue\<close>

text \<open>The handler that \<open>accept_into_queue_start\<close> gives to the loop.\<close>

abbreviation into_queue :: "(rvalue \<Rightarrow> int) \<Rightarrow> nat \<Rightarrow> addr \<Rightarrow> result_ref \<Rightarrow> each_flow comp" where
  "into_queue r q a \<equiv> accept_result (\<lambda>v. andthen (um_queue_push (r v) q v) (\<lambda>_. ret ())) a"

lemma queue_push_frame:
  assumes "um_queue_push r q v m = Some (Inr x, m')" "queue_waiters (queue_of m q) = 0"
  shows "ops m' = ops m \<and> results m' = results m"
  using assms by (auto simp: um_queue_push_def um_queue_add_def Let_def upd_heap_def)

lemma queue_push_run:
  assumes "queue_ok opn m q vs"
  shows "\<exists>x m'. um_queue_push r q v m = Some (Inr x, m') \<and> queue_ok opn m' q (vs @ [v]) \<and>
    ops m' = ops m \<and> results m' = results m"
proof -
  have "queue_waiters (queue_of m q) = 0" using assms by (simp add: queue_ok_def)
  then show ?thesis
    using add_ok [OF assms, of r v False] queue_push_frame [of r q v m] by (auto simp: um_queue_push_def)
qed

lemma result_at_cong: "ops m' = ops m \<Longrightarrow> results m' = results m \<Longrightarrow> result_at m' a = result_at m a"
  by (rule ext) (simp add: result_at_def split: result_ref.split)

lemma accept_results_run:
  assumes ch: "op_results m a rs xs" "xs \<noteq> []" and ok: "\<forall>x \<in> set xs. 0 \<le> fst x" and q: "queue_ok opn m q vs"
  shows "\<exists>m'. each_result (into_queue r q a) a (Some Inline) m =
      Some (Inr Go_on, m') \<and> queue_ok opn m' q (vs @ map (Fixnum \<circ> fst) xs) \<and> ops m' = ops m \<and> results m' = results m"
proof -
  let ?f = "into_queue r q a"
  let ?fd = "\<lambda>k. Fixnum (res (result_at m a k))"
  define I where "I ks m1 \<longleftrightarrow> (\<exists>ws. queue_ok opn m1 q ws \<and> ws @ map ?fd ks = vs @ map (Fixnum \<circ> fst) xs) \<and>
      ops m1 = ops m \<and> results m1 = results m \<and> (\<forall>k \<in> set ks. 0 \<le> res (result_at m a k))" for ks m1
  note v = op_results_refs [OF ch]
  have "map ?fd (result_refs rs) = map (Fixnum \<circ> fst) xs"
    unfolding v(1) [symmetric] by (simp add: result_view_def)
  moreover have "0 \<le> res (result_at m a k)" if "k \<in> set (result_refs rs)" for k
  proof -
    have "result_view (result_at m a k) \<in> set xs" using that unfolding v(1) [symmetric] by simp
    with ok show ?thesis by (fastforce simp: result_view_def)
  qed
  ultimately have I0: "I (result_refs rs) m" using q by (auto simp: I_def)
  have step: "\<exists>m'. ?f k m1 = Some (Inr Go_on, m') \<and> I ks m' \<and> result_at m' a = result_at m1 a"
    if i: "I (k # ks) m1" for k ks m1
  proof -
    obtain ws where ws: "queue_ok opn m1 q ws" "ws @ ?fd k # map ?fd ks = vs @ map (Fixnum \<circ> fst) xs"
      "ops m1 = ops m" "results m1 = results m" "0 \<le> res (result_at m a k)"
      using i by (auto simp: I_def)
    have at: "result_at m1 a = result_at m a" by (rule result_at_cong) (fact ws)+
    obtain y m' where m': "um_queue_push (r (?fd k)) q (?fd k) m1 = Some (Inr y, m')" "queue_ok opn m' q (ws @ [?fd k])"
      "ops m' = ops m1" "results m' = results m1" using queue_push_run [OF ws(1)] by blast
    have "?f k m1 = Some (Inr Go_on, m')"
      using m'(1) ws(5) at by (simp add: accept_result_def andthen_def gets_def ret_def)
    moreover have "result_at m' a = result_at m1 a" by (rule result_at_cong) (fact m')+
    moreover have "\<exists>us. queue_ok opn m' q us \<and> us @ map ?fd ks = vs @ map (Fixnum \<circ> fst) xs"
      using m'(2) ws(2) by (intro exI [of _ "ws @ [?fd k]"]) simp
    then have "I ks m'" using m'(3,4) i by (simp add: I_def)
    ultimately show ?thesis by blast
  qed
  show ?thesis using each_result_all [of I ?f a, OF step v(2) I0] by (auto simp: I_def)
qed


text \<open>Two connections, with descriptors 5 and 6, and an operation that is done.\<close>

definition demo_accept :: um where
  "demo_accept = upd_heap (um_queue_init 0) (set_flags 0 (OP_F_CQE_SEEN OR OP_F_CQE_DONE) demo_op)"


end
