(* ===== verification/UM_Ring.thy ===== *)
theory UM_Ring
  imports UM_Async_Props UM_Select
begin

text \<open>
  The entries of the submission queue. An entry of the ring is either free to be handed out
  (\<open>sqe_slots\<close>) or filled and waiting to be taken by the kernel (\<open>sqes\<close>); \<open>ops_unsubmitted\<close> of the metrics is
  what the machine goes by when it decides whether there is anything to submit. Only \<open>um_get_sqe\<close> and
  the functions that submit touch them: this theory shows that everything else leaves them alone, and that
  the functions that do touch them neither lose an entry nor make one up.
\<close>

section \<open>What is kept\<close>

definition ring_view :: "um \<Rightarrow> sqe list \<times> nat \<times> u32" where
  "ring_view m = (sqes m, sqe_slots m, ops_unsubmitted (metrics m))"

definition ring_size :: "um \<Rightarrow> nat" where
  "ring_size m = sqe_slots m + length (sqes m)"

lemma ring_size_view: "ring_view m' = ring_view m \<Longrightarrow> ring_size m' = ring_size m"
  by (simp add: ring_view_def ring_size_def)

text \<open>A computation, or a partial function of the machine, keeps the view \<open>v\<close> however it ends.\<close>

definition keeps :: "(um \<Rightarrow> 'v) \<Rightarrow> 'a comp \<Rightarrow> bool" where
  "keeps v c \<longleftrightarrow> (\<forall>m r m'. c m = Some (r, m') \<longrightarrow> v m' = v m)"

lemma keepsI: "(\<And>m r m'. c m = Some (r, m') \<Longrightarrow> v m' = v m) \<Longrightarrow> keeps v c"
  by (simp add: keeps_def)

lemma keepsD: "keeps v c \<Longrightarrow> c m = Some (r, m') \<Longrightarrow> v m' = v m"
  by (simp add: keeps_def)

lemma keeps_size: "keeps ring_view c \<Longrightarrow> keeps ring_size c"
  by (auto simp: keeps_def intro: ring_size_view)

named_theorems keeps_intros

lemma keeps_basic [keeps_intros]:
  "keeps v (ret x)" "keeps v (raise e)" "keeps v (gets f)" "keeps v (check w)" "keeps v (lift_sum r)"
  "keeps v (um_raise_internal_error s)" "keeps v (um_raise_on_error_result n)" "keeps v (num2dbl w)"
  "keeps v (raise_on_missing_op i)"
  by (auto simp: keeps_def check_def lift_sum_def um_raise_internal_error_def um_raise_on_error_result_def
      num2dbl_def raise_on_missing_op_def split: rvalue.splits sum.splits if_splits option.splits)

lemma keeps_andthen [keeps_intros]: "keeps v c \<Longrightarrow> (\<And>x. keeps v (k x)) \<Longrightarrow> keeps v (andthen c k)"
  by (fastforce simp: keeps_def andthen_def split: option.splits sum.splits)

lemma keeps_ensure [keeps_intros]: "keeps v c \<Longrightarrow> keeps v h \<Longrightarrow> keeps v (rb_ensure c h)"
  by (fastforce simp: keeps_def rb_ensure_def split: option.splits sum.splits)

lemma keeps_if [keeps_intros]: "keeps v c \<Longrightarrow> keeps v d \<Longrightarrow> keeps v (if b then c else d)"
  by simp

lemma keeps_branch: "(\<And>m. keeps v (f m)) \<Longrightarrow> keeps v (\<lambda>m. f m m)"
  by (simp add: keeps_def)

lemma keeps_state:
  "(\<And>m. v (g m) = v m) \<Longrightarrow> keeps v (modify g)"
  "(\<And>m x m'. f m = (x, m') \<Longrightarrow> v m' = v m) \<Longrightarrow> keeps v (state_op f)"
  "(\<And>m m'. h m = Some m' \<Longrightarrow> v m' = v m) \<Longrightarrow> keeps v (modify_opt h)"
  by (auto simp: keeps_def modify_opt_def state_op_def split: prod.splits)

section \<open>The pool and the operations leave the ring alone\<close>

lemma view_upd [simp]:
  "ring_view (upd_op a f m) = ring_view m" "ring_view (set_flags a g m) = ring_view m"
  "ring_view (clear_flags a g m) = ring_view m" "ring_view (upd_buffer a bf m) = ring_view m"
  "ring_view (upd_heap h m) = ring_view m" "ring_view (set_result a n g m) = ring_view m"
  "ring_view (dec_pending m) = ring_view m" "ring_view (set_iovecs a p m) = ring_view m"
  "ring_view (io_uring_buf_ring_add a i b k m) = ring_view m"
  "ring_view (io_uring_buf_ring_advance i m) = ring_view m"
  "ring_view (um_segment_free m s) = ring_view m" "ring_view (buffer_free m a bf) = ring_view m"
  "ring_view (um_op_free m a) = ring_view m" "ring_view (um_schedule_op m a) = ring_view m"
  "ring_view (um_runqueue_push m a) = ring_view m" "ring_view (um_op_transient_add m a) = ring_view m"
  "ring_view (um_op_transient_remove m a) = ring_view m" "ring_view (um_prep_op a kd rc g m) = ring_view m"
  "ring_view (multishot_result_free m r) = ring_view m" "ring_view (upd_result a ref y m) = ring_view m"
  by (simp_all add: ring_view_def upd_heap_def set_result_def dec_pending_def set_iovecs_def io_uring_buf_ring_add_def
      io_uring_buf_ring_advance_def um_segment_free_def buffer_free_def um_op_free_def um_schedule_op_def
      um_runqueue_push_def um_op_transient_add_def um_op_transient_remove_def um_prep_op_def upd_buffer_def
      multishot_result_free_def upd_result_def Let_def split: option.split result_ref.split)

lemma view_alloc:
  "segment_alloc m = (s, m') \<Longrightarrow> ring_view m' = ring_view m"
  "multishot_result_alloc m = (x, m') \<Longrightarrow> ring_view m' = ring_view m"
  "um_op_acquire m = (a, m') \<Longrightarrow> ring_view m' = ring_view m"
  "um_runqueue_shift m = (p, m') \<Longrightarrow> ring_view m' = ring_view m"
  "buffer_alloc m = (b, m') \<Longrightarrow> ring_view m' = ring_view m"
  by (auto simp: ring_view_def segment_alloc_def multishot_result_alloc_def um_op_acquire_def um_op_alloc_def
      um_runqueue_shift_def buffer_alloc_def Let_def split: option.splits)

lemma view_checkout: "bp_buffer_checkout m = Some (a, m') \<Longrightarrow> ring_view m' = ring_view m"
  by (auto simp: bp_buffer_checkout_def bind_eq_Some_conv ring_view_def upd_buffer_def buffer_alloc_def Let_def
      split: option.splits)

lemma view_checkin: "bp_buffer_checkin m a = Some m' \<Longrightarrow> ring_view m' = ring_view m"
  by (auto simp: bp_buffer_checkin_def bind_eq_Some_conv Let_def split: if_splits)

lemma view_uncommit: "uncommit_buffer m a bid = Some m' \<Longrightarrow> ring_view m' = ring_view m"
  by (auto simp: uncommit_buffer_def bind_eq_Some_conv ring_view_def dest!: view_checkin)

lemma view_commit: "commit_buffer m k = Some (b, m') \<Longrightarrow> ring_view m' = ring_view m"
  by (auto simp: commit_buffer_def bind_eq_Some_conv Let_def ring_view_def upd_buffer_def
      io_uring_buf_ring_add_def dest!: view_checkout split: if_splits)

lemma view_commit_loop: "commit_loop m k = Some r \<Longrightarrow> ring_view (snd r) = ring_view m"
proof (erule commit_loop.raw_induct [rotated])
  fix f :: "um \<Rightarrow> nat \<Rightarrow> (nat \<times> um) option" and m k r
  assume f: "\<And>m k r. f m k = Some r \<Longrightarrow> ring_view (snd r) = ring_view m"
    and s: "(if should_commit_more_p m then commit_buffer m k \<bind>
        (\<lambda>r. f (snd r) (if fst r then Suc k else k)) else Some (k, m)) = Some r"
  show "ring_view (snd r) = ring_view m"
  proof (cases "should_commit_more_p m")
    case True
    then obtain b m1 where "commit_buffer m k = Some (b, m1)" "f m1 (if b then Suc k else k) = Some r"
      using s by (auto simp: bind_eq_Some_conv)
    then show ?thesis using f view_commit by metis
  qed (use s in auto)
qed

lemma view_ensure:
  assumes "bp_ensure_commit_level m = Some m'"
  shows "ring_view m' = ring_view m"
proof (cases "bp_total_commited m > bp_commit_level m div 2")
  case False
  then obtain n m1 where "commit_loop m 0 = Some (n, m1)" "ring_view m' = ring_view m1"
    using assms by (auto simp: bp_ensure_commit_level_def bind_eq_Some_conv)
  then show ?thesis using view_commit_loop [of m 0 "(n, m1)"] by simp
qed (use assms in \<open>simp add: bp_ensure_commit_level_def\<close>)

lemma view_consume: "bp_buffer_consume m a n = Some (s, m') \<Longrightarrow> ring_view m' = ring_view m"
  by (auto simp: bp_buffer_consume_def bind_eq_Some_conv Let_def ring_view_def upd_buffer_def segment_alloc_def
      split: option.splits prod.splits)

lemma view_result_segment: "bp_get_op_result_segment m n f = Some (s, m') \<Longrightarrow> ring_view m' = ring_view m"
  by (auto simp: bp_get_op_result_segment_def bind_eq_Some_conv Let_def ring_view_def
      dest!: view_consume view_ensure view_uncommit split: if_splits)

lemma view_results_push: "um_op_multishot_results_push m a n f = Some m' \<Longrightarrow> ring_view m' = ring_view m"
  by (auto simp: um_op_multishot_results_push_def bind_eq_Some_conv Let_def
      dest!: view_result_segment view_alloc(2) split: if_splits prod.splits)

lemma view_free_results: "free_results m p = Some m' \<Longrightarrow> ring_view m' = ring_view m"
  by (erule free_results.raw_induct [rotated]) (auto split: option.splits)

lemma view_results_clear: "um_op_multishot_results_clear m a = Some m' \<Longrightarrow> ring_view m' = ring_view m"
  by (auto simp: um_op_multishot_results_clear_def bind_eq_Some_conv dest!: view_free_results split: if_splits)

lemma view_free_iovecs: "free_iovecs p m = Some m' \<Longrightarrow> ring_view m' = ring_view m"
  by (auto simp: free_iovecs_def ring_view_def split: option.splits if_splits)

lemma view_release: "um_op_release m a = Some m' \<Longrightarrow> ring_view m' = ring_view m"
  by (auto simp: um_op_release_def bind_eq_Some_conv Let_def
      dest!: view_results_clear view_free_iovecs split: if_splits)

section \<open>The loop\<close>

lemma view_cqe: "um_process_cqe m c = Some m' \<Longrightarrow> ring_view m' = ring_view m"
  by (auto simp: um_process_cqe_def bind_eq_Some_conv Let_def
      dest!: view_release view_results_push split: option.splits if_splits)

lemma view_cqes: "process_cqes cs m = Some m' \<Longrightarrow> ring_view m' = ring_view m"
  by (induction cs arbitrary: m) (auto simp: bind_eq_Some_conv dest!: view_cqe)

lemma keeps_ready_cqes [keeps_intros]: "keeps ring_view (um_process_ready_cqes cs fl n)"
proof (rule keepsI)
  show "um_process_ready_cqes cs fl n m = Some (r, m') \<Longrightarrow> ring_view m' = ring_view m" for m r m'
  proof (induction fl arbitrary: cs n m)
    case (Cons x fl)
    obtain k cs' where x: "x = (k, cs')" by (cases x)
    obtain m1 where m1: "process_cqes cs m = Some m1" using Cons.prems x by (auto simp: bind_eq_Some_conv)
    show ?case
    proof (cases "k < 0")
      case True
      then show ?thesis using Cons.prems x m1 view_cqes [OF m1] by simp
    next
      case False
      then show ?thesis using Cons.prems x m1 view_cqes [OF m1] Cons.IH [of cs' "n + length cs" m1] by simp
    qed
  qed (auto simp: bind_eq_Some_conv dest!: view_cqes)
qed

lemma keeps_release [keeps_intros]: "keeps ring_view (op_release a)"
  unfolding op_release_def by (rule keeps_state) (rule view_release)

text \<open>What is taken from the ring is filled, what the kernel takes is free again.\<close>

lemma size_upd [simp]:
  "ring_size (upd_op a f m) = ring_size m" "ring_size (set_flags a g m) = ring_size m"
  "ring_size (clear_flags a g m) = ring_size m" "ring_size (um_prep_op a k n g m) = ring_size m"
  "ring_size (set_iovecs a p m) = ring_size m" "ring_size (upd_heap hp m) = ring_size m"
  by (rule ring_size_view; simp)+

lemma size_fields [simp]:
  "ring_size (upd_metrics f m) = ring_size m" "ring_size (m\<lparr>pending_fibers := F\<rparr>) = ring_size m" "ring_size (m\<lparr>rbufs := bs\<rparr>) = ring_size m"
  "ring_size (m\<lparr>current_fiber := h\<rparr>) = ring_size m"
  by (simp_all add: ring_size_def)

lemma size_submitted [simp]: "ring_size (submitted r m) = ring_size m"
  by (auto simp: ring_size_def submitted_def)

lemma get_sqe_size: "um_get_sqe p m = Some (r, m') \<Longrightarrow>
   ring_size m' = ring_size m \<and> (r = Inr () \<longrightarrow> sqes m' \<noteq> [])"
  by (auto simp: um_get_sqe_def um_raise_internal_error_def ring_size_def split: if_splits)

lemma prep_size: "sqes m \<noteq> [] \<Longrightarrow> ring_size (prep_sqe p m) = ring_size m \<and> sqes (prep_sqe p m) \<noteq> []"
  by (cases "sqes m" rule: rev_cases) (simp_all add: ring_size_def prep_sqe_def)

lemma skip_size: "sqes m \<noteq> [] \<Longrightarrow> ring_size (sqe_skip_flag m) = ring_size m"
  by (cases "sqes m" rule: rev_cases) (simp_all add: ring_size_def sqe_skip_flag_def)

lemma keeps_prepared [keeps_intros]:
  "keeps ring_size (submit_op a p)" "keeps ring_size (um_cancel_op a)" "keeps ring_size (um_wakeup n)"
  by (auto simp: submit_op_def um_cancel_op_def um_wakeup_def andthen_eq_Some prep_size skip_size
      intro!: keepsI dest!: get_sqe_size)

lemma keeps_submit [keeps_intros]: "keeps ring_size (um_submit n)"
  by (auto simp: um_submit_def intro!: keepsI split: if_splits)

lemmas keeps_machine = keeps_state [where v = ring_size] view_alloc [THEN ring_size_view]

lemma keeps_yield [keeps_intros]: "keeps ring_size sw \<Longrightarrow> keeps ring_size (um_yield sw)"
  unfolding um_yield_def by (auto intro!: keeps_intros keeps_machine(1))

lemma keeps_wait [keeps_intros]: "keeps ring_size (um_wait_for_and_process_ready_cqes w)"
proof (rule keepsI)
  fix m r m'
  assume w: "um_wait_for_and_process_ready_cqes w m = Some (r, m')"
  have c: "andthen (um_process_ready_cqes cs fl n) (\<lambda>_. ret ()) m1 = Some (r, m') \<Longrightarrow> ring_size m' = ring_size m1"
    for cs fl n m1
    using keepsD [OF keeps_andthen [OF keeps_size [OF keeps_ready_cqes] keeps_basic(1)]] .
  show "ring_size m' = ring_size m"
    using w by (auto simp: um_wait_for_and_process_ready_cqes_def um_wait_for_cqe_without_gvl_def Let_def
        bind_eq_Some_conv dest!: c view_cqe [THEN ring_size_view] split: if_splits option.splits)
qed

lemma size_runqueue_op: "process_runqueue_op m a = Some (t, m') \<Longrightarrow> ring_size m' = ring_size m"
  by (auto simp: process_runqueue_op_def bind_eq_Some_conv dest!: view_release [THEN ring_size_view])

lemma keeps_switch [keeps_intros]: "keeps ring_size (um_switch ws)"
proof (rule keepsI)
  have "um_switch ws m = Some r \<Longrightarrow> ring_size (snd r) = ring_size m" for ws m r
  proof (erule um_switch.raw_induct [rotated])
    fix f :: "wait_env list \<Rightarrow> switch_result comp" and ws m r
    assume f: "\<And>ws m r. f ws m = Some r \<Longrightarrow> ring_size (snd r) = ring_size m"
      and s: "(case um_runqueue_shift m of
         (Some a, m) \<Rightarrow>
           if op_has m a OP_F_SKIP then um_op_release (clear_flags a OP_F_SCHEDULED m) a \<bind> f ws
           else if test_mode m \<and> op_kind (ops m a) = OP_SCHEDULE then
             andthen (um_wait_for_and_process_ready_cqes (case ws of [] \<Rightarrow> no_cqes | w # _ \<Rightarrow> w))
               (\<lambda>_ m. map_option (apfst Inr) (process_runqueue_op m a)) m
           else map_option (apfst Inr) (process_runqueue_op m a)
       | (None, m) \<Rightarrow>
           (case ws of [] \<Rightarrow> Some (Inr Blocked, m)
            | w # ws' \<Rightarrow> um_wait_for_and_process_ready_cqes w m \<bind>
                (\<lambda>r. case fst r of Inl e \<Rightarrow> Some (Inl e, snd r) | Inr _ \<Rightarrow> f ws' (snd r)))) = Some r"
    obtain p m1 where p: "um_runqueue_shift m = (p, m1)" by fastforce
    have m1: "ring_size m1 = ring_size m" using view_alloc(4) [OF p] by (rule ring_size_view)
    have pr: "map_option (apfst Inr) (process_runqueue_op m2 a) = Some r \<Longrightarrow> ring_size (snd r) = ring_size m2" for m2 a
      by (cases r) (auto dest: size_runqueue_op)
    show "ring_size (snd r) = ring_size m"
    proof (cases p)
      case None
      show ?thesis
      proof (cases ws)
        case Nil
        then show ?thesis using s p m1 None by auto
      next
        case (Cons w ws')
        then obtain x m2 where "um_wait_for_and_process_ready_cqes w m1 = Some (x, m2)"
          and r: "(case x of Inl e \<Rightarrow> Some (Inl e, m2) | Inr _ \<Rightarrow> f ws' m2) = Some r"
          using s p None by (cases "um_wait_for_and_process_ready_cqes w m1") (auto split: sum.splits)
        then have "ring_size m2 = ring_size m" using m1 keepsD [OF keeps_wait] by simp
        then show ?thesis using r f [of ws' m2 r] by (auto split: sum.splits)
      qed
    next
      case (Some a)
      consider m2 where "um_op_release (clear_flags a OP_F_SCHEDULED m1) a = Some m2" "f ws m2 = Some r"
        | w where "andthen (um_wait_for_and_process_ready_cqes w)
            (\<lambda>_ m. map_option (apfst Inr) (process_runqueue_op m a)) m1 = Some r"
        | "map_option (apfst Inr) (process_runqueue_op m1 a) = Some r"
        using s p Some by (auto simp: bind_eq_Some_conv split: if_splits)
      then show ?thesis
      proof cases
        case 1
        then show ?thesis using f view_release [THEN ring_size_view] m1 by fastforce
      next
        case (2 w)
        then show ?thesis using pr m1 by (fastforce simp: andthen_eq_Some dest: keepsD [OF keeps_wait])
      next
        case 3
        then show ?thesis using pr m1 by simp
      qed
    qed
  qed
  then show "um_switch ws m = Some (r, m') \<Longrightarrow> ring_size m' = ring_size m" for m r m' by fastforce
qed

section \<open>Cancellation, verification and the calls\<close>

lemma keeps_op_release [keeps_intros]: "keeps ring_size (op_release a)"
  by (rule keeps_size) (rule keeps_release)

lemma keeps_clear [keeps_intros]: "keeps ring_size (modify_opt (\<lambda>m. um_op_multishot_results_clear m a))"
  by (rule keeps_machine(3)) (rule ring_size_view, rule view_results_clear)

lemma keeps_acquire [keeps_intros]: "keeps ring_size (state_op um_op_acquire)"
  by (rule keeps_machine(2)) (rule ring_size_view, rule view_alloc)

lemma keeps_modify [keeps_intros]:
  "keeps ring_size (modify (upd_op a f))" "keeps ring_size (modify (set_flags a g))"
  "keeps ring_size (modify (clear_flags a g))" "keeps ring_size (modify (um_prep_op a k n g))"
  "keeps ring_size (modify (set_iovecs a p))" "keeps ring_size (modify (upd_heap h))"
  by (rule keeps_machine(1); simp)+

lemma keeps_pending [keeps_intros]:
  "keeps ring_size (modify (\<lambda>m. m\<lparr>pending_fibers := insert f (pending_fibers m)\<rparr>))"
  "keeps ring_size (modify (\<lambda>m. m\<lparr>pending_fibers := pending_fibers m - {f}\<rparr>))"
  by (rule keeps_machine(1); simp)+

lemma keeps_discard [keeps_intros]: "keeps ring_size (um_cancel_op_and_discard_cqe a)"
  unfolding um_cancel_op_and_discard_cqe_def by (intro keeps_intros)

lemma keeps_iteration [keeps_intros]: "keeps ring_size (await_iteration a n)"
proof (rule keepsI)
  have "keeps ring_size (andthen (if b then um_cancel_op a else ret ()) (\<lambda>_.
      andthen (modify_opt (\<lambda>m. um_op_multishot_results_clear m a)) (\<lambda>_.
      andthen (modify (clear_flags a OP_F_CQE_SEEN)) (\<lambda>_. ret (n + 1)))))" for b
    by (intro keeps_intros)
  from keepsD [OF this] show "await_iteration a n m = Some (r, m') \<Longrightarrow> ring_size m' = ring_size m" for m r m'
    unfolding await_iteration_def by (cases "op_has m a OP_F_MULTISHOT") simp_all
qed

lemma keeps_await_loop [keeps_intros]:
  assumes sw: "\<And>k. keeps ring_size (sw k)"
  shows "keeps ring_size (await_loop sw a k n)"
proof (rule keepsI)
  have "(\<forall>k. keeps ring_size (sw k)) \<longrightarrow> ring_size (snd r) = ring_size m" if "await_loop sw a k n m = Some r" for k n m r
    using that
  proof (rule await_loop.raw_induct [where P = "\<lambda>sw a k n m r. (\<forall>k. keeps ring_size (sw k)) \<longrightarrow>
      ring_size (snd r) = ring_size m", rotated], intro impI)
    fix f sw a k n m r
    assume f: "\<And>sw a k n m r. f sw a k n m = Some r \<Longrightarrow> (\<forall>k. keeps ring_size (sw k)) \<longrightarrow>
        ring_size (snd (r :: unit outcome)) = ring_size m"
      and sw: "\<forall>k. keeps ring_size (sw k)"
      and s: "(if op_has m a OP_F_CQE_DONE then Some (Inr (), m)
         else andthen (await_iteration a n) (\<lambda>n'. andthen (sw k) (\<lambda>_. ret n')) m \<bind>
           (\<lambda>r. case fst r of Inl e \<Rightarrow> Some (Inl e, snd r) | Inr n' \<Rightarrow> f sw a (Suc k) n' (snd r))) = Some r"
    have "keeps ring_size (andthen (await_iteration a n) (\<lambda>n'. andthen (sw k) (\<lambda>_. ret n')))"
      using sw by (intro keeps_intros) simp
    note it = keepsD [OF this]
    show "ring_size (snd r) = ring_size m"
    proof (cases "op_has m a OP_F_CQE_DONE")
      case False
      then obtain x m1 where m1: "andthen (await_iteration a n) (\<lambda>n'. andthen (sw k) (\<lambda>_. ret n')) m = Some (x, m1)"
        and r: "(case x of Inl e \<Rightarrow> Some (Inl e, m1) | Inr n' \<Rightarrow> f sw a (Suc k) n' m1) = Some r"
        using s by (cases "andthen (await_iteration a n) (\<lambda>n'. andthen (sw k) (\<lambda>_. ret n')) m")
          (auto split: sum.splits)
      have "ring_size (snd r) = ring_size m1"
      proof (cases x)
        case (Inr n')
        then show ?thesis using f [of sw a "Suc k" n' m1 r] r sw by simp
      qed (use r in auto)
      then show ?thesis using it [OF m1] by simp
    qed (use s in auto)
  qed
  then show "await_loop sw a k n m = Some (r, m') \<Longrightarrow> ring_size m' = ring_size m" for m r m'
    using sw by fastforce
qed

lemma keeps_await [keeps_intros]:
  "(\<And>k. keeps ring_size (sw k)) \<Longrightarrow> keeps ring_size (um_cancel_op_and_await_cqe sw a)"
  unfolding um_cancel_op_and_await_cqe_def by (intro keeps_intros)

lemma keeps_verify [keeps_intros]:
  assumes "\<And>k. keeps ring_size (sw k)"
  shows "keeps ring_size (um_verify_op_completion sw a aw)"
proof (rule keepsI)
  fix m r m'
  assume s: "um_verify_op_completion sw a aw m = Some (r, m')"
  have "keeps ring_size (andthen (if aw then um_cancel_op_and_await_cqe sw a else um_cancel_op_and_discard_cqe a)
      (\<lambda>_. ret False))"
    "keeps ring_size (andthen (op_release a) (\<lambda>_. andthen (um_raise_on_error_result n) (\<lambda>_. ret True)))" for n
    using assms by (intro keeps_intros; simp)+
  then show "ring_size m' = ring_size m"
    using s by (auto simp: um_verify_op_completion_def Let_def dest: keepsD split: if_splits)
qed

lemma keeps_acquire_prepared [keeps_intros]: "keeps ring_size (acquire_prepared k n f)"
  unfolding acquire_prepared_def by (intro keeps_intros)

lemma keeps_finish [keeps_intros]:
  "(\<And>k. keeps ring_size (sw k)) \<Longrightarrow> keeps ring_size c \<Longrightarrow> keeps ring_size (finish_op sw a aw c v)"
  unfolding finish_op_def by (intro keeps_intros)

lemma keeps_rbuf [keeps_intros]:
  "keeps ring_size (prepare_rbuf b n ofs)" "keeps ring_size (update_rbuf b ofs r)" "keeps ring_size (write_len b n)"
  "keeps ring_size (alloc_iovecs base bs)"
  by (auto simp: prepare_rbuf_def update_rbuf_def write_len_def alloc_iovecs_def modify_opt_def state_op_def
      ring_size_def andthen_eq_Some lift_sum_def um_raise_internal_error_def intro!: keepsI
      split: option.splits sum.splits)

lemma keeps_op_res [keeps_intros]: "keeps v (op_res a)"
  unfolding op_res_def by (intro keeps_intros)

lemma keeps_blocking [keeps_intros]:
  assumes "\<And>k. keeps ring_size (sw k)" "\<And>a. keeps ring_size (c a)"
  shows "keeps ring_size (blocking_call sw kd p aw c)"
  unfolding blocking_call_def using assms by (intro keeps_intros; simp)

lemma keeps_raw [keeps_intros]:
  assumes "\<And>k. keeps ring_size (sw k)"
  shows "keeps ring_size (raw_call sw kd p)"
  unfolding raw_call_def using assms by (intro keeps_intros; simp)

text \<open>Some calls do other work between taking an entry and filling it: there the queue is not empty.\<close>

definition keeps_taken :: "'a comp \<Rightarrow> bool" where
  "keeps_taken c \<longleftrightarrow> (\<forall>m r m'. sqes m \<noteq> [] \<longrightarrow> c m = Some (r, m') \<longrightarrow> ring_size m' = ring_size m)"

lemma keeps_get_sqe [keeps_intros]: "keeps_taken (k ()) \<Longrightarrow> keeps ring_size (andthen (um_get_sqe p) k)"
  unfolding keeps_def keeps_taken_def by (auto simp: andthen_eq_Some dest!: get_sqe_size)

lemma taken_prep [keeps_intros]: "keeps ring_size (k ()) \<Longrightarrow> keeps_taken (andthen (modify (prep_sqe p)) k)"
  using prep_size by (fastforce simp: keeps_def keeps_taken_def)

lemma taken_upd_op [keeps_intros]:
  assumes "keeps_taken (k ())"
  shows "keeps_taken (andthen (modify (upd_op a f)) k)"
  using assms unfolding keeps_taken_def modify_run by (metis size_upd(1) upd_op_simps(38))

lemma taken_num2int [keeps_intros]:
  assumes "\<And>n. keeps_taken (k n)"
  shows "keeps_taken (andthen (num2int w) k)"
proof -
  have "num2int w m = Some (r, m') \<Longrightarrow> m' = m" for m r m'
    by (auto simp: num2int_def int_range_def split: rvalue.splits if_splits)
  then show ?thesis using assms by (fastforce simp: keeps_taken_def andthen_eq_Some)
qed

lemma keeps_select_prepare [keeps_intros]: "keeps ring_size (prepare_select_poll_ops acc fds f e)"
proof (induction fds arbitrary: acc)
  case (Cons fd fds)
  then show ?case unfolding prepare_select_poll_ops.simps by (intro keeps_intros)
qed (simp only: prepare_select_poll_ops.simps, intro keeps_intros)

lemma keeps_select_collect [keeps_intros]: "keeps ring_size (select_collect as s)"
proof (induction as arbitrary: s)
  case (Cons a as)
  have "keeps ring_size (modify (\<lambda>m. if op_has m a OP_F_SCHEDULED then set_flags a OP_F_SKIP m else m))"
    by (rule keeps_machine(1)) simp
  with Cons show ?case unfolding select_collect.simps by (intro keeps_intros)
qed (simp only: select_collect.simps, intro keeps_intros)

lemma keeps_select_release [keeps_intros]: "keeps ring_size (select_release as)"
proof (induction as)
  case (Cons a as)
  then show ?case unfolding select_release.simps by (intro keeps_intros)
qed (simp only: select_release.simps, intro keeps_intros)

lemma keeps_new_handle [keeps_intros]: "keeps ring_size AsyncOp_new"
  unfolding AsyncOp_new_def AsyncOp_initialize_def by (intro keeps_intros)

lemma keeps_handle_await [keeps_intros]:
  assumes sw: "\<And>k. keeps ring_size (sw k)"
  shows "keeps ring_size (um_async_op_await sw i)"
proof (rule keepsI)
  have t: "ring_size (um_op_transient_remove m a) = ring_size m" for m a by (rule ring_size_view) simp
  have g: "keeps ring_size (modify (\<lambda>m. upd_op a (\<lambda>x. x\<lparr>op_fiber := Fiber (current_fiber m)\<rparr>) m))"
    "keeps ring_size (modify (\<lambda>m. um_op_transient_remove m a))" for a
    by (rule keeps_machine(1); simp add: t)+
  show "um_async_op_await sw i m = Some (r, m') \<Longrightarrow> ring_size m' = ring_size m" for m r m'
    unfolding um_async_op_await_def bind_eq_Some_conv
    by (auto split: if_splits elim!: keepsD [rotated] intro!: keeps_intros g sw simp del: modify_run)
qed

lemma keeps_handle_cancel [keeps_intros]: "keeps ring_size (um_async_op_cancel i)"
  using keepsD [OF keeps_prepared(2)] by (fastforce simp: um_async_op_cancel_def bind_eq_Some_conv intro!: keepsI)

section \<open>The calls\<close>

lemma keeps_files:
  assumes "\<And>k. keeps ring_size (sw k)"
  shows "keeps ring_size (um_sleep sw d)" "keeps ring_size (um_read sw fd buf n ofs fofs)"
    "keeps ring_size (um_write sw fd buf n fofs)" "keeps ring_size (um_close sw fd)"
    "keeps ring_size (um_open sw path fl md)" "keeps ring_size (um_poll sw fd events)"
  unfolding um_sleep_def um_read_def um_write_def um_close_def um_open_def um_poll_def Let_def
  by (intro keeps_intros assms)+

lemma keeps_sockets:
  assumes "\<And>k. keeps ring_size (sw k)"
  shows "keeps ring_size (um_accept sw fd)" "keeps ring_size (um_connect sw fd ad al)"
    "keeps ring_size (um_send sw fd buf n fl)" "keeps ring_size (um_recv sw fd buf n fl)"
    "keeps ring_size (um_setsockopt sw fd lv name v)" "keeps ring_size (um_shutdown sw fd how)"
  unfolding um_accept_def um_connect_def um_send_def um_recv_def um_setsockopt_def um_shutdown_def
  by (intro keeps_intros assms)+

lemma keeps_vectored:
  assumes "\<And>k. keeps ring_size (sw k)"
  shows "keeps ring_size (um_sendv sw base fd bufs)"
proof -
  have "keeps ring_size (case x of (p, vs, _ :: nat) \<Rightarrow> andthen (state_op um_op_acquire) (\<lambda>a.
     andthen (modify (set_iovecs a p)) (\<lambda>_. andthen (modify (um_prep_op a OP_SEND 2 OP_F_FREE_IOVECS)) (\<lambda>_.
     andthen (submit_op a (Prep_sendv fd vs)) (\<lambda>_. andthen (um_yield (sw 0)) (\<lambda>v.
     finish_op sw a True (op_res a) v))))))" for x
    by (cases x) (simp only: prod.case, intro keeps_intros assms)
  then show ?thesis unfolding um_sendv_def by (intro keeps_intros)
qed

lemma keeps_async:
  "keeps ring_size (um_write_async fd buf n fofs)" "keeps ring_size (um_close_async fd)"
  "keeps ring_size (um_shutdown_async fd how)" "keeps ring_size (um_prep_timeout t)"
  "keeps ring_size (AsyncOp_cancel i)"
  unfolding um_write_async_def um_close_async_def um_shutdown_async_def um_prep_timeout_def AsyncOp_cancel_def
    um_async_op_set_def
  by (intro keeps_intros)+

lemma keeps_handle:
  assumes "\<And>k. keeps ring_size (sw k)"
  shows "keeps ring_size (AsyncOp_await sw i)"
  unfolding AsyncOp_await_def by (intro keeps_intros assms)

lemma keeps_timeout:
  assumes "keeps ring_size blk"
  shows "keeps ring_size (um_timeout blk iv obj)"
proof -
  have "keeps ring_size (modify (\<lambda>m. upd_op a (\<lambda>x. x\<lparr>op_ts := ts, op_fiber := Fiber (current_fiber m),
      op_value := obj, op_async_op := Qnil\<rparr>) m))" for a ts
    by (rule keeps_machine(1)) simp
  moreover have "keeps ring_size (um_timeout_complete a)" for a
  proof (rule keepsI)
    have "keeps ring_size (andthen (if b then um_cancel_op_and_discard_cqe a else ret ()) (\<lambda>_.
        andthen (op_release a) (\<lambda>_. ret Qnil)))" for b
      by (intro keeps_intros)
    from keepsD [OF this] show "um_timeout_complete a m = Some (r, m') \<Longrightarrow> ring_size m' = ring_size m" for m r m'
      unfolding um_timeout_complete_def .
  qed
  ultimately show ?thesis unfolding um_timeout_def using assms by (intro keeps_intros)
qed

lemma keeps_select:
  assumes "\<And>k. keeps ring_size (sw k)"
  shows "keeps ring_size (um_select sw rs ws es)"
  unfolding um_select_def um_select_single_def Let_def by (intro keeps_intros assms)

end
