(* ===== verification/UM_Life.thy ===== *)
theory UM_Life
  imports UM_Async_Props
begin

text \<open>
  The life of operations under the event loop. The fibers of a machine, the kernel, the scheduler and the
  garbage collector are an interleaving of steps, each one a call of the functions of \<^verbatim>\<open>ext/um/um.c\<close>: a call
  that blocks or not is started, a fiber is scheduled, a completion is processed, the scheduler transfers
  control, a fiber that runs again ends its call (with the result, or without it when it was woken by
  something else), the handle of a timeout is collected, and submission entries are handed to the kernel.
  A map from addresses to phases records who holds each operation; the machine itself has no such map.
  Multishot operations, and timeouts that are awaited, are in theories of their own.
\<close>

section \<open>Phases of an operation\<close>

text \<open>
  \<open>Flying\<close>: submitted, with a reference of the fiber and one of the completion. \<open>Dropped\<close>: given up by
  its fiber before the completion. \<open>Adrift\<close>: its fiber left while it was flying, but the submission queue
  had no room for the cancellation, so that the fiber's reference stays. \<open>Ready\<close>: completed and on the run
  queue; \<open>Stray\<close>: the same for an operation adrift. \<open>Posted\<close>: on the run queue, which alone holds it.
  \<open>Held\<close>: completed, its fiber runs again.

  Of the calls that do not block, \<open>Fired\<close> is submitted and held by its completion alone, \<open>Transient\<close> is the
  same on the transient list, where the garbage collector finds its buffer, \<open>Watched\<close> is also held by a
  handle, and \<open>Kept\<close> is completed and held by its handle.

  \<open>Lost\<close>: it was not submitted, or its fiber left, and nothing will free it; \<open>Marooned\<close>: the same on the transient
  list; \<open>Stranded\<close>: the same, while its handle has not been collected.
\<close>

datatype phase = Flying | Dropped | Adrift | Ready | Stray | Posted | Held |
  Fired | Transient | Watched | Kept | Lost | Marooned | Stranded

definition on_queue :: "phase set" where
  "on_queue = {Ready, Stray, Posted}"

definition on_transient :: "phase set" where
  "on_transient = {Transient, Watched, Marooned, Stranded}"

lemma on_queue_iff [simp]: "c \<in> on_queue \<longleftrightarrow> c = Ready \<or> c = Stray \<or> c = Posted"
  by (auto simp: on_queue_def)

lemma on_transient_iff [simp]: "c \<in> on_transient \<longleftrightarrow> c = Transient \<or> c = Watched \<or> c = Marooned \<or> c = Stranded"
  by (auto simp: on_transient_def)

type_synonym life = "um \<times> (addr \<Rightarrow> phase option)"

definition in_phase :: "phase set \<Rightarrow> (addr \<Rightarrow> phase option) \<Rightarrow> addr set" where
  "in_phase C ph = {a. \<exists>c \<in> C. ph a = Some c}"

abbreviation AT :: u32 where
  "AT \<equiv> OP_F_ASYNC OR OP_F_TRANSIENT"

definition plain_flags :: "u32 \<Rightarrow> bool" where
  "plain_flags f \<longleftrightarrow> \<not> has_flag f OP_F_MULTISHOT \<and> \<not> has_flag f OP_F_TRANSIENT \<and>
     \<not> has_flag f OP_F_ASYNC \<and> \<not> has_flag f OP_F_FREE_IOVECS \<and> \<not> has_flag f OP_F_SKIP"

fun phase_ok :: "phase \<Rightarrow> u32 \<Rightarrow> u32 \<Rightarrow> bool" where
  "phase_ok Flying f n \<longleftrightarrow> f = 0 \<and> n = 2"
| "phase_ok Dropped f n \<longleftrightarrow> f = OP_F_CANCELED \<and> n = 1"
| "phase_ok Adrift f n \<longleftrightarrow> f = 0 \<and> n = 2"
| "phase_ok Ready f n \<longleftrightarrow> plain_flags f \<and> has_flag f OP_F_CQE_DONE \<and> n = 2"
| "phase_ok Stray f n \<longleftrightarrow> plain_flags f \<and> has_flag f OP_F_CQE_DONE \<and> n = 2"
| "phase_ok Posted f n \<longleftrightarrow> plain_flags f \<and> n = 1"
| "phase_ok Held f n \<longleftrightarrow> plain_flags f \<and> has_flag f OP_F_CQE_DONE \<and> n = 1"
| "phase_ok Fired f n \<longleftrightarrow> f = OP_F_ASYNC \<and> n = 1"
| "phase_ok Transient f n \<longleftrightarrow> f = AT \<and> n = 1"
| "phase_ok Watched f n \<longleftrightarrow> f = AT \<and> n = 2"
| "phase_ok Kept f n \<longleftrightarrow> \<not> has_flag f OP_F_MULTISHOT \<and> \<not> has_flag f OP_F_FREE_IOVECS \<and>
     has_flag f OP_F_CQE_DONE \<and> n = 1"
| "phase_ok Lost f n \<longleftrightarrow> True"
| "phase_ok Marooned f n \<longleftrightarrow> f = AT \<and> n = 1"
| "phase_ok Stranded f n \<longleftrightarrow> f = AT \<and> n = 2"

text \<open>
  The calls, with the references and flags they give their operation: \<open>Blocking\<close> ones, those nobody
  waits for (\<open>um_close_async\<close>, \<open>um_shutdown_async\<close>), those with a buffer to keep (\<open>um_write_async\<close>), and those
  with a handle (\<open>um_prep_timeout\<close>).
\<close>

datatype call = Blocking | Forgotten | Buffered | Handle

fun call_refs :: "call \<Rightarrow> u32" where
  "call_refs Blocking = 2"
| "call_refs Forgotten = 1"
| "call_refs Buffered = 1"
| "call_refs Handle = 2"

fun call_flags :: "call \<Rightarrow> u32" where
  "call_flags Blocking = 0"
| "call_flags Forgotten = OP_F_ASYNC"
| "call_flags _ = AT"

text \<open>The phase after a call has tried to submit its operation (\<open>full\<close>: the submission queue had no entry).\<close>

fun started :: "bool \<Rightarrow> call \<Rightarrow> phase" where
  "started False Blocking = Flying"
| "started False Forgotten = Fired"
| "started False Buffered = Transient"
| "started False Handle = Watched"
| "started True Blocking = Lost"
| "started True Forgotten = Lost"
| "started True Buffered = Marooned"
| "started True Handle = Stranded"

text \<open>The phase after the completion of an operation, after the scheduler took it off the run queue,
  after its fiber ended the call (\<open>full\<close>: no entry for the cancellation), and after its handle was collected.\<close>

definition in_flight :: "phase set" where
  "in_flight = {Flying, Adrift, Dropped, Fired, Transient, Watched}"

lemma in_flight_iff [simp]:
  "c \<in> in_flight \<longleftrightarrow> c = Flying \<or> c = Adrift \<or> c = Dropped \<or> c = Fired \<or> c = Transient \<or> c = Watched"
  by (auto simp: in_flight_def)

fun completed :: "phase \<Rightarrow> phase option" where
  "completed Flying = Some Ready"
| "completed Adrift = Some Stray"
| "completed Watched = Some Kept"
| "completed _ = None"

fun switched :: "phase \<Rightarrow> phase option" where
  "switched Ready = Some Held"
| "switched Stray = Some Lost"
| "switched _ = None"

fun finished :: "bool \<Rightarrow> phase \<Rightarrow> phase option" where
  "finished full Flying = Some (if full then Adrift else Dropped)"
| "finished full Ready = Some Posted"
| "finished full _ = None"

fun collected :: "phase \<Rightarrow> phase option" where
  "collected Watched = Some Transient"
| "collected Stranded = Some Marooned"
| "collected _ = None"

text \<open>What a call stores in its operation between preparing and submitting it: neither links nor flags nor
  references.\<close>

definition payload :: "(um_op \<Rightarrow> um_op) \<Rightarrow> bool" where
  "payload g \<longleftrightarrow> (\<forall>x. op_next (g x) = op_next x \<and> op_prev (g x) = op_prev x \<and>
     op_flags (g x) = op_flags x \<and> op_ref_count (g x) = op_ref_count x)"

inductive life_step :: "life \<Rightarrow> life \<Rightarrow> bool" where
  start: "acquire_prepared k (call_refs c) (call_flags c) m = Some (Inr a, m1) \<Longrightarrow> payload g \<Longrightarrow>
    submit_op a p (upd_heap h (upd_op a g m1)) = Some (r, m') \<Longrightarrow>
    life_step (m, ph) (m', ph(a \<mapsto> started (isl r) c))"
| post: "um_op_acquire m = (a, m1) \<Longrightarrow> life_step (m, ph) (um_schedule f v m, ph(a \<mapsto> Posted))"
| complete: "ph a = Some c \<Longrightarrow> c \<in> in_flight \<Longrightarrow> cqe_op e = Some a \<Longrightarrow> um_process_cqe m e = Some m' \<Longrightarrow>
    life_step (m, ph) (m', ph(a := completed c))"
| switch: "runqueue_head m = Some a \<Longrightarrow> ph a = Some c \<Longrightarrow> um_switch [] m = Some (Inr (Transfer f v), m') \<Longrightarrow>
    life_step (m, ph) (m'\<lparr>current_fiber := g\<rparr>, ph(a := switched c))"
| finish: "ph a = Some c \<Longrightarrow> c \<in> {Flying, Ready, Held} \<Longrightarrow>
    finish_op sw a False (op_res a) v m = Some (r, m') \<Longrightarrow>
    life_step (m, ph) (m', ph(a := finished (sqe_slots m = 0) c))"
| collect: "ph a = Some c \<Longrightarrow> c \<in> {Watched, Kept, Stranded} \<Longrightarrow> async_op_op (async_of m i) = Some a \<Longrightarrow>
    AsyncOp_free i m = Some m' \<Longrightarrow> life_step (m, ph) (m', ph(a := collected c))"
| flush: "life_step (m, ph) (submitted n m, ph)"

text \<open>It begins when the machine has been set up, on a host whose kernel and threads do what \<open>init\<close>, \<open>br\<close> and \<open>pt\<close> say.\<close>

inductive life_reach :: "life \<Rightarrow> bool" where
  init: "um_setup init br pt sz sqpoll sidecar um_zero = Some (Inr (), m) \<Longrightarrow> life_reach (m, Map.empty)"
| step: "life_reach s \<Longrightarrow> life_step s t \<Longrightarrow> life_reach t"

section \<open>The invariant\<close>

definition life_rel :: "um \<Rightarrow> (addr \<Rightarrow> phase option) \<Rightarrow> addr list \<Rightarrow> addr list \<Rightarrow> addr list \<Rightarrow> bool" where
  "life_rel m ph q fl ts \<longleftrightarrow>
     op_lists m q fl ts \<and> \<not> test_mode m \<and> set q = in_phase on_queue ph \<and> set ts = in_phase on_transient ph \<and>
     (\<forall>a. ph a \<noteq> None \<longleftrightarrow> a < op_fresh m \<and> a \<notin> set fl) \<and>
     (\<forall>a c. ph a = Some c \<longrightarrow> phase_ok c (op_flags (ops m a)) (op_ref_count (ops m a)))"

text \<open>A step changes the phase of one operation.\<close>

lemma life_upd:
  assumes l: "life_rel m ph q fl ts" and l': "op_lists m' q' fl' ts'" "\<not> test_mode m'"
    and q: "\<And>x. x \<noteq> a \<Longrightarrow> (x \<in> set q' \<longleftrightarrow> x \<in> set q) \<and> (x \<in> set ts' \<longleftrightarrow> x \<in> set ts)"
    and dom: "\<And>x. x \<noteq> a \<Longrightarrow> x < op_fresh m' \<and> x \<notin> set fl' \<longleftrightarrow> x < op_fresh m \<and> x \<notin> set fl"
    and frame: "\<And>x. x \<noteq> a \<Longrightarrow> op_flags (ops m' x) = op_flags (ops m x) \<and>
      op_ref_count (ops m' x) = op_ref_count (ops m x)"
    and new: "case p of None \<Rightarrow> a \<in> set fl'
      | Some c \<Rightarrow> a < op_fresh m' \<and> a \<notin> set fl' \<and> (a \<in> set q' \<longleftrightarrow> c \<in> on_queue) \<and>
          (a \<in> set ts' \<longleftrightarrow> c \<in> on_transient) \<and> phase_ok c (op_flags (ops m' a)) (op_ref_count (ops m' a))"
  shows "life_rel m' (ph(a := p)) q' fl' ts'"
proof -
  have disj: "x \<in> set fl' \<Longrightarrow> x \<notin> set q' \<and> x \<notin> set ts'" for x using l'(1) by (auto simp: op_lists_def)
  have "(x \<in> set q' \<longleftrightarrow> x \<in> in_phase on_queue (ph(a := p))) \<and>
      (x \<in> set ts' \<longleftrightarrow> x \<in> in_phase on_transient (ph(a := p)))" for x
  proof (cases "x = a")
    case True
    then show ?thesis using new disj by (auto simp: in_phase_def split: option.splits)
  next
    case False
    then show ?thesis using q [OF False] l by (auto simp: in_phase_def life_rel_def)
  qed
  moreover have "(ph(a := p)) x \<noteq> None \<longleftrightarrow> x < op_fresh m' \<and> x \<notin> set fl'" for x
  proof (cases "x = a")
    case True
    then show ?thesis using new by (auto split: option.splits)
  next
    case False
    then show ?thesis using dom [OF False] l by (simp add: life_rel_def)
  qed
  moreover have "phase_ok c (op_flags (ops m' x)) (op_ref_count (ops m' x))" if "(ph(a := p)) x = Some c" for x c
  proof (cases "x = a")
    case True
    then show ?thesis using new that by simp
  next
    case False
    then show ?thesis using frame [OF False] l that by (simp add: life_rel_def)
  qed
  ultimately show ?thesis using l' by (auto simp: life_rel_def)
qed

lemma life_relD:
  assumes "life_rel m ph q fl ts"
  shows "op_lists m q fl ts" "\<not> test_mode m" "a \<in> set q \<longleftrightarrow> (\<exists>c \<in> on_queue. ph a = Some c)"
    "a \<in> set ts \<longleftrightarrow> (\<exists>c \<in> on_transient. ph a = Some c)"
    "ph a = Some c \<Longrightarrow> a < op_fresh m \<and> a \<notin> set fl"
    "ph a = Some c \<Longrightarrow> phase_ok c (op_flags (ops m a)) (op_ref_count (ops m a))"
  using assms by (auto simp: life_rel_def in_phase_def)

lemma life_detached:
  "life_rel m ph q fl ts \<Longrightarrow> ph a = Some c \<Longrightarrow> c \<notin> on_queue \<Longrightarrow> c \<notin> on_transient \<Longrightarrow> detached m q fl ts a"
  using life_relD [of m ph q fl ts] by (auto simp: detached_def)

section \<open>Acquiring an operation\<close>

text \<open>An operation acquired is the only one that leaves the pool.\<close>

lemma acquire_partition:
  assumes l: "op_lists m q fl ts"
  obtains a m' fl' where "um_op_acquire m = (a, m')" "op_lists m' q fl' ts"
    "a \<notin> set (q @ fl' @ ts)" "a < op_fresh m'" "a < op_fresh m \<Longrightarrow> a \<in> set fl"
    "\<And>x. x \<noteq> a \<Longrightarrow> x < op_fresh m' \<and> x \<notin> set fl' \<longleftrightarrow> x < op_fresh m \<and> x \<notin> set fl"
    "\<And>x. op_flags (ops m' x) = op_flags (ops m x)" "\<And>x. op_ref_count (ops m' x) = op_ref_count (ops m x)"
proof -
  obtain a m' fl' where m': "um_op_acquire m = (a, m')" "op_lists m' q fl' ts"
    "a \<notin> set (q @ fl' @ ts)" "a < op_fresh m'" "op_fresh m \<le> op_fresh m'"
    "if fl = [] then op_fresh m \<le> a else a = hd fl \<and> fl' = tl fl"
    using acquire_lists [OF l] by blast
  have al: "um_op_alloc m = (a, m')" using m'(1) by (simp add: um_op_acquire_def)
  have rel: "fl_rel m fl (op_fresh m)" and rel': "fl_rel m' fl' (op_fresh m')"
    using l m'(2) by (simp_all add: fl_rel_def op_lists_def)
  have dom: "x < op_fresh m' \<and> x \<notin> set fl' \<longleftrightarrow> x < op_fresh m \<and> x \<notin> set fl" if x: "x \<noteq> a" for x
  proof (cases fl)
    case Nil
    then obtain n' where "a = op_fresh m" "a < n'" "fl_rel m' [Suc a..<n'] n'"
      using op_pool.alloc_Nil [of m "op_fresh m"] rel al by auto
    moreover from this have "fl' = [Suc a..<n']" "op_fresh m' = n'"
      using rel' chain_functional by (auto simp: fl_rel_def)
    ultimately show ?thesis using Nil x by auto
  next
    case (Cons b bs)
    have "op_fresh m' = op_fresh m" using al l Cons by (auto simp: um_op_alloc_def op_lists_def)
    then show ?thesis using Cons m'(6) x by auto
  qed
  have "a \<in> set fl" if "a < op_fresh m" using that m'(6) by (cases fl) auto
  moreover have "op_flags (ops m' x) = op_flags (ops m x)" "op_ref_count (ops m' x) = op_ref_count (ops m x)" for x
    using al by (auto simp: um_op_alloc_def Let_def split: option.splits)
  ultimately show ?thesis using m' dom that by blast
qed

lemma acquire_prepared_eq:
  "um_op_acquire m = (a, m1) \<Longrightarrow> acquire_prepared k n f m = Some (Inr a, um_prep_op a k n f m1)"
  by (simp add: acquire_prepared_def state_op_def andthen_def)

lemma acquire_prepared_any:
  assumes a: "um_op_acquire m = (a, m1)" and l: "op_lists m1 q fl ts" "a \<notin> set (q @ fl @ ts)" "a < op_fresh m1"
  shows "acquire_prepared k n f m = Some (Inr a, um_prep_op a k n f m1)"
    "x \<noteq> a \<Longrightarrow> op_flags (ops (um_prep_op a k n f m1) x) = op_flags (ops m1 x)"
    "x \<noteq> a \<Longrightarrow> op_ref_count (ops (um_prep_op a k n f m1) x) = op_ref_count (ops m1 x)"
    "op_flags (ops (um_prep_op a k n f m1) a) = f" "op_ref_count (ops (um_prep_op a k n f m1) a) = n"
    "op_fresh (um_prep_op a k n f m1) = op_fresh m1" "test_mode (um_prep_op a k n f m1) = test_mode m"
    "op_lists (um_prep_op a k n f m1) q fl (if has_flag f OP_F_TRANSIENT then a # ts else ts)"
proof -
  show "acquire_prepared k n f m = Some (Inr a, um_prep_op a k n f m1)"
    by (rule acquire_prepared_eq [OF a])
  let ?m2 = "upd_op a (\<lambda>_. op_zero\<lparr>op_kind := k, op_ref_count := n, op_flags := f\<rparr>) m1"
  have "op_lists (um_op_transient_add ?m2 a) q fl (a # ts)"
    using l by (intro transient_add_lists) (simp_all add: op_lists_other [OF l(2)] op_zero_def)
  then show "op_lists (um_prep_op a k n f m1) q fl (if has_flag f OP_F_TRANSIENT then a # ts else ts)"
    using l by (simp add: um_prep_op_def op_has_def Let_def op_lists_upd_op op_lists_other [OF l(2)])
qed (use acquire_fields(5) [OF a] in \<open>simp_all add: um_prep_op_def op_has_def Let_def transient_add_fields\<close>)

lemma submit_op_frame:
  assumes "submit_op a p m = Some (r, m')"
  shows "ops m' = ops m" "op_lists m' = op_lists m" "op_fresh m' = op_fresh m" "test_mode m' = test_mode m"
proof -
  have "ops m' = ops m \<and> op_lists m' = op_lists m \<and> op_fresh m' = op_fresh m \<and> test_mode m' = test_mode m"
  proof (cases "sqe_slots m = 0")
    case True
    then show ?thesis using submit_op_full [OF True, of a p] assms by auto
  next
    case False
    then show ?thesis using submit_op_run [OF False, of a p] assms by auto
  qed
  then show "ops m' = ops m" "op_lists m' = op_lists m" "op_fresh m' = op_fresh m" "test_mode m' = test_mode m"
    by blast+
qed

section \<open>The steps keep the invariant\<close>

lemma life_start:
  assumes l: "life_rel m ph q fl ts" and a: "acquire_prepared k (call_refs c) (call_flags c) m = Some (Inr a, m1)"
    and g: "payload g" and s: "submit_op a p (upd_heap h (upd_op a g m1)) = Some (r, m')"
  shows "\<exists>fl' ts'. life_rel m' (ph(a \<mapsto> started (isl r) c)) q fl' ts'"
proof -
  obtain b m0 fl' where b: "um_op_acquire m = (b, m0)" "op_lists m0 q fl' ts" "b \<notin> set (q @ fl' @ ts)"
    "b < op_fresh m0" "\<And>x. x \<noteq> b \<Longrightarrow> x < op_fresh m0 \<and> x \<notin> set fl' \<longleftrightarrow> x < op_fresh m \<and> x \<notin> set fl"
    "\<And>x. op_flags (ops m0 x) = op_flags (ops m x)" "\<And>x. op_ref_count (ops m0 x) = op_ref_count (ops m x)"
    using acquire_partition [OF life_relD(1) [OF l]] by metis
  note prep = acquire_prepared_any [OF b(1-4), where k = k and n = "call_refs c" and f = "call_flags c"]
  have ab: "b = a" "m1 = um_prep_op a k (call_refs c) (call_flags c) m0" using a prep(1) by auto
  let ?m2 = "upd_heap h (upd_op a g m1)"
  let ?ts = "if has_flag (call_flags c) OP_F_TRANSIENT then a # ts else ts"
  have l2: "op_lists ?m2 q fl' ?ts" using prep(8) g unfolding ab by (simp add: op_lists_upd_op payload_def split: if_splits)
  have o2: "op_flags (ops ?m2 x) = op_flags (ops m1 x) \<and> op_ref_count (ops ?m2 x) = op_ref_count (ops m1 x)" for x
    using g by (simp add: payload_def)
  have t2: "test_mode ?m2 = test_mode m" "op_fresh ?m2 = op_fresh m0" using prep(6,7) ab by (simp_all add: upd_heap_def)
  note sf = submit_op_frame [OF s]
  have "life_rel m' (ph(a := Some (started (isl r) c))) q fl' ?ts"
  proof (rule life_upd [OF l])
    show "op_lists m' q fl' ?ts" using l2 sf by simp
    show "\<not> test_mode m'" using t2 sf life_relD(2) [OF l] by simp
    show "case Some (started (isl r) c) of None \<Rightarrow> a \<in> set fl' | Some d \<Rightarrow> a < op_fresh m' \<and> a \<notin> set fl' \<and>
        (a \<in> set q \<longleftrightarrow> d \<in> on_queue) \<and> (a \<in> set ?ts \<longleftrightarrow> d \<in> on_transient) \<and>
        phase_ok d (op_flags (ops m' a)) (op_ref_count (ops m' a))"
      using b(3,4) ab prep(4,5) sf(1,3) t2(2) o2 [of a]
      by (cases c; cases "isl r") (simp_all add: um_flag_defs)
  qed (use b ab prep o2 sf t2 in auto)
  then show ?thesis by blast
qed

lemma life_post:
  assumes l: "life_rel m ph q fl ts" and a: "um_op_acquire m = (a, m1)"
  shows "\<exists>q' fl'. life_rel (um_schedule f v m) (ph(a \<mapsto> Posted)) q' fl' ts"
proof -
  obtain fl' where b: "op_lists m1 q fl' ts" "a \<notin> set (q @ fl' @ ts)"
    "a < op_fresh m1" "\<And>x. x \<noteq> a \<Longrightarrow> x < op_fresh m1 \<and> x \<notin> set fl' \<longleftrightarrow> x < op_fresh m \<and> x \<notin> set fl"
    "\<And>x. op_flags (ops m1 x) = op_flags (ops m x)" "\<And>x. op_ref_count (ops m1 x) = op_ref_count (ops m x)"
    using acquire_partition [OF life_relD(1) [OF l]] a by (metis prod.inject)
  let ?op = "op_zero\<lparr>op_kind := OP_SCHEDULE, op_ref_count := 1, op_flags := OP_F_SCHEDULED,
    op_fiber := f, op_value := v, op_async_op := Qnil\<rparr>"
  let ?m = "um_runqueue_push (upd_op a (\<lambda>_. ?op) m1) a"
  have eq: "um_schedule f v m = ?m" using a by (simp add: um_schedule_def)
  have "op_lists ?m (q @ [a]) fl' ts"
    by (rule push_lists) (use b op_lists_other [OF b(2)] in auto)
  then have "life_rel ?m (ph(a := Some Posted)) (q @ [a]) fl' ts"
    by (rule life_upd [OF l])
      (use b life_relD(2) [OF l] acquire_fields(5) [OF a] in
        \<open>auto simp: push_op_fields push_machine_fields plain_flags_def um_flag_defs\<close>)
  then show ?thesis unfolding eq by blast
qed

text \<open>Completions: the operation goes to the run queue, to the free list, or to its handle.\<close>

lemma complete_blocking:
  assumes l: "life_rel m ph q fl ts" and c: "ph a = Some c" "c = Flying \<or> c = Adrift" and e: "cqe_op e = Some a"
  shows "\<exists>m' q'. um_process_cqe m e = Some m' \<and> life_rel m' (ph(a := completed c)) q' fl ts"
proof -
  have d: "detached m q fl ts a" using life_detached [OF l c(1)] c by auto
  have f: "op_flags (ops m a) = 0" "op_ref_count (ops m a) = 2" using life_relD(6) [OF l c(1)] c by auto
  have p: "plain_op m a" "\<not> op_has m a OP_F_CANCELED" "op_ref_count (ops m a) \<noteq> 1"
    using f by (simp_all add: plain_op_def op_has_def)
  obtain m' where m': "um_process_cqe m e = Some m'" "op_lists m' (q @ [a]) fl ts"
    "op_ref_count (ops m' a) = 2" "op_flags (ops m' a) = (OP_F_CQE_SEEN OR OP_F_CQE_DONE) OR OP_F_SCHEDULED"
    "test_mode m' = test_mode m" "op_fresh m' = op_fresh m"
    "\<forall>x. x \<noteq> a \<longrightarrow> op_flags (ops m' x) = op_flags (ops m x) \<and> op_ref_count (ops m' x) = op_ref_count (ops m x)"
    using cqe_schedules_op [OF d p e] f by auto
  have "completed c = Some (if c = Flying then Ready else Stray)" using c by auto
  then have "life_rel m' (ph(a := completed c)) (q @ [a]) fl ts"
    by (intro life_upd [OF l m'(2)])
      (use m' d life_relD(2) [OF l] in \<open>auto simp: detached_def plain_flags_def um_flag_defs\<close>)
  then show ?thesis using m'(1) by auto
qed

lemma complete_freed:
  assumes l: "life_rel m ph q fl ts" and c: "ph a = Some c" "c = Dropped \<or> c = Fired" and e: "cqe_op e = Some a"
  shows "\<exists>m'. um_process_cqe m e = Some m' \<and> life_rel m' (ph(a := completed c)) q (a # fl) ts"
proof -
  have d: "detached m q fl ts a" using life_detached [OF l c(1)] c by auto
  have n: "op_ref_count (ops m a) = 1" using life_relD(6) [OF l c(1)] c by auto
  have "\<exists>m'. um_process_cqe m e = Some m' \<and> op_lists m' q (a # fl) ts \<and> op_fresh m' = op_fresh m \<and>
      test_mode m' = test_mode m \<and>
      (\<forall>x. x \<noteq> a \<longrightarrow> op_flags (ops m' x) = op_flags (ops m x) \<and> op_ref_count (ops m' x) = op_ref_count (ops m x))"
  proof (cases "c = Dropped")
    case True
    then have "op_flags (ops m a) = OP_F_CANCELED" using life_relD(6) [OF l c(1)] by simp
    then have p: "plain_op m a" "op_has m a OP_F_CANCELED" by (simp_all add: plain_op_def op_has_def um_flag_defs)
    show ?thesis using discarded_cqe_run [OF d p n e] by blast
  next
    case False
    then have "op_flags (ops m a) = OP_F_ASYNC" using life_relD(6) [OF l c(1)] c(2) by simp
    then show ?thesis using async_cqe_run [OF d _ n e] by blast
  qed
  then obtain m' where m': "um_process_cqe m e = Some m'" "op_lists m' q (a # fl) ts" "op_fresh m' = op_fresh m"
    "test_mode m' = test_mode m"
    "\<forall>x. x \<noteq> a \<longrightarrow> op_flags (ops m' x) = op_flags (ops m x) \<and> op_ref_count (ops m' x) = op_ref_count (ops m x)" by blast
  have "life_rel m' (ph(a := completed c)) q (a # fl) ts"
    by (rule life_upd [OF l m'(2)]) (use m' c life_relD(2) [OF l] in auto)
  then show ?thesis using m'(1) by blast
qed

lemma complete_transient:
  assumes l: "life_rel m ph q fl ts" and c: "ph a = Some c" "c = Transient \<or> c = Watched" and e: "cqe_op e = Some a"
  shows "\<exists>m' fl'. um_process_cqe m e = Some m' \<and> life_rel m' (ph(a := completed c)) q fl' (remove1 a ts)"
proof -
  have a: "a \<in> set ts" using life_relD(4) [OF l, of a] c by auto
  have f: "op_flags (ops m a) = AT" "op_ref_count (ops m a) = (if c = Transient then 1 else 2)"
    using life_relD(6) [OF l c(1)] c(2) by auto
  have p: "op_has m a OP_F_TRANSIENT" "\<not> op_has m a OP_F_MULTISHOT" "\<not> op_has m a OP_F_FREE_IOVECS"
    "op_ref_count (ops m a) \<noteq> 0"
    using f by (auto simp: op_has_def um_flag_defs)
  obtain m' where m': "um_process_cqe m e = Some m'" "op_fresh m' = op_fresh m" "test_mode m' = test_mode m"
    "\<forall>x. x \<noteq> a \<longrightarrow> op_flags (ops m' x) = op_flags (ops m x) \<and> op_ref_count (ops m' x) = op_ref_count (ops m x)"
    "c = Watched \<Longrightarrow> op_flags (ops m' a) = (AT AND NOT OP_F_TRANSIENT) OR (OP_F_CQE_SEEN OR OP_F_CQE_DONE)"
    "if c = Transient then op_lists m' q (a # fl) (remove1 a ts)
     else op_lists m' q fl (remove1 a ts) \<and> op_ref_count (ops m' a) = 1"
    using transient_cqe_run [OF life_relD(1) [OF l] a p e] f c(2) by auto
  have d: "distinct ts" "a < op_fresh m" "a \<notin> set fl" "a \<notin> set q"
    using life_relD(1) [OF l] a by (auto simp: op_lists_def)
  show ?thesis
  proof (cases "c = Transient")
    case True
    have "life_rel m' (ph(a := completed c)) q (a # fl) (remove1 a ts)"
      by (rule life_upd [OF l]) (use True m' d life_relD(2) [OF l] in auto)
    then show ?thesis using m'(1) by blast
  next
    case False
    then have w: "c = Watched" using c(2) by simp
    have "life_rel m' (ph(a := completed c)) q fl (remove1 a ts)"
      by (rule life_upd [OF l])
        (use w m' d life_relD(2) [OF l] in \<open>auto simp: um_flag_defs\<close>)
    then show ?thesis using m'(1) by blast
  qed
qed

lemma life_complete:
  assumes "life_rel m ph q fl ts" "ph a = Some c" "c \<in> in_flight" "cqe_op e = Some a"
  shows "\<exists>m' q' fl' ts'. um_process_cqe m e = Some m' \<and> life_rel m' (ph(a := completed c)) q' fl' ts'"
proof -
  consider "c = Flying \<or> c = Adrift" | "c = Dropped \<or> c = Fired" | "c = Transient \<or> c = Watched" using assms(3) by auto
  then show ?thesis
    using complete_blocking [OF assms(1,2) _ assms(4)] complete_freed [OF assms(1,2) _ assms(4)]
      complete_transient [OF assms(1,2) _ assms(4)] by cases blast+
qed

text \<open>The head of the run queue is ready, or held by the queue alone.\<close>

lemma life_head:
  assumes l: "life_rel m ph q fl ts" and a: "runqueue_head m = Some a"
  obtains q' c where "q = a # q'" "ph a = Some c" "c \<in> on_queue"
proof -
  have "chain (opnext m) (Some a) q" using life_relD(1) [OF l] a by (simp add: op_lists_def rq_rel_def)
  then obtain q' where q: "q = a # q'" by (cases q) auto
  then have "\<exists>c \<in> on_queue. ph a = Some c" using life_relD(3) [OF l, of a] by simp
  then show ?thesis using q that by auto
qed

lemma op_lists_current_fiber: "op_lists (m\<lparr>current_fiber := g\<rparr>) = op_lists m"
  by (intro ext) (simp add: op_lists_def rq_rel_def opnext_def opprev_def fun_eq_iff cong: chain_cong dlist_cong)

lemma life_current_fiber: "life_rel m ph q fl ts \<Longrightarrow> life_rel (m\<lparr>current_fiber := g\<rparr>) ph q fl ts"
  by (simp add: life_rel_def op_lists_current_fiber)

lemma life_switch:
  assumes l: "life_rel m ph q fl ts" and a: "runqueue_head m = Some a" and c: "ph a = Some c"
  shows "\<exists>m' q' fl'. um_switch [] m = Some (Inr (Transfer (op_fiber (ops m a)) (op_value (ops m a))), m') \<and>
    life_rel m' (ph(a := switched c)) q' fl' ts"
proof -
  obtain q' where q: "q = a # q'" and cc: "c \<in> on_queue" using life_head [OF l a] c by auto
  have f: "plain_flags (op_flags (ops m a))" "op_ref_count (ops m a) = (if c = Posted then 1 else 2)"
    "c \<noteq> Posted \<Longrightarrow> op_has m a OP_F_CQE_DONE"
    using life_relD(6) [OF l c] cc by (auto simp: op_has_def)
  have p: "\<not> op_has m a OP_F_SKIP" "plain_op m a" using f(1) by (simp_all add: plain_flags_def plain_op_def op_has_def)
  have l1: "op_lists m (a # q') fl ts" using life_relD(1) [OF l] q by simp
  obtain m' where m': "um_switch [] m = Some (Inr (Transfer (op_fiber (ops m a)) (op_value (ops m a))), m')"
    "op_ref_count (ops m' a) = op_ref_count (ops m a) - 1"
    "op_lists m' q' (if op_ref_count (ops m a) = 1 then a # fl else fl) ts" "\<forall>x. x \<noteq> a \<longrightarrow> ops m' x = ops m x"
    "test_mode m' = test_mode m" "op_flags (ops m' a) = op_flags (ops m a) AND NOT OP_F_SCHEDULED"
    "op_fresh m' = op_fresh m"
    using switch_transfers_head [OF l1 p(1) life_relD(2) [OF l] p(2)] by blast
  have qa: "(x \<in> set q' \<longleftrightarrow> x \<in> set q) \<and> (x \<in> set ts \<longleftrightarrow> x \<in> set ts)" if "x \<noteq> a" for x using q that by simp
  have na: "a \<notin> set q'" "a < op_fresh m" "a \<notin> set fl" "a \<notin> set ts" using l1 by (auto simp: op_lists_def)
  show ?thesis
  proof (cases "c = Posted")
    case True
    then have "life_rel m' (ph(a := None)) q' (a # fl) ts"
      using f(2) m' na life_relD(2) [OF l] by (intro life_upd [OF l _ _ qa]) simp_all
    then show ?thesis using m'(1) True by auto
  next
    case False
    have "plain_flags (op_flags (ops m' a))" "has_flag (op_flags (ops m' a)) OP_F_CQE_DONE"
      using f False m'(6) by (simp_all add: plain_flags_def op_has_def um_flag_defs)
    moreover have "switched c = Some (if c = Ready then Held else Lost)" using False cc by auto
    ultimately have "life_rel m' (ph(a := switched c)) q' fl ts"
      using False f(2) m' na life_relD(2) [OF l] by (intro life_upd [OF l _ _ qa]) simp_all
    then show ?thesis using m'(1) by auto
  qed
qed

text \<open>Ending a call: an operation not done is cancelled and given up, one that is done is released; in both
  cases the fiber's reference is gone.\<close>

lemma cancel_discard_frame:
  assumes "sqe_slots m \<noteq> 0"
  shows "\<exists>m'. um_cancel_op_and_discard_cqe a m = Some (Inr (), m') \<and> op_lists m' = op_lists m \<and>
    op_fresh m' = op_fresh m \<and> test_mode m' = test_mode m \<and>
    ops m' = (ops m)(a := (ops m a)\<lparr>op_flags := op_flags (ops m a) OR OP_F_CANCELED\<rparr>)"
proof -
  obtain m1 where m1: "um_get_sqe None m = Some (Inr (), m1)" "ops m1 = ops m"
    "\<forall>q fl ts. op_lists m1 q fl ts \<longleftrightarrow> op_lists m q fl ts" "op_fresh m1 = op_fresh m" "test_mode m1 = test_mode m"
    using get_sqe_run(2) [OF assms] by blast
  let ?m2 = "set_flags a OP_F_CANCELED (sqe_skip_flag (prep_sqe (Prep_cancel a) m1))"
  have "um_cancel_op_and_discard_cqe a m = Some (Inr (), ?m2)"
    using m1(1) by (simp add: um_cancel_op_and_discard_cqe_def um_cancel_op_def andthen_step)
  moreover have "op_lists ?m2 = op_lists m" using m1(3) by (intro ext) simp
  moreover have "op_fresh ?m2 = op_fresh m" "test_mode ?m2 = test_mode m"
    using m1 by (simp_all add: sqe_skip_flag_def)
  moreover have "ops ?m2 = (ops m)(a := (ops m a)\<lparr>op_flags := op_flags (ops m a) OR OP_F_CANCELED\<rparr>)"
    using m1(2) by (simp add: set_flags_def)
  ultimately show ?thesis by blast
qed

lemma check_end: "\<exists>r. check v m = Some (r, m)"
  by (cases v) (simp_all add: check_def)

lemma finish_undone:
  assumes "\<not> op_has m a OP_F_CQE_DONE" "op_ref_count (ops m a) = 2"
  shows "sqe_slots m = 0 \<Longrightarrow> \<exists>r. finish_op sw a False result v m = Some (r, m)"
    "sqe_slots m \<noteq> 0 \<Longrightarrow> \<exists>r m'. finish_op sw a False result v m = Some (r, m') \<and> op_lists m' = op_lists m \<and>
      op_fresh m' = op_fresh m \<and> test_mode m' = test_mode m \<and> (\<forall>x. x \<noteq> a \<longrightarrow> ops m' x = ops m x) \<and>
      op_flags (ops m' a) = op_flags (ops m a) OR OP_F_CANCELED \<and> op_ref_count (ops m' a) = 1"
proof -
  show "\<exists>r. finish_op sw a False result v m = Some (r, m)" if "sqe_slots m = 0"
    using assms(1) cancel_discard_run(1) [OF that, of a]
    by (auto simp: finish_op_def um_verify_op_completion_def andthen_def)
next
  assume "sqe_slots m \<noteq> 0"
  from cancel_discard_frame [OF this, of a] obtain m1 where
    m1: "um_cancel_op_and_discard_cqe a m = Some (Inr (), m1)" "op_lists m1 = op_lists m"
      "op_fresh m1 = op_fresh m" "test_mode m1 = test_mode m"
      "ops m1 = (ops m)(a := (ops m a)\<lparr>op_flags := op_flags (ops m a) OR OP_F_CANCELED\<rparr>)" by blast
  let ?m2 = "upd_op a (\<lambda>x. x\<lparr>op_ref_count := op_ref_count x - 1\<rparr>) m1"
  have "um_op_release m1 a = Some ?m2" using assms(2) m1(5) by (intro release_shared) simp
  then have rel: "op_release a m1 = Some (Inr (), ?m2)" by (simp add: op_release_def modify_opt_def)
  have "um_verify_op_completion (\<lambda>k. sw (Suc k)) a False m = Some (Inr False, m1)"
    using assms(1) m1(1) by (simp add: um_verify_op_completion_def andthen_step)
  then have "finish_op sw a False result v m = check v ?m2"
    using rel by (simp add: finish_op_def andthen_def)
  moreover obtain r where "check v ?m2 = Some (r, ?m2)" using check_end by blast
  moreover have "op_lists ?m2 = op_lists m" unfolding m1(2) [symmetric] by (intro ext) (simp add: op_lists_upd_op)
  ultimately show "\<exists>r m'. finish_op sw a False result v m = Some (r, m') \<and> op_lists m' = op_lists m \<and>
      op_fresh m' = op_fresh m \<and> test_mode m' = test_mode m \<and> (\<forall>x. x \<noteq> a \<longrightarrow> ops m' x = ops m x) \<and>
      op_flags (ops m' a) = op_flags (ops m a) OR OP_F_CANCELED \<and> op_ref_count (ops m' a) = 1"
    using m1 assms(2) by (intro exI [of _ r] exI [of _ ?m2]) simp
qed

lemma finish_done:
  assumes "op_has m a OP_F_CQE_DONE" "um_op_release m a = Some m'"
  shows "\<exists>r. finish_op sw a False (op_res a) v m = Some (r, m')"
proof (cases "res (op_result (ops m a)) < 0 \<and> res (op_result (ops m a)) \<noteq> - ETIME")
  case True
  then show ?thesis using assms
    by (auto simp: finish_op_def um_verify_op_completion_def um_raise_on_error_result_def op_release_def
        modify_opt_def andthen_def Let_def)
next
  case False
  then have "um_verify_op_completion (\<lambda>k. sw (Suc k)) a False m = Some (Inr True, m)"
    using assms(1) by (auto simp: um_verify_op_completion_def Let_def)
  then show ?thesis using assms(2)
    by (simp add: finish_op_def op_res_def op_release_def modify_opt_def andthen_def check_def)
qed

lemma life_finish:
  assumes l: "life_rel m ph q fl ts" and c: "ph a = Some c" "c \<in> {Flying, Ready, Held}"
  shows "\<exists>r m' q' fl'. finish_op sw a False (op_res a) v m = Some (r, m') \<and>
    life_rel m' (ph(a := finished (sqe_slots m = 0) c)) q' fl' ts"
proof (cases c)
  case Flying
  have f: "op_flags (ops m a) = 0" "op_ref_count (ops m a) = 2" "\<not> op_has m a OP_F_CQE_DONE"
    using life_relD(6) [OF l c(1)] Flying by (simp_all add: op_has_def)
  have d: "detached m q fl ts a" using life_detached [OF l c(1)] Flying by simp
  show ?thesis
  proof (cases "sqe_slots m = 0")
    case True
    then obtain r where r: "finish_op sw a False (op_res a) v m = Some (r, m)"
      using finish_undone(1) [OF f(3,2)] by blast
    have "life_rel m (ph(a := Some Adrift)) q fl ts"
      by (rule life_upd [OF l]) (use f d life_relD(1,2) [OF l] in \<open>auto simp: detached_def\<close>)
    then show ?thesis using r True Flying by auto
  next
    case False
    obtain r m' where m': "finish_op sw a False (op_res a) v m = Some (r, m')" "op_lists m' = op_lists m"
      "op_fresh m' = op_fresh m" "test_mode m' = test_mode m" "\<forall>x. x \<noteq> a \<longrightarrow> ops m' x = ops m x"
      "op_flags (ops m' a) = op_flags (ops m a) OR OP_F_CANCELED" "op_ref_count (ops m' a) = 1"
      using finish_undone(2) [OF f(3,2) False] by blast
    have "life_rel m' (ph(a := Some Dropped)) q fl ts"
      by (rule life_upd [OF l]) (use m' f d life_relD(1,2) [OF l] in \<open>auto simp: detached_def\<close>)
    then show ?thesis using m'(1) False Flying by auto
  qed
next
  case Ready
  have f: "plain_flags (op_flags (ops m a))" "op_ref_count (ops m a) = 2" "op_has m a OP_F_CQE_DONE"
    using life_relD(6) [OF l c(1)] Ready by (simp_all add: op_has_def)
  let ?m = "upd_op a (\<lambda>x. x\<lparr>op_ref_count := op_ref_count x - 1\<rparr>) m"
  obtain r where r: "finish_op sw a False (op_res a) v m = Some (r, ?m)"
    using finish_done [OF f(3), of ?m sw v] release_shared [of m a] f(2) by auto
  have "life_rel ?m (ph(a := Some Posted)) q fl ts"
    by (rule life_upd [OF l])
      (use f c Ready life_relD(1-4) [OF l] life_relD(5) [OF l c(1)] in \<open>auto simp: op_lists_upd_op\<close>)
  then show ?thesis using r Ready by auto
next
  case Held
  have f: "plain_op m a" "op_ref_count (ops m a) = 1" "op_has m a OP_F_CQE_DONE"
    using life_relD(6) [OF l c(1)] Held by (simp_all add: op_has_def plain_flags_def plain_op_def)
  have d: "detached m q fl ts a" using life_detached [OF l c(1)] Held by simp
  let ?m1 = "upd_op a (\<lambda>x. x\<lparr>op_ref_count := op_ref_count x - 1\<rparr>) m"
  let ?m = "um_op_free ?m1 a"
  have "um_op_release m a = Some ?m" using f by (intro release_last_plain) (simp_all add: plain_op_def)
  then obtain r where r: "finish_op sw a False (op_res a) v m = Some (r, ?m)"
    using finish_done [OF f(3)] by blast
  have "life_rel ?m (ph(a := None)) q (a # fl) ts"
    by (rule life_upd [OF l free_upd_lists [OF d]])
      (use life_relD(2) [OF l] in \<open>auto simp: um_op_free_def\<close>)
  then show ?thesis using r Held by auto
qed (use c in auto)


lemma life_collect:
  assumes l: "life_rel m ph q fl ts" and c: "ph a = Some c" "c \<in> {Watched, Kept, Stranded}"
    and i: "async_op_op (async_of m i) = Some a"
  shows "\<exists>m' fl'. AsyncOp_free i m = Some m' \<and> life_rel m' (ph(a := collected c)) q fl' ts"
proof (cases "c = Kept")
  case False
  then have w: "c = Watched \<or> c = Stranded" using c(2) by auto
  have f: "op_flags (ops m a) = AT" "op_ref_count (ops m a) = 2" using life_relD(6) [OF l c(1)] w by auto
  have a: "a \<in> set ts" "a < op_fresh m" "a \<notin> set fl" "a \<notin> set q"
    using life_relD(4) [OF l, of a] life_relD(5) [OF l c(1)] life_relD(3) [OF l, of a] c(1) w by auto
  let ?m = "upd_op a (\<lambda>x. x\<lparr>op_ref_count := op_ref_count x - 1\<rparr>) m"
  have "AsyncOp_free i m = Some ?m" using i f(2) release_shared [of m a] by (simp add: AsyncOp_free_def)
  moreover have "life_rel ?m (ph(a := collected c)) q fl ts"
    by (rule life_upd [OF l]) (use w f a life_relD(1,2) [OF l] in \<open>auto simp: op_lists_upd_op\<close>)
  ultimately show ?thesis by blast
next
  case Kept: True
  have f: "\<not> op_has m a OP_F_MULTISHOT" "\<not> op_has m a OP_F_FREE_IOVECS" "op_ref_count (ops m a) = 1"
    using life_relD(6) [OF l c(1)] Kept by (simp_all add: op_has_def)
  have d: "detached m q fl ts a" using life_detached [OF l c(1)] Kept by simp
  let ?m = "um_op_free (upd_op a (\<lambda>x. x\<lparr>op_ref_count := op_ref_count x - 1\<rparr>) m) a"
  have "AsyncOp_free i m = Some ?m" using i f release_last_plain [of m a] by (simp add: AsyncOp_free_def)
  moreover have "life_rel ?m (ph(a := collected c)) q (a # fl) ts"
    by (rule life_upd [OF l free_upd_lists [OF d]]) (use Kept life_relD(2) [OF l] in \<open>auto simp: um_op_free_def\<close>)
  ultimately show ?thesis by blast
qed

lemma life_flush: "life_rel m ph q fl ts \<Longrightarrow> life_rel (submitted n m) ph q fl ts"
  by (simp add: life_rel_def submitted_def)

lemma setup_life:
  assumes "um_setup init br pt sz sqpoll sidecar um_zero = Some (Inr (), m)"
  shows "life_rel m Map.empty [] [] []"
proof -
  have "ops m = ops um_zero \<and> op_fresh m = 0 \<and> op_freelist m = None \<and> runqueue_head m = None \<and>
      runqueue_tail m = None \<and> transient_head m = None \<and> metrics m = metrics um_zero \<and> \<not> test_mode m"
    using assms
    by (auto simp: um_setup_def um_memset_def um_zero_def bp_setup_def um_sidecar_setup_def Let_def
        split: option.splits if_splits prod.splits)
  then have "op_lists m = op_lists um_zero" "op_fresh m = 0" "\<not> test_mode m"
    by (auto intro!: op_lists_frame simp: um_zero_def)
  then show ?thesis using op_lists_zero by (simp add: life_rel_def in_phase_def)
qed

end
