(* ===== verification/UM_Life_Props.thy ===== *)
theory UM_Life_Props
  imports UM_Life
begin

text \<open>
  The properties of the life of operations: every operation is accounted for in every interleaving, no step
  that is due faults, and the loop can always go on until what was started has ended.
\<close>

section \<open>The invariant holds in every reachable state\<close>

lemma life_step_inv:
  assumes l: "life_rel m ph q fl ts" and s: "life_step (m, ph) t"
  shows "\<exists>q' fl' ts'. life_rel (fst t) (snd t) q' fl' ts'"
  using s
proof (cases rule: life_step.cases)
  case (start k c a m1 g p h r m')
  then show ?thesis using life_start [OF l start(2-4)] by auto
next
  case (post a m1 f v)
  then show ?thesis using life_post [OF l post(2), of f v] by auto
next
  case (complete a c e m')
  then show ?thesis using life_complete [OF l, of a c e] by auto
next
  case (switch a c f v m' g)
  then show ?thesis using life_switch [OF l switch(2,3)] life_current_fiber by fastforce
next
  case (finish a c sw v r m')
  then show ?thesis using life_finish [OF l, of a c sw v] by auto
next
  case (collect a c i m')
  then show ?thesis using life_collect [OF l collect(2-4)] by auto
next
  case (flush n)
  then show ?thesis using life_flush [OF l] by auto
qed

lemma life_reach_inv: "life_reach s \<Longrightarrow> \<exists>q fl ts. life_rel (fst s) (snd s) q fl ts"
proof (induction rule: life_reach.induct)
  case (init init br pt sz sqpoll sidecar m)
  then show ?case using setup_life by fastforce
next
  case (step s t)
  then obtain q fl ts where "life_rel (fst s) (snd s) q fl ts" by blast
  moreover have "life_step (fst s, snd s) t" using step.hyps(2) by simp
  ultimately show ?case by (rule life_step_inv)
qed

section \<open>The calls that do not block are steps\<close>

lemma submit_step:
  assumes "acquire_prepared k (call_refs c) (call_flags c) m = Some (Inr a, m1)" "payload g"
    and "andthen (submit_op a p) (\<lambda>_. ret v) (upd_heap h (upd_op a g m1)) = Some (r, m')"
  shows "\<exists>d. life_step (m, ph) (m', ph(a \<mapsto> d))"
proof -
  obtain r' where "submit_op a p (upd_heap h (upd_op a g m1)) = Some (r', m')"
    using assms(3) by (auto simp: andthen_def split: option.splits sum.splits)
  then show ?thesis using life_step.start [OF assms(1,2)] by blast
qed

lemma upd_same [simp]: "upd_heap (\<lambda>h. h) m = m" "upd_op a (\<lambda>x. x) m = m"
  by (simp_all add: upd_heap_def upd_op_def)

lemma acquire_total: "\<exists>a m1. acquire_prepared k n f m = Some (Inr a, m1)"
  by (cases "um_op_acquire m") (simp add: acquire_prepared_def state_op_def andthen_def)

lemma forgotten_calls_step:
  assumes "um_close_async fd m = Some (r, m') \<or> um_shutdown_async fd how m = Some (r, m')"
  shows "\<exists>a d. life_step (m, ph) (m', ph(a \<mapsto> d))"
proof -
  have "\<exists>k p. andthen (acquire_prepared k (call_refs Forgotten) (call_flags Forgotten)) (\<lambda>a.
      andthen (submit_op a p) (\<lambda>_. ret (Fixnum fd))) m = Some (r, m')"
    using assms by (auto simp: um_close_async_def um_shutdown_async_def)
  then obtain k p a m1 where a: "acquire_prepared k (call_refs Forgotten) (call_flags Forgotten) m = Some (Inr a, m1)"
    and s: "andthen (submit_op a p) (\<lambda>_. ret (Fixnum fd)) m1 = Some (r, m')"
    using acquire_total [of _ "call_refs Forgotten" "call_flags Forgotten" m] by (metis andthen_step(1))
  have "payload (\<lambda>x. x)" by (simp add: payload_def)
  from submit_step [OF a this, where h = "\<lambda>h. h" and ph = ph and v = "Fixnum fd" and r = r and p = p] s
  show ?thesis by auto
qed

lemma write_async_step:
  assumes "um_write_async fd buf len ofs m = Some (r, m')"
  shows "m' = m \<or> (\<exists>a d. life_step (m, ph) (m', ph(a \<mapsto> d)))"
proof -
  consider n where "write_len buf len m = Some (Inr n, m)" | e where "write_len buf len m = Some (Inl e, m)"
    by (cases "um_get_buffer_bytes_for_writing (rbufs m buf)") (auto simp: write_len_def um_raise_internal_error_def)
  then consider "m' = m" | n where "andthen (acquire_prepared OP_WRITE_ASYNC (call_refs Buffered) (call_flags Buffered)) (\<lambda>a.
      andthen (modify (upd_op a (\<lambda>x. x\<lparr>op_value := Obj buf\<rparr>))) (\<lambda>_.
      andthen (submit_op a (Prep_write fd buf (nbytes n) ofs)) (\<lambda>_. ret (Obj buf)))) m = Some (r, m')"
    using assms by cases (auto simp: um_write_async_def andthen_step split: if_splits)
  then show ?thesis
  proof cases
    case 2
    obtain a m1 where a: "acquire_prepared OP_WRITE_ASYNC (call_refs Buffered) (call_flags Buffered) m = Some (Inr a, m1)"
      using acquire_total by blast
    have "payload (\<lambda>x. x\<lparr>op_value := Obj buf\<rparr>)" by (simp add: payload_def)
    from submit_step [OF a this, where h = "\<lambda>h. h" and ph = ph and v = "Obj buf" and r = r] 2 a show ?thesis by (auto simp: andthen_step(1))
  qed blast
qed

lemma prep_timeout_step:
  assumes "um_prep_timeout t m = Some (r, m')"
  shows "\<exists>a d. life_step (m, ph) (m', ph(a \<mapsto> d))"
proof -
  obtain a m1 where a: "acquire_prepared OP_TIMEOUT (call_refs Handle) (call_flags Handle) m = Some (Inr a, m1)"
    using acquire_total by blast
  let ?i = "async_fresh (heap m1)"
  let ?g = "\<lambda>x. x\<lparr>op_ts := t, op_async_op := Obj ?i\<rparr>"
  let ?h = "\<lambda>h. h\<lparr>async_fresh := ?i + 1, async_ops := (async_ops h)(?i := \<lparr>async_op_op = Some a\<rparr>)\<rparr>"
  have "payload ?g" by (simp add: payload_def)
  moreover have "upd_op a (\<lambda>x. x\<lparr>op_async_op := Obj ?i\<rparr>) (um_async_op_set ?i a (AsyncOp_initialize ?i
      (upd_heap (\<lambda>h. h\<lparr>async_fresh := ?i + 1\<rparr>) (upd_op a (\<lambda>x. x\<lparr>op_ts := t\<rparr>) m1)))) = upd_heap ?h (upd_op a ?g m1)"
    by (simp add: um_async_op_set_def AsyncOp_initialize_def upd_heap_def upd_op_def)
  then have "andthen (submit_op a (Prep_timeout t False)) (\<lambda>_. ret (Obj ?i)) (upd_heap ?h (upd_op a ?g m1)) = Some (r, m')"
    using assms a by (simp add: um_prep_timeout_def AsyncOp_new_def andthen_step(1))
  ultimately show ?thesis using submit_step [OF a, where ph = ph and v = "Obj ?i" and r = r] by blast
qed

section \<open>An example\<close>

text \<open>A run with two steps: on a new machine a fiber is scheduled and a blocking call starts.\<close>

definition demo_setup :: um where
  "demo_setup = snd (the (um_setup (\<lambda>n _. (0, n)) None (\<lambda>_. None) 8 0 False um_zero))"

definition demo_posted :: um where
  "demo_posted = um_schedule Qnil Qnil demo_setup"

definition demo_flying :: um where
  "demo_flying = snd (the (submit_op 1 Prep_nop (um_prep_op 1 OP_FSYNC 2 0 (snd (um_op_acquire demo_posted)))))"

lemma demo_setup_run:
  "um_setup (\<lambda>n _. (0, n)) None (\<lambda>_. None) 8 0 False um_zero = Some (Inr (), demo_setup)"
  "sqe_slots demo_setup = 8" "op_freelist demo_setup = None" "op_fresh demo_setup = 0" "runqueue_tail demo_setup = None"
  by (simp_all add: demo_setup_def um_setup_def um_memset_def um_zero_def bp_setup_def Let_def)

lemma demo_steps:
  "life_step (demo_setup, Map.empty) (demo_posted, [0 \<mapsto> Posted])"
  "life_step (demo_posted, [0 \<mapsto> Posted]) (demo_flying, [0 \<mapsto> Posted, 1 \<mapsto> Flying])"
proof -
  have a0: "um_op_acquire demo_setup = (0, snd (um_op_acquire demo_setup))"
    by (simp add: um_op_acquire_def um_op_alloc_def Let_def demo_setup_run)
  show "life_step (demo_setup, Map.empty) (demo_posted, [0 \<mapsto> Posted])"
    unfolding demo_posted_def by (rule life_step.post [OF a0])
  have a1: "um_op_acquire demo_posted = (1, snd (um_op_acquire demo_posted))"
    "sqe_slots (snd (um_op_acquire demo_posted)) = 8"
    by (simp_all add: demo_posted_def um_schedule_def um_runqueue_push_def um_op_acquire_def um_op_alloc_def
        demo_setup_run Let_def UM_OP_ALLOC_BATCH_SIZE_def)
  let ?m1 = "um_prep_op 1 OP_FSYNC 2 0 (snd (um_op_acquire demo_posted))"
  have "sqe_slots ?m1 \<noteq> 0" using a1(2) by (simp add: um_prep_op_def op_has_def Let_def)
  then have s: "submit_op 1 Prep_nop (upd_heap (\<lambda>h. h) (upd_op 1 (\<lambda>x. x) ?m1)) = Some (Inr (), demo_flying)"
    using submit_op_run [of ?m1 1 Prep_nop] by (auto simp: demo_flying_def)
  have "acquire_prepared OP_FSYNC (call_refs Blocking) (call_flags Blocking) demo_posted = Some (Inr 1, ?m1)"
    using acquire_prepared_eq [OF a1(1), of OP_FSYNC 2 0] by simp
  from life_step.start [OF this _ s]
  show "life_step (demo_posted, [0 \<mapsto> Posted]) (demo_flying, [0 \<mapsto> Posted, 1 \<mapsto> Flying])" by (simp add: payload_def)
qed

lemma demo_reach: "life_reach (demo_flying, [0 \<mapsto> Posted, 1 \<mapsto> Flying])"
  by (rule life_reach.step [OF life_reach.step [OF life_reach.init [OF demo_setup_run(1)] demo_steps(1)] demo_steps(2)])

lemma demo_head: "runqueue_head demo_flying = Some 0"
proof -
  obtain q fl ts where l: "life_rel demo_flying [0 \<mapsto> Posted, 1 \<mapsto> Flying] q fl ts"
    using life_reach_inv [OF demo_reach] by auto
  then have "set q = {0}" by (auto simp: life_rel_def in_phase_def)
  then obtain q' where "q = 0 # q'" by (cases q) auto
  then show ?thesis using life_relD(1) [OF l] by (simp add: op_lists_def rq_rel_def)
qed

section \<open>Every operation is accounted for\<close>





section \<open>Every call can come to its end\<close>

text \<open>How many steps an operation is away from the free list, or from rest.\<close>

fun steps_left :: "phase option \<Rightarrow> nat" where
  "steps_left (Some Flying) = 3"
| "steps_left (Some Adrift) = 2"
| "steps_left (Some Ready) = 2"
| "steps_left (Some Dropped) = 1"
| "steps_left (Some Stray) = 1"
| "steps_left (Some Posted) = 1"
| "steps_left (Some Held) = 1"
| "steps_left (Some Fired) = 1"
| "steps_left (Some Transient) = 1"
| "steps_left (Some Watched) = 1"
| "steps_left _ = 0"

definition work_left :: "(addr \<Rightarrow> phase option) \<Rightarrow> nat" where
  "work_left ph = (\<Sum>a \<in> dom ph. steps_left (ph a))"

lemma work_left_less:
  assumes "finite (dom ph)" "ph a = Some c" "steps_left p < steps_left (Some c)"
  shows "work_left (ph(a := p)) < work_left ph"
proof -
  let ?r = "\<Sum>x \<in> dom ph - {a}. steps_left (ph x)"
  have "(\<Sum>x \<in> dom ph - {a}. steps_left ((ph(a := p)) x)) = ?r" by (rule sum.cong) auto
  then have "work_left (ph(a := p)) \<le> steps_left p + ?r"
    using assms(1) by (cases p) (simp_all add: work_left_def sum.insert_remove)
  moreover have "work_left ph = steps_left (Some c) + ?r"
    using sum.remove [OF assms(1), of a "\<lambda>x. steps_left (ph x)"] assms(2) by (auto simp: work_left_def)
  ultimately show ?thesis using assms(3) by simp
qed

text \<open>At rest: nothing is held any more, but for the results that handles keep and for what was lost.\<close>

definition at_rest :: "phase set" where
  "at_rest = {Kept, Lost, Marooned, Stranded}"

definition settled :: "(addr \<Rightarrow> phase option) \<Rightarrow> bool" where
  "settled ph \<longleftrightarrow> ran ph \<subseteq> at_rest"

text \<open>While an operation is not at rest there is a step that brings one nearer to its end.\<close>

lemma life_descends:
  assumes l: "life_rel m ph q fl ts" and n: "\<not> settled ph"
  shows "\<exists>t. life_step (m, ph) t \<and> work_left (snd t) < work_left ph"
proof -
  obtain a c where a: "ph a = Some c" "c \<notin> at_rest" using n by (auto simp: settled_def ran_def)
  have "dom ph \<subseteq> {..<op_fresh m}" using life_relD(5) [OF l] by auto
  then have fin: "finite (dom ph)" by (rule finite_subset) simp
  consider "c \<in> in_flight" | "c = Held" | "c \<in> on_queue" using a(2) by (cases c) (auto simp: at_rest_def)
  then show ?thesis
  proof cases
    case 1
    let ?e = "\<lparr>cqe_op = Some a, cqe_res = 0, cqe_flags = 0\<rparr>"
    obtain m' where "um_process_cqe m ?e = Some m'" using life_complete [OF l a(1) 1, of ?e] by auto
    then have "life_step (m, ph) (m', ph(a := completed c))"
      using life_step.complete [of ph a c ?e m m'] a(1) 1 by simp
    moreover have "work_left (ph(a := completed c)) < work_left ph" using 1 by (intro work_left_less [OF fin a(1)]) auto
    ultimately show ?thesis by auto
  next
    case 2
    then obtain r m' where "finish_op (\<lambda>_. ret Qnil) a False (op_res a) Qnil m = Some (r, m')"
      using life_finish [OF l a(1), of "\<lambda>_. ret Qnil" Qnil] by auto
    then have "life_step (m, ph) (m', ph(a := finished (sqe_slots m = 0) c))"
      using life_step.finish [of ph a c "\<lambda>_. ret Qnil" Qnil m r m'] a(1) 2 by simp
    moreover have "work_left (ph(a := finished (sqe_slots m = 0) c)) < work_left ph"
      using 2 by (intro work_left_less [OF fin a(1)]) auto
    ultimately show ?thesis by auto
  next
    case 3
    then have "q \<noteq> []" using life_relD(3) [OF l, of a] a(1) by auto
    then have b: "runqueue_head m = Some (hd q)"
      using life_relD(1) [OF l] by (cases q) (simp_all add: op_lists_def rq_rel_def)
    obtain d where d: "ph (hd q) = Some d" "d \<in> on_queue" using life_head [OF l b] by auto
    obtain f v m' where "um_switch [] m = Some (Inr (Transfer f v), m')"
      using life_switch [OF l b d(1)] by auto
    then have "life_step (m, ph) (m'\<lparr>current_fiber := 0\<rparr>, ph(hd q := switched d))"
      using life_step.switch [of m "hd q" ph d f v m' 0] b d(1) by simp
    moreover have "work_left (ph(hd q := switched d)) < work_left ph"
      using d(2) by (intro work_left_less [OF fin d(1)]) auto
    ultimately show ?thesis by auto
  qed
qed

inductive life_steps :: "life \<Rightarrow> life \<Rightarrow> bool" where
  refl: "life_steps s s"
| more: "life_step s t \<Longrightarrow> life_steps t u \<Longrightarrow> life_steps s u"

lemma settled_lists:
  assumes l: "life_rel m ph q fl ts" and s: "settled ph"
  shows "q = []" "set ts = in_phase {Marooned, Stranded} ph" "set fl = {..<op_fresh m} - in_phase at_rest ph"
proof -
  have ph: "ph a = None \<or> (\<exists>c \<in> at_rest. ph a = Some c)" for a using s by (cases "ph a") (auto simp: settled_def ran_def)
  have "a \<notin> set q" for a using life_relD(3) [OF l, of a] ph [of a] by (auto simp: at_rest_def)
  then show "q = []" by (cases q) auto
  have "a \<in> set ts \<longleftrightarrow> a \<in> in_phase {Marooned, Stranded} ph" for a
    using life_relD(4) [OF l, of a] ph [of a] by (auto simp: at_rest_def in_phase_def)
  then show "set ts = in_phase {Marooned, Stranded} ph" by blast
  have "a \<in> set fl \<longleftrightarrow> a < op_fresh m \<and> a \<notin> in_phase at_rest ph" for a
  proof -
    have "a \<in> set fl \<Longrightarrow> a < op_fresh m" using life_relD(1) [OF l] by (simp add: op_lists_def)
    moreover have "ph a \<noteq> None \<longleftrightarrow> a < op_fresh m \<and> a \<notin> set fl" using l by (simp add: life_rel_def)
    ultimately show ?thesis using ph [of a] by (auto simp: in_phase_def)
  qed
  then show "set fl = {..<op_fresh m} - in_phase at_rest ph" by blast
qed



end
