(* ===== verification/UM_Ring_Props.thy ===== *)
theory UM_Ring_Props
  imports UM_Ring UM_Life_Props
begin

text \<open>
  The properties of the submission queue: every entry of the ring is accounted for by the calls and over
  whole runs of the machine, and the entries that a failed wait leaves behind are forgotten.
\<close>

section \<open>Entries are accounted for\<close>

lemma setup_ring:
  "um_setup init br pt sz sqpoll sidecar m0 = Some (Inr (), m) \<Longrightarrow>
   ring_size m = snd (init (if sz > 0 then sz else DEFAULT_SIZE) (prepare_io_uring_params sqpoll))"
  by (auto simp: um_setup_def um_memset_def um_zero_def bp_setup_def um_sidecar_setup_def Let_def ring_size_def
      split: option.splits if_splits prod.splits)

lemma finish_no_wait: "finish_op sw a False c v = finish_op (\<lambda>_. ret Qnil) a False c v"
  by (simp add: finish_op_def um_verify_op_completion_def [abs_def])

lemma life_step_ring: "life_step s t \<Longrightarrow> ring_size (fst t) = ring_size (fst s)"
proof (induction rule: life_step.induct)
  case (start k c m a m1 g p h r m' ph)
  then show ?case
    using keepsD [OF keeps_acquire_prepared, of k "call_refs c" "call_flags c" m] keepsD [OF keeps_prepared(1), of a p]
    by simp
next
  case (post m a m1 ph f v)
  have "ring_view (um_schedule f v m) = ring_view m"
    by (simp add: um_schedule_def Let_def post view_alloc(3) [OF post])
  from ring_size_view [OF this] show ?case by simp
next
  case (complete ph a c e m m')
  then show ?case using ring_size_view [OF view_cqe, of m e m'] by simp
next
  case (switch m a ph c f v m' g)
  then show ?case using keepsD [OF keeps_switch, of "[]" m] by simp
next
  case (finish ph a c sw v m r m')
  have "keeps ring_size (finish_op (\<lambda>_. ret Qnil) a False (op_res a) v)" by (intro keeps_intros)
  then show ?case using finish(3) keepsD unfolding finish_no_wait [of sw] by fastforce
next
  case (collect ph a c m i m')
  then show ?case using ring_size_view [OF view_release, of m a m'] by (simp add: AsyncOp_free_def)
next
  case (flush m ph n)
  then show ?case by simp
qed

lemma life_run_ring: "life_step\<^sup>*\<^sup>* s t \<Longrightarrow> ring_size (fst t) = ring_size (fst s)"
  by (induction rule: rtranclp_induct) (auto simp: life_step_ring)





section \<open>Entries left behind by a failed wait\<close>

text \<open>C17. When the wait that should submit the entries fails (with \<open>EAGAIN\<close> or \<open>EINTR\<close> it does not even raise), they stay
  in the queue but are no longer counted: the next \<open>submit\<close> does nothing and returns 0, and a further wait
  submits nothing, until another entry is filled.\<close>

theorem failed_wait_strands_entries:
  assumes "\<not> sidecar_mode m" "ops_unsubmitted (metrics m) \<noteq> 0" "wait_ret w < 0" "wait_cqe w = None"
  shows "\<exists>m'. um_wait_for_and_process_ready_cqes w m =
      Some (if wait_ret w = - EINTR \<or> wait_ret w = - EAGAIN then Inr () else Inl (SysErr (- wait_ret w)), m') \<and>
    sqes m' = sqes m \<and> sqe_slots m' = sqe_slots m \<and> um_submit r m' = Some (Inr 0, m') \<and>
    um_wait_for_cqe_without_gvl w' m' = (wait_ret w', m')"
  using assms by (auto simp: um_wait_for_and_process_ready_cqes_def um_wait_for_cqe_without_gvl_def um_submit_def
      submitted_def errno_defs Let_def)

definition demo_filled :: um where
  "demo_filled = snd (the (um_get_sqe (Some 0) (um_zero\<lparr>sqe_slots := 2\<rparr>)))"

theorem failed_wait_strands_entries_witness:
  "\<exists>m'. um_wait_for_and_process_ready_cqes (no_cqes\<lparr>wait_ret := - EAGAIN\<rparr>) demo_filled = Some (Inr (), m') \<and>
    length (sqes m') = 1 \<and> um_submit 1 m' = Some (Inr 0, m')"
proof -
  have "\<not> sidecar_mode demo_filled" "ops_unsubmitted (metrics demo_filled) \<noteq> 0" "length (sqes demo_filled) = 1"
    by (simp_all add: demo_filled_def um_get_sqe_def um_zero_def metrics_zero_def)
  then show ?thesis
    using failed_wait_strands_entries [of demo_filled "no_cqes\<lparr>wait_ret := - EAGAIN\<rparr>" 1 no_cqes]
    by (auto simp: no_cqes_def errno_defs)
qed

end
