(* ===== verification/UM_Queue_Sync.thy ===== *)
theory UM_Queue_Sync
  imports UM_Queue_Props
begin

text \<open>
  Fibers that share a queue (\<^verbatim>\<open>ext/um/um_sync.c\<close>): some push values, some take them with \<open>shift\<close>. A fiber that finds
  the queue empty waits on the futex of its state word. What the fibers, the kernel and interruptions do to the
  queue is an interleaving of steps, each a call of the functions of \<open>UM_Sync\<close> up to the next switch; a map says
  where each fiber is. Calls that raise because the submission queue is full, or because submitting fails, are
  not among the steps.
\<close>

section \<open>The steps\<close>

text \<open>
  \<open>Away\<close>: not in \<open>shift\<close>. \<open>Checks\<close>: about to test the state word, at the head of the loop: it has just entered it, or
  its wait has ended. \<open>Filed\<close>: its wait is in the submission queue. \<open>Sleeps\<close>: the kernel has found the state word
  empty and put it to sleep.
\<close>

datatype wait_place = Away | Checks | Filed | Sleeps

definition in_shift :: "(fiber \<Rightarrow> wait_place) \<Rightarrow> fiber set" where
  "in_shift p = {f. p f \<noteq> Away}"

text \<open>A wake submits what is in the submission queue, the waits filed before it first. Since the queue is not empty
  then, these end at once; then one of the fibers asleep, if there is any, is woken.\<close>

definition settled :: "(fiber \<Rightarrow> wait_place) \<Rightarrow> fiber \<Rightarrow> wait_place" where
  "settled p = (\<lambda>f. if p f = Filed then Checks else p f)"

definition wakes :: "(fiber \<Rightarrow> wait_place) \<Rightarrow> (fiber \<Rightarrow> wait_place) \<Rightarrow> bool" where
  "wakes p p' \<longleftrightarrow> (if \<exists>f. p f = Sleeps then \<exists>f. p f = Sleeps \<and> p' = (settled p)(f := Checks) else p' = settled p)"

definition wakes_if :: "bool \<Rightarrow> (fiber \<Rightarrow> wait_place) \<Rightarrow> (fiber \<Rightarrow> wait_place) \<Rightarrow> bool" where
  "wakes_if b p p' \<longleftrightarrow> (if b then wakes p p' else p' = p)"

text \<open>Whether a call files a wake of one fiber on the futex of the queue: seen in the submission queue it leaves when the
  kernel takes no entry (a submission that returns 0).\<close>

definition files_wake :: "(int \<Rightarrow> rvalue comp) \<Rightarrow> nat \<Rightarrow> um \<Rightarrow> bool" where
  "files_wake c q m \<longleftrightarrow>
     (case c 0 m of
        None \<Rightarrow> False
      | Some (_, m') \<Rightarrow> Prep_futex_wake (2 * q + 1) 1 \<in> sqe_op ` set (drop (length (sqes m)) (sqes m')))"

datatype queue_event = Pushed rvalue | Taken rvalue | Quiet

type_synonym sync_state = "um \<times> (fiber \<Rightarrow> wait_place)"

text \<open>
  \<open>enter\<close>: a fiber calls \<open>shift\<close> (there are fewer fibers than its counter can count). \<open>filed\<close>, \<open>sleep\<close>: it waits.
  \<open>take\<close>: it takes a value and leaves. \<open>interrupt\<close>: a fiber in \<open>shift\<close> is resumed with an exception and leaves.
  \<open>other\<close>: whatever does not touch the objects on the heap.
\<close>

inductive sync_step :: "nat \<Rightarrow> sync_state \<Rightarrow> queue_event \<Rightarrow> sync_state \<Rightarrow> bool" for q where
  push: "um_queue_push r q v m = Some (Inr u, m') \<Longrightarrow> wakes_if (files_wake (\<lambda>r. um_queue_push r q v) q m) p p' \<Longrightarrow>
    sync_step q (m, p) (Pushed v) (m', p')"
| enter: "p f = Away \<Longrightarrow> card (in_shift p) + 1 < 2 ^ 32 \<Longrightarrow>
    sync_step q (m, p) Quiet (upd_heap (upd_queue q (\<lambda>x. x\<lparr>queue_waiters := queue_waiters x + 1\<rparr>)) m, p(f := Checks))"
| filed: "p f = Checks \<Longrightarrow> queue_state (queue_of m q) = QUEUE_EMPTY \<Longrightarrow> sync_step q (m, p) Quiet (m, p(f := Filed))"
| sleep: "p f = Filed \<Longrightarrow>
    sync_step q (m, p) Quiet (m, p(f := (if queue_state (queue_of m q) = QUEUE_EMPTY then Sleeps else Checks)))"
| take: "p f = Checks \<Longrightarrow> queue_state (queue_of m q) \<noteq> QUEUE_EMPTY \<Longrightarrow>
    queue_take q QUEUE_SHIFT m = Some (Inr v, m1) \<Longrightarrow> um_queue_remove_complete r q m1 = Some (Inr u, m') \<Longrightarrow>
    wakes_if (files_wake (\<lambda>r. um_queue_remove_complete r q) q m1) (p(f := Away)) p' \<Longrightarrow> sync_step q (m, p) (Taken v) (m', p')"
| interrupt: "p f \<noteq> Away \<Longrightarrow> um_queue_remove_complete r q m = Some (Inr u, m') \<Longrightarrow>
    wakes_if (files_wake (\<lambda>r. um_queue_remove_complete r q) q m) (p(f := Away)) p' \<Longrightarrow> sync_step q (m, p) Quiet (m', p')"
| other: "heap m' = heap m \<Longrightarrow> sync_step q (m, p) Quiet (m', p)"

text \<open>Runs, with what happened, oldest first. They begin with a new queue.\<close>

inductive sync_run :: "nat \<Rightarrow> queue_event list \<Rightarrow> sync_state \<Rightarrow> bool" for q where
  init: "queue_waiters (queue_of m q) = 0 \<Longrightarrow> sync_run q [] (upd_heap (um_queue_init q) m, \<lambda>_. Away)"
| step: "sync_run q es s \<Longrightarrow> sync_step q s e t \<Longrightarrow> sync_run q (es @ [e]) t"

fun pushed :: "queue_event \<Rightarrow> rvalue list" where
  "pushed (Pushed v) = [v]"
| "pushed _ = []"

fun taken :: "queue_event \<Rightarrow> rvalue list" where
  "taken (Taken v) = [v]"
| "taken _ = []"

section \<open>What the calls do to the queue\<close>

text \<open>The queue holds \<open>vs\<close>, whoever waits.\<close>

definition queue_holds :: "um_heap \<Rightarrow> nat \<Rightarrow> rvalue list \<Rightarrow> bool" where
  "queue_holds h q vs \<longleftrightarrow> queue_count (queues h q) = of_nat (length vs) \<and>
     queue_state (queues h q) = (if vs = [] then QUEUE_EMPTY else QUEUE_READY) \<and>
     (\<exists>es fs. queue_list QUEUE_SHIFT h q es \<and> entries_ok h q es fs \<and> entry_values h es = vs)"

lemma queue_states_differ [simp]: "QUEUE_READY \<noteq> QUEUE_EMPTY" "QUEUE_EMPTY \<noteq> QUEUE_READY"
  by (simp_all add: QUEUE_READY_def QUEUE_EMPTY_def)

lemma holds_tail: "queue_holds h q vs \<Longrightarrow> queue_tail (queues h q) = None \<longleftrightarrow> vs = []"
  by (auto simp: queue_holds_def entry_values_def queue_list_tail)

lemma holds_waiters [simp]:
  "queue_holds (upd_queue q (\<lambda>x. x\<lparr>queue_waiters := g x\<rparr>) h) q vs \<longleftrightarrow> queue_holds h q vs"
  by (simp add: queue_holds_def counters_frame)

lemma wake_heap:
  assumes "um_futex_wake_transient r fx n m = Some (y, m')"
  shows "heap m' = heap m"
  using assms
  by (auto simp: um_futex_wake_transient_def um_get_sqe_def um_submit_def um_raise_internal_error_def prep_sqe_def
      submitted_def andthen_def split: if_splits option.splits sum.splits)

lemma wake_entry:
  assumes "um_futex_wake_transient r fx n m = Some (Inr u, m')"
  shows "\<exists>m''. um_futex_wake_transient 0 fx n m = Some (Inr (), m'') \<and>
    sqes m'' = sqes m @ [\<lparr>user_data = None, sqe_op = Prep_futex_wake fx n, sqe_skip_success = False\<rparr>]"
proof -
  have "sqe_slots m \<noteq> 0"
    using assms by (auto simp: um_futex_wake_transient_def um_get_sqe_def um_raise_internal_error_def andthen_def split: if_splits)
  then show ?thesis
    by (auto simp: um_futex_wake_transient_def um_get_sqe_def um_submit_def prep_sqe_def submitted_def andthen_def)
qed

lemma files_wake_push:
  assumes "um_queue_push r q v m = Some (Inr u, m')"
  shows "files_wake (\<lambda>r. um_queue_push r q v) q m \<longleftrightarrow> queue_waiters (queue_of m q) \<noteq> 0"
proof -
  let ?m = "upd_heap (upd_queue q (\<lambda>x. x\<lparr>queue_count := queue_count x + 1, queue_state := QUEUE_READY\<rparr>))
    (upd_heap (\<lambda>h. queue_add_tail q h v) m)"
  have s: "sqes ?m = sqes m" by (simp add: upd_heap_def)
  show ?thesis
  proof (cases "queue_waiters (queue_of m q) = 0")
    case True
    then show ?thesis using s by (simp add: files_wake_def um_queue_push_def um_queue_add_def)
  next
    case False
    then obtain u' m1 where "um_futex_wake_transient r (2 * q + 1) 1 ?m = Some (Inr u', m1)"
      using assms by (auto simp: um_queue_push_def um_queue_add_def andthen_eq_Some)
    from wake_entry [OF this] show ?thesis
      using False s by (auto simp: files_wake_def um_queue_push_def um_queue_add_def andthen_def)
  qed
qed

lemma files_wake_complete:
  assumes "um_queue_remove_complete r q m = Some (Inr u, m')"
  shows "files_wake (\<lambda>r. um_queue_remove_complete r q) q m \<longleftrightarrow>
    queue_waiters (queue_of m q) - 1 \<noteq> 0 \<and> queue_tail (queue_of m q) \<noteq> None"
proof -
  let ?m = "upd_heap (upd_queue q (\<lambda>x. x\<lparr>queue_waiters := queue_waiters x - 1\<rparr>)) m"
  have s: "sqes ?m = sqes m" "sqes (upd_heap g ?m) = sqes m" for g by (simp_all add: upd_heap_def)
  show ?thesis
  proof (cases "queue_waiters (queue_of m q) - 1 \<noteq> 0 \<and> queue_tail (queue_of m q) \<noteq> None")
    case True
    then obtain u' m1 where "um_futex_wake_transient r (2 * q + 1) 1 ?m = Some (Inr u', m1)"
      using assms by (auto simp: um_queue_remove_complete_def andthen_eq_Some)
    from wake_entry [OF this] show ?thesis
      using True s by (auto simp: files_wake_def um_queue_remove_complete_def andthen_def)
  next
    case False
    then show ?thesis using s by (auto simp: files_wake_def um_queue_remove_complete_def)
  qed
qed

lemma push_holds:
  assumes "queue_holds (heap m) q vs" "um_queue_push r q v m = Some (Inr u, m')"
  shows "queue_holds (heap m') q (vs @ [v])" "queue_waiters (queue_of m' q) = queue_waiters (queue_of m q)"
    "files_wake (\<lambda>r. um_queue_push r q v) q m \<longleftrightarrow> queue_waiters (queue_of m q) \<noteq> 0"
proof -
  obtain es fs where l: "queue_list QUEUE_SHIFT (heap m) q es" "entries_ok (heap m) q es fs" "entry_values (heap m) es = vs"
    using assms by (auto simp: queue_holds_def)
  let ?f = "\<lambda>x. x\<lparr>queue_count := queue_count x + 1, queue_state := QUEUE_READY\<rparr>"
  let ?h = "queue_add_tail q (heap m) v"
  have h: "heap m' = upd_queue q ?f ?h"
    using assms(2) by (auto simp: um_queue_push_def um_queue_add_def andthen_eq_Some dest!: wake_heap split: if_splits)
  have "\<exists>es' fs'. queue_list QUEUE_SHIFT ?h q es' \<and> entries_ok ?h q es' fs' \<and> entry_values ?h es' = vs @ [v]"
    using add_tail_entry [OF l(1,2), of v] l(3) by blast
  then show "queue_holds (heap m') q (vs @ [v])"
    using assms(1) unfolding h by (simp add: queue_holds_def counters_frame add.commute)
  show "queue_waiters (queue_of m' q) = queue_waiters (queue_of m q)" by (simp add: h)
  show "files_wake (\<lambda>r. um_queue_push r q v) q m \<longleftrightarrow> queue_waiters (queue_of m q) \<noteq> 0"
    by (rule files_wake_push [OF assms(2)])
qed

text \<open>When its last value has just been taken the state word still says that the queue is ready.\<close>

definition queue_near :: "um_heap \<Rightarrow> nat \<Rightarrow> rvalue list \<Rightarrow> bool" where
  "queue_near h q vs \<longleftrightarrow> queue_count (queues h q) = of_nat (length vs) \<and>
     (vs \<noteq> [] \<longrightarrow> queue_state (queues h q) = QUEUE_READY) \<and>
     (\<exists>es fs. queue_list QUEUE_SHIFT h q es \<and> entries_ok h q es fs \<and> entry_values h es = vs)"

lemma near_tail: "queue_near h q vs \<Longrightarrow> queue_tail (queues h q) = None \<longleftrightarrow> vs = []"
  by (auto simp: queue_near_def entry_values_def queue_list_tail)

lemma holds_near: "queue_holds h q vs \<Longrightarrow> queue_near h q vs"
  by (simp add: queue_holds_def queue_near_def)

lemma take_holds:
  assumes h: "queue_holds (heap m) q vs" and vs: "vs \<noteq> []"
  shows "\<exists>h'. queue_take q QUEUE_SHIFT m = Some (Inr (hd vs), m\<lparr>heap := h'\<rparr>) \<and> queue_near h' q (tl vs) \<and>
    queue_waiters (queues h' q) = queue_waiters (queue_of m q)"
proof -
  let ?count = "upd_queue q (\<lambda>x. x\<lparr>queue_count := queue_count x - 1\<rparr>)"
  obtain es fs where l: "queue_list QUEUE_SHIFT (heap m) q es" "entries_ok (heap m) q es fs" "entry_values (heap m) es = vs"
    using h by (auto simp: queue_holds_def)
  then have l0: "queue_list QUEUE_SHIFT (?count (heap m)) q es" "entries_ok (?count (heap m)) q es fs"
    "entry_values (?count (heap m)) es = vs" by (simp_all add: counters_frame)
  have "es \<noteq> []" using l(3) vs by (auto simp: entry_values_def)
  then obtain h' es' fs' where rm: "queue_remove_head q (?count (heap m)) = Some (hd vs, h')"
    and l': "queue_list QUEUE_SHIFT h' q es'" "entries_ok h' q es' fs'" "entry_values h' es' = tl vs"
    using remove_entry [OF l0(1,2)] l0(3) by auto
  have k: "queue_waiters (queues h' q) = queue_waiters (queue_of m q)" "queue_count (queues h' q) = queue_count (queue_of m q) - 1"
    "queue_state (queues h' q) = queue_state (queue_of m q)"
    using remove_counters [where opn = QUEUE_SHIFT and h = "?count (heap m)" and v = "hd vs" and h' = h'] rm by simp_all
  have "(of_nat (length (tl vs)) :: u32) = of_nat (length vs) - 1" using vs by (cases vs) simp_all
  then have "queue_near h' q (tl vs)" using l' k h vs unfolding queue_near_def queue_holds_def by auto
  then show ?thesis using rm k(1) by (intro exI [of _ h']) (simp add: queue_take_def)
qed

lemma complete_holds:
  assumes h: "queue_near (heap m) q vs" and c: "um_queue_remove_complete r q m = Some (Inr u, m')"
  shows "queue_holds (heap m') q vs" "queue_waiters (queue_of m' q) = queue_waiters (queue_of m q) - 1"
    "files_wake (\<lambda>r. um_queue_remove_complete r q) q m \<longleftrightarrow> queue_waiters (queue_of m' q) \<noteq> 0 \<and> vs \<noteq> []"
proof -
  let ?leave = "upd_queue q (\<lambda>x. x\<lparr>queue_waiters := queue_waiters x - 1\<rparr>)"
  let ?empty = "upd_queue q (\<lambda>x. x\<lparr>queue_state := QUEUE_EMPTY\<rparr>)"
  have t: "queue_tail (queue_of m q) = None \<longleftrightarrow> vs = []" using h by (rule near_tail)
  have m': "heap m' = (if vs = [] then ?empty (?leave (heap m)) else ?leave (heap m))"
    using c t by (auto simp: um_queue_remove_complete_def andthen_eq_Some dest!: wake_heap split: if_splits)
  show "queue_waiters (queue_of m' q) = queue_waiters (queue_of m q) - 1" by (simp add: m')
  then show "files_wake (\<lambda>r. um_queue_remove_complete r q) q m \<longleftrightarrow> queue_waiters (queue_of m' q) \<noteq> 0 \<and> vs \<noteq> []"
    using t files_wake_complete [OF c] by simp
  show "queue_holds (heap m') q vs"
  proof (cases "vs = []")
    case True
    then show ?thesis using h by (auto simp: m' queue_holds_def queue_near_def counters_frame)
  next
    case False
    then show ?thesis using h by (simp add: m' queue_holds_def queue_near_def counters_frame)
  qed
qed

section \<open>The invariant\<close>

text \<open>The queue holds what was pushed and not taken, its counter counts the fibers in \<open>shift\<close>, and when there is a value no
  fiber's wait is still to be looked at by the kernel, and a fiber that sleeps is not alone: another is about to check.\<close>

definition sync_inv :: "nat \<Rightarrow> rvalue list \<Rightarrow> sync_state \<Rightarrow> bool" where
  "sync_inv q vs s \<longleftrightarrow> (case s of (m, p) \<Rightarrow> queue_holds (heap m) q vs \<and> finite (in_shift p) \<and> card (in_shift p) < 2 ^ 32 \<and>
     queue_waiters (queue_of m q) = of_nat (card (in_shift p)) \<and>
     (vs \<noteq> [] \<longrightarrow> (\<forall>f. p f \<noteq> Filed) \<and> ((\<exists>f. p f = Sleeps) \<longrightarrow> (\<exists>f. p f = Checks))))"

lemma in_shift_upd: "in_shift (p(f := c)) = (if c = Away then in_shift p - {f} else insert f (in_shift p))"
  by (auto simp: in_shift_def)

lemma in_shift_settled: "in_shift (settled p) = in_shift p"
  by (auto simp: in_shift_def settled_def)

lemma wakes_places:
  assumes "wakes p p'"
  shows "in_shift p' = in_shift p" "p' f \<noteq> Filed" "(\<exists>f. p' f = Sleeps) \<Longrightarrow> \<exists>f. p' f = Checks"
proof -
  have s: "settled p f \<noteq> Filed" "settled p f = Sleeps \<longleftrightarrow> p f = Sleeps" for f by (auto simp: settled_def)
  have "in_shift p' = in_shift p \<and> (\<forall>f. p' f \<noteq> Filed) \<and> ((\<exists>f. p' f = Sleeps) \<longrightarrow> (\<exists>f. p' f = Checks))"
  proof (cases "\<exists>f. p f = Sleeps")
    case True
    then obtain g where g: "p g = Sleeps" "p' = (settled p)(g := Checks)" using assms by (auto simp: wakes_def)
    have "g \<in> in_shift p" by (simp add: in_shift_def g(1))
    then have "in_shift p' = in_shift p" unfolding g(2) in_shift_upd in_shift_settled by (simp add: insert_absorb)
    then show ?thesis using s(1) by (auto simp: g(2))
  next
    case False
    then have "p' = settled p" using assms by (simp add: wakes_def)
    then show ?thesis using False s by (simp add: in_shift_settled)
  qed
  then show "in_shift p' = in_shift p" "p' f \<noteq> Filed" "(\<exists>f. p' f = Sleeps) \<Longrightarrow> \<exists>f. p' f = Checks" by blast+
qed

lemma waiters_zero:
  assumes "finite (in_shift p)" "card (in_shift p) < 2 ^ 32"
  shows "(of_nat (card (in_shift p)) :: u32) = 0 \<longleftrightarrow> (\<forall>f. p f = Away)"
proof -
  have "(of_nat (card (in_shift p)) :: u32) = 0 \<longleftrightarrow> card (in_shift p) = 0"
    using of_nat_u32_eq_iff [of "card (in_shift p)" 0] assms(2) by simp
  then show ?thesis using assms(1) by (auto simp: in_shift_def)
qed

lemma leave_places:
  assumes p: "p f \<noteq> Away" and i: "sync_inv q vs' (m, p)" and w: "queue_waiters (queue_of m' q) = of_nat (card (in_shift p)) - 1"
    and h: "queue_holds (heap m') q vs"
    and k: "wakes_if (queue_waiters (queue_of m' q) \<noteq> 0 \<and> vs \<noteq> []) (p(f := Away)) p'"
  shows "sync_inv q vs (m', p')"
proof -
  let ?p = "p(f := Away)"
  have i: "finite (in_shift p)" "card (in_shift p) < 2 ^ 32" using i by (simp_all add: sync_inv_def)
  have s: "in_shift ?p = in_shift p - {f}" by (simp add: in_shift_upd)
  have c: "card (in_shift p) = Suc (card (in_shift ?p))"
    unfolding s by (rule card.remove [OF i(1)]) (use p in \<open>simp add: in_shift_def\<close>)
  have f: "finite (in_shift ?p)" "card (in_shift ?p) < 2 ^ 32" using i c unfolding s by simp_all
  have w: "queue_waiters (queue_of m' q) = of_nat (card (in_shift ?p))" using w c by simp
  have z: "queue_waiters (queue_of m' q) = 0 \<longleftrightarrow> (\<forall>g. ?p g = Away)" unfolding w by (rule waiters_zero [OF f])
  show ?thesis
  proof (cases "queue_waiters (queue_of m' q) \<noteq> 0 \<and> vs \<noteq> []")
    case True
    then have "wakes ?p p'" using k by (simp add: wakes_if_def)
    note wakes_places [OF this]
    then show ?thesis using h f w by (simp add: sync_inv_def)
  next
    case False
    then have "p' = ?p" using k by (auto simp: wakes_if_def split: if_splits)
    moreover have "?p g = Away" if "vs \<noteq> []" for g using False that z by blast
    ultimately show ?thesis using h f w by (simp add: sync_inv_def)
  qed
qed

lemma sync_inv_step:
  assumes i: "sync_inv q vs (m, p)" and s: "sync_step q (m, p) e t"
  shows "\<exists>vs'. sync_inv q vs' t \<and> vs @ pushed e = taken e @ vs'"
proof -
  have h: "queue_holds (heap m) q vs" "finite (in_shift p)" "card (in_shift p) < 2 ^ 32"
    "queue_waiters (queue_of m q) = of_nat (card (in_shift p))"
    "vs \<noteq> [] \<Longrightarrow> (\<forall>f. p f \<noteq> Filed) \<and> ((\<exists>f. p f = Sleeps) \<longrightarrow> (\<exists>f. p f = Checks))"
    using i by (simp_all add: sync_inv_def)
  have ready: "queue_state (queue_of m q) = QUEUE_EMPTY \<longleftrightarrow> vs = []" using h(1) by (simp add: queue_holds_def)
  from s show ?thesis
  proof (cases rule: sync_step.cases)
    case (push r v u m' p')
    note m' = push_holds [OF h(1) push(3)]
    show ?thesis
    proof (cases "queue_waiters (queue_of m q) = 0")
      case True
      then have "\<forall>f. p f = Away" using waiters_zero [OF h(2,3)] h(4) by simp
      then show ?thesis using push True m' h by (simp add: sync_inv_def wakes_if_def)
    next
      case False
      then have "wakes p p'" using push m'(3) by (simp add: wakes_if_def)
      from wakes_places [OF this] show ?thesis using push m' h by (simp add: sync_inv_def)
    qed
  next
    case (enter f)
    have "in_shift (p(f := Checks)) = insert f (in_shift p)" by (simp add: in_shift_upd)
    moreover have "f \<notin> in_shift p" using enter(3) by (simp add: in_shift_def)
    ultimately have "sync_inv q vs t" using enter h by (auto simp: sync_inv_def)
    then show ?thesis using enter by simp
  next
    case (filed f)
    then have "in_shift (p(f := Filed)) = in_shift p" by (auto simp: in_shift_def)
    then have "sync_inv q vs t" using filed h ready by (auto simp: sync_inv_def)
    then show ?thesis using filed by simp
  next
    case (sleep f)
    then have "vs = []" using h(5) by auto
    have "in_shift (p(f := c)) = in_shift p" if "c \<noteq> Away" for c using sleep that by (auto simp: in_shift_def)
    then have "sync_inv q vs t" using sleep h \<open>vs = []\<close> by (simp add: sync_inv_def)
    then show ?thesis using sleep by simp
  next
    case (take f v m1 r u m' p')
    then have "vs \<noteq> []" using ready by simp
    then obtain h' where h': "v = hd vs" "m1 = m\<lparr>heap := h'\<rparr>" "queue_near h' q (tl vs)"
      "queue_waiters (queues h' q) = queue_waiters (queue_of m q)"
      using take_holds [OF h(1)] take(5) by auto
    have "queue_near (heap m1) q (tl vs)" using h' by simp
    note c = complete_holds [OF this take(6)]
    have "sync_inv q (tl vs) (m', p')"
      by (rule leave_places [OF _ i _ c(1), of f]) (use take(3,7) c(2,3) h(4) h'(2,4) in simp_all)
    then show ?thesis using take(1,2) h'(1) \<open>vs \<noteq> []\<close> by auto
  next
    case (interrupt f r u m' p')
    note c = complete_holds [OF holds_near [OF h(1)] interrupt(4)]
    have "sync_inv q vs (m', p')"
      by (rule leave_places [OF interrupt(3) i _ c(1)]) (use interrupt(5) c(2,3) h(4) in simp_all)
    then show ?thesis using interrupt by auto
  next
    case (other m')
    then show ?thesis using i by (auto simp: sync_inv_def)
  qed
qed

lemma sync_run_inv:
  "sync_run q es s \<Longrightarrow> \<exists>vs. sync_inv q vs s \<and> concat (map pushed es) = concat (map taken es) @ vs"
proof (induction rule: sync_run.induct)
  case (init m)
  have "queue_holds (heap (upd_heap (um_queue_init q) m)) q []"
    using init_ok [OF init, of QUEUE_SHIFT] by (simp add: queue_ok_def queue_holds_def)
  moreover have "queue_waiters (queue_of (upd_heap (um_queue_init q) m) q) = 0" using init by (simp add: um_queue_init_def)
  ultimately show ?case by (simp add: sync_inv_def in_shift_def)
next
  case (step es s e t)
  then obtain vs where i: "sync_inv q vs (fst s, snd s)" "concat (map pushed es) = concat (map taken es) @ vs" by auto
  obtain vs' where "sync_inv q vs' t" "vs @ pushed e = taken e @ vs'"
    using sync_inv_step [OF i(1), of e t] step(2) by auto
  then show ?case using i(2) by auto
qed

text \<open>The steps are those of the call: \<open>shift\<close> of a queue that is ready is \<open>enter\<close> followed by \<open>take\<close>.\<close>

lemma wakes_if_total: "\<exists>p'. wakes_if b p p'"
  by (auto simp: wakes_if_def wakes_def)

lemma shift_ready_steps:
  assumes "um_queue_shift sw r q m = Some (Inr v, m')" "queue_state (queue_of m q) \<noteq> QUEUE_EMPTY"
    and "p f = Away" "card (in_shift p) + 1 < 2 ^ 32"
  shows "\<exists>m1 p'. sync_step q (m, p) Quiet (m1, p(f := Checks)) \<and> sync_step q (m1, p(f := Checks)) (Taken v) (m', p')"
proof -
  let ?m1 = "upd_heap (upd_queue q (\<lambda>x. x\<lparr>queue_waiters := queue_waiters x + 1\<rparr>)) m"
  have s: "queue_state (queue_of ?m1 q) \<noteq> QUEUE_EMPTY" using assms(2) by simp
  then have start: "um_queue_remove_start sw q QUEUE_SHIFT m = queue_take q QUEUE_SHIFT ?m1"
    by (simp add: um_queue_remove_start_def queue_wait_loop.simps [of sw q 0 ?m1] andthen_def)
  obtain m2 u where "queue_take q QUEUE_SHIFT ?m1 = Some (Inr v, m2)" "um_queue_remove_complete r q m2 = Some (Inr u, m')"
    using assms(1) start by (auto simp: um_queue_shift_def rb_ensure_def split: option.splits sum.splits)
  moreover obtain p' where "wakes_if (files_wake (\<lambda>r. um_queue_remove_complete r q) q m2) (p(f := Checks, f := Away)) p'" using wakes_if_total by blast
  ultimately have "sync_step q (?m1, p(f := Checks)) (Taken v) (m', p')"
    using sync_step.take [of "p(f := Checks)" f ?m1 q v m2 r u m' p'] s by simp
  then show ?thesis using sync_step.enter [OF assms(3,4)] by blast
qed

section \<open>The properties\<close>

text \<open>C34. However many fibers push to a queue and shift from it, and whichever of them wait and are interrupted, the
  values come out in the order in which they were pushed, none lost and none twice: what was pushed is what was
  taken followed by what the queue holds, which its count and its state word say.\<close>

theorem queue_delivers_in_order:
  assumes "sync_run q es (m, p)"
  shows "\<exists>vs. concat (map pushed es) = concat (map taken es) @ vs \<and> queue_count (queue_of m q) = of_nat (length vs) \<and>
    queue_state (queue_of m q) = (if vs = [] then QUEUE_EMPTY else QUEUE_READY) \<and>
    (queue_tail (queue_of m q) = None \<longleftrightarrow> vs = [])"
proof -
  obtain vs where i: "sync_inv q vs (m, p)" "concat (map pushed es) = concat (map taken es) @ vs"
    using sync_run_inv [OF assms] by blast
  then have h: "queue_holds (heap m) q vs" by (simp add: sync_inv_def)
  then have "queue_count (queue_of m q) = of_nat (length vs)"
    "queue_state (queue_of m q) = (if vs = [] then QUEUE_EMPTY else QUEUE_READY)" by (simp_all add: queue_holds_def)
  then show ?thesis using i(2) holds_tail [OF h] by (intro exI [of _ vs] conjI)
qed

definition demo_shared :: um where
  "demo_shared = upd_heap (um_queue_init 0) (um_zero\<lparr>sqe_slots := 1\<rparr>)"

text \<open>Two fibers fall asleep in \<open>shift\<close>, and a value is pushed.\<close>

definition demo_events :: "queue_event list" where
  "demo_events = [Quiet, Quiet, Quiet, Quiet, Quiet, Quiet, Pushed Qtrue]"

definition demo_places :: "fiber \<Rightarrow> wait_place" where
  "demo_places = (\<lambda>_. Away)(0 := Checks, 1 := Sleeps)"

lemma demo_run:
  "\<exists>m. sync_run 0 demo_events (m, demo_places) \<and> queue_tail (queue_of m 0) \<noteq> None"
proof -
  let ?enter = "upd_heap (upd_queue 0 (\<lambda>x. x\<lparr>queue_waiters := queue_waiters x + 1\<rparr>))"
  let ?m = "?enter (?enter demo_shared)"
  have r: "sync_run 0 [] (demo_shared, \<lambda>_. Away)"
    unfolding demo_shared_def by (rule sync_run.init) (simp add: um_zero_def heap_zero_def)
  have e: "queue_state (queue_of ?m 0) = QUEUE_EMPTY" by (simp add: demo_shared_def um_queue_init_def)
  note s1 = sync_run.step [OF r sync_step.enter [of _ 0]]
  note s2 = sync_run.step [OF s1 sync_step.enter [of _ 1]]
  note s3 = sync_run.step [OF s2 sync_step.filed [of _ 0]]
  note s4 = sync_run.step [OF s3 sync_step.sleep [of _ 0]]
  note s5 = sync_run.step [OF s4 sync_step.filed [of _ 1]]
  note s6 = sync_run.step [OF s5 sync_step.sleep [of _ 1]]
  have c: "in_shift (\<lambda>_. Away) = {}" by (simp add: in_shift_def)
  have r6: "sync_run 0 [Quiet, Quiet, Quiet, Quiet, Quiet, Quiet] (?m, (\<lambda>_. Away)(0 := Sleeps, 1 := Sleeps))"
    using s6 e by (simp add: in_shift_upd c fun_upd_twist)
  obtain u m' where p: "um_queue_push 1 0 Qtrue ?m = Some (Inr u, m')"
    by (simp add: um_queue_push_def um_queue_add_def demo_shared_def um_queue_init_def andthen_def
        um_futex_wake_transient_def um_get_sqe_def um_submit_def um_zero_def heap_zero_def metrics_zero_def upd_heap_def
        prep_sqe_def queue_add_tail_def um_queue_entry_checkout_def Let_def)
  let ?p = "(\<lambda>_ :: fiber. Away)(0 := Sleeps, 1 := Sleeps)"
  have "settled ?p = ?p" "?p(0 := Checks) = demo_places"
    by (auto simp: settled_def demo_places_def fun_eq_iff)
  then have w: "wakes ?p demo_places"
    unfolding wakes_def by (auto intro!: exI [of _ 0])
  have "queue_waiters (queue_of ?m 0) \<noteq> 0" by (simp add: demo_shared_def um_queue_init_def um_zero_def heap_zero_def)
  then have run: "sync_run 0 demo_events (m', demo_places)"
    using sync_run.step [OF r6 sync_step.push [OF p]] w files_wake_push [OF p] by (simp add: wakes_if_def demo_events_def)
  obtain vs where i: "sync_inv 0 vs (m', demo_places)"
    "concat (map pushed demo_events) = concat (map taken demo_events) @ vs"
    using sync_run_inv [OF run] by blast
  then have "queue_tail (queue_of m' 0) \<noteq> None"
    using holds_tail [of "heap m'" 0 vs] by (auto simp: sync_inv_def demo_events_def)
  then show ?thesis using run by blast
qed

theorem queue_delivers_in_order_witness:
  "\<exists>m. queue_count (queue_of m 0) = 1 \<and> queue_tail (queue_of m 0) \<noteq> None"
proof -
  obtain m where r: "sync_run 0 demo_events (m, demo_places)" using demo_run by blast
  then show ?thesis using queue_delivers_in_order [OF r] by (auto simp: demo_events_def)
qed

text \<open>C35. No wake-up is lost: while the queue holds a value, a fiber asleep in \<open>shift\<close> is not left alone. Another fiber is
  about to check the queue, sees that it is ready, and takes the oldest value without a fault.\<close>

theorem queue_no_lost_wakeup:
  assumes "sync_run q es (m, p)" and "queue_tail (queue_of m q) \<noteq> None" and "p f = Sleeps"
  shows "\<exists>g v m'. p g = Checks \<and> queue_state (queue_of m q) = QUEUE_READY \<and>
    queue_take q QUEUE_SHIFT m = Some (Inr v, m') \<and> concat (map pushed es) ! length (concat (map taken es)) = v"
proof -
  obtain vs where i: "sync_inv q vs (m, p)" "concat (map pushed es) = concat (map taken es) @ vs"
    using sync_run_inv [OF assms(1)] by blast
  then have h: "queue_holds (heap m) q vs" by (simp add: sync_inv_def)
  then have vs: "vs \<noteq> []" using assms(2) holds_tail [OF h] by simp
  then obtain g where "p g = Checks" using i(1) assms(3) by (auto simp: sync_inv_def)
  moreover obtain h' where "queue_take q QUEUE_SHIFT m = Some (Inr (hd vs), m\<lparr>heap := h'\<rparr>)"
    using take_holds [OF h vs] by blast
  moreover have "concat (map pushed es) ! length (concat (map taken es)) = hd vs"
    using i(2) vs by (simp add: nth_append hd_conv_nth)
  moreover have "queue_state (queue_of m q) = QUEUE_READY" using h vs by (simp add: queue_holds_def)
  ultimately show ?thesis by blast
qed

theorem queue_no_lost_wakeup_witness:
  "\<exists>m m'. queue_state (queue_of m 0) = QUEUE_READY \<and> queue_take 0 QUEUE_SHIFT m = Some (Inr Qtrue, m')"
proof -
  obtain m where r: "sync_run 0 demo_events (m, demo_places)"
    and t: "queue_tail (queue_of m 0) \<noteq> None" using demo_run by blast
  have "demo_places 1 = Sleeps" by (simp add: demo_places_def)
  from queue_no_lost_wakeup [OF r t this] show ?thesis by (auto simp: demo_events_def)
qed

end
