(* ===== verification/UM_Object.thy ===== *)
theory UM_Object
  imports UM_Class UM_Io_Class
begin

text \<open>
  The allocators of the extension's classes (\<^verbatim>\<open>um_class.c\<close>, \<^verbatim>\<open>um_mutex_class.c\<close>, \<^verbatim>\<open>um_queue_class.c\<close>,
  \<^verbatim>\<open>um_async_op_class.c\<close>, \<^verbatim>\<open>um_io_class.c\<close>), and what is left of \<^verbatim>\<open>um_class.c\<close> and \<^verbatim>\<open>um_utils.c\<close>: the version of the
  kernel, debug output, the clocks and the raising of an exception. \<open>TypedData_Make_Struct\<close> makes a struct that is
  all zeros, in which a value is \<open>false\<close>. Ruby calls \<open>initialize\<close> later, or never, and the garbage collector may
  call the callbacks of the class in between.
\<close>

section \<open>Allocation\<close>

definition UM_allocate :: "um \<Rightarrow> um" where
  "UM_allocate m = um_memset m"

definition Mutex_allocate :: "nat \<Rightarrow> um \<Rightarrow> um" where
  "Mutex_allocate x = upd_heap (\<lambda>h. h\<lparr>mutexes := (mutexes h)(x := \<lparr>mutex_state = 0, mutex_waiters = 0\<rparr>)\<rparr>)"

definition Queue_allocate :: "nat \<Rightarrow> um_heap \<Rightarrow> um_heap" where
  "Queue_allocate q = upd_queue q (\<lambda>_. \<lparr>queue_self = Qfalse, queue_head = None, queue_tail = None,
     queue_free_head = None, queue_waiters = 0, queue_state = 0, queue_count = 0\<rparr>)"

definition AsyncOp_allocate :: "nat \<Rightarrow> um \<Rightarrow> um" where
  "AsyncOp_allocate i = upd_heap (\<lambda>h. h\<lparr>async_ops := (async_ops h)(i := \<lparr>async_op_op = None\<rparr>)\<rparr>)"

definition IO_allocate :: "nat \<Rightarrow> um \<Rightarrow> um" where
  "IO_allocate i = upd_io i (\<lambda>_. \<lparr>io_self = Qfalse, io_machine = False, io_mode = IO_FD, io_fd = 0, io_target = 0,
     io_working_buffer = None, io_op = None, io_head = None, io_tail = None, io_consumed_bytes = 0,
     io_pending_bytes = 0, io_pos = 0, io_eof = False\<rparr>)"

section \<open>Kernel version, debug output, clocks, exceptions\<close>

text \<open>\<open>version\<close> is \<open>UM_KERNEL_VERSION\<close>, which the build determines.\<close>

definition UM_kernel_version :: "int \<Rightarrow> rvalue" where
  "UM_kernel_version version = Fixnum (to_int32 version)"

text \<open>The line printed and the value returned. \<open>StringValueCStr\<close> rejects a string with a null byte.\<close>

definition UM_debug :: "string \<Rightarrow> um_error + string \<times> rvalue" where
  "UM_debug str = (if CHR 0x00 \<in> set str then Inl (ArgError ''string contains null byte'') else Inr (str @ [CHR 0x0A], Qnil))"

text \<open>\<open>clock\<close> is what \<open>clock_gettime\<close> stores: seconds and nanoseconds, or nothing when it fails.\<close>

definition um_get_time_cpu :: "(int \<times> int) option \<Rightarrow> rat" where
  "um_get_time_cpu clock = (case clock of None \<Rightarrow> - 1 | Some (s, n) \<Rightarrow> um_timestamp_to_double s n)"

definition um_get_time_monotonic :: "(int \<times> int) option \<Rightarrow> rat" where
  "um_get_time_monotonic clock = (case clock of None \<Rightarrow> - 1 | Some (s, n) \<Rightarrow> um_timestamp_to_double s n)"

definition um_raise_exception :: "um_error \<Rightarrow> 'a comp" where
  "um_raise_exception e = raise e"

lemma check_raises: "check v = (case v of Exn e \<Rightarrow> um_raise_exception e | _ \<Rightarrow> ret v)"
  by (cases v) (simp_all add: check_def um_raise_exception_def)

section \<open>Objects that have not been initialized\<close>

text \<open>The callbacks of the collector on a machine, a queue, a handle and a stream that have only been allocated: a machine
  and a queue are marked and freed; so are handles and streams freed, but marking them dereferences the null
  pointer to their machine.\<close>

theorem allocated_objects:
  "UM_mark self pending (UM_allocate m) = Some [self, pending]" "UM_free (UM_allocate m) = Some (UM_allocate m)"
  "\<exists>e. um_get_machine c (UM_allocate m) = Some (Inl (UMError e), UM_allocate m)"
  "Queue_mark q (Queue_allocate q h) = Some [Qfalse]" "Queue_free q (Queue_allocate q h) = Some (Queue_allocate q h)"
  "AsyncOp_mark self (AsyncOp_allocate i m) i = None" "AsyncOp_free i (AsyncOp_allocate i m) = Some (AsyncOp_allocate i m)"
  "IO_mark self (IO_allocate i m) i = None" "\<exists>m'. IO_free i (IO_allocate i m) = Some (Inr (), m')"
  by (simp_all add: UM_mark_def UM_allocate_def um_memset_def um_zero_def um_op_list_mark.simps UM_free_def
      um_teardown_def um_get_machine_def um_raise_internal_error_def Queue_mark_def Queue_allocate_def upd_queue_def
      um_queue_mark_def queue_mark_list.simps Queue_free_def um_queue_free_def free_entries.simps AsyncOp_mark_def
      AsyncOp_allocate_def upd_heap_def AsyncOp_free_def IO_mark_def IO_allocate_def upd_io_def IO_free_def
      io_clear_def drop_segments_def checkin_segments.simps modify_opt_def andthen_def)

end
