(* ===== verification/UM_Init.thy ===== *)
theory UM_Init
  imports UM_Prelude
begin

text \<open>
  What loading the extension registers with Ruby: the classes, the methods with the C functions
  and arities behind them, the symbols, and the integer constants
  (\<^verbatim>\<open>um_ext.c\<close>, \<^verbatim>\<open>um_const.c\<close> and the \<^verbatim>\<open>Init_\<close> function of each \<^verbatim>\<open>*_class.c\<close>).
  The values of the macros are a parameter, as are the macros the headers define.
\<close>

section \<open>The registry of the Ruby runtime\<close>

text \<open>The C variables that hold classes; the first two are Ruby's own.\<close>

datatype class_var = rb_cObject | rb_eStandardError | cUM | cMutex | cQueue | cAsyncOp | cIO | eUMError | eIORESPError

record class_def =
  class_outer :: "class_var option"
  class_name :: string
  class_super :: class_var
  class_alloc :: "string option"

text \<open>A method of a class is found by whether it is a singleton method, and its name.\<close>

type_synonym method_def = "string \<times> string \<times> int"

record ruby_vm =
  vm_classes :: "class_var \<Rightarrow> class_def option"
  vm_methods :: "class_var \<Rightarrow> bool \<Rightarrow> string \<Rightarrow> (string \<times> int) option"
  vm_consts :: "class_var \<Rightarrow> string \<Rightarrow> int option"
  vm_symbols :: "string \<Rightarrow> string option"
  vm_ids :: "string \<Rightarrow> string option"
  vm_ractor_safe :: bool

definition vm_start :: ruby_vm where
  "vm_start = \<lparr>vm_classes = Map.empty, vm_methods = \<lambda>_ _. Map.empty, vm_consts = \<lambda>_. Map.empty,
     vm_symbols = Map.empty, vm_ids = Map.empty, vm_ractor_safe = False\<rparr>"

text \<open>A class variable is null until its class is defined; Ruby cannot use it before that.\<close>

definition class_known :: "class_var \<Rightarrow> ruby_vm \<Rightarrow> bool" where
  "class_known v vm \<longleftrightarrow> v \<in> {rb_cObject, rb_eStandardError} \<or> vm_classes vm v \<noteq> None"

definition rb_define_class :: "class_var \<Rightarrow> class_var option \<Rightarrow> string \<Rightarrow> class_var \<Rightarrow> ruby_vm \<Rightarrow> ruby_vm option" where
  "rb_define_class v outer name super vm =
     (if class_known super vm \<and> (\<forall>w \<in> set_option outer. class_known w vm)
      then Some (vm\<lparr>vm_classes := (vm_classes vm)(v \<mapsto>
        \<lparr>class_outer = outer, class_name = name, class_super = super, class_alloc = None\<rparr>)\<rparr>)
      else None)"

definition rb_define_alloc_func :: "class_var \<Rightarrow> string \<Rightarrow> ruby_vm \<Rightarrow> ruby_vm option" where
  "rb_define_alloc_func v fn vm =
     (case vm_classes vm v of
        None \<Rightarrow> None
      | Some c \<Rightarrow> Some (vm\<lparr>vm_classes := (vm_classes vm)(v \<mapsto> c\<lparr>class_alloc := Some fn\<rparr>)\<rparr>))"

text \<open>Arity -1 stands for a C array of arguments; 15 is the most Ruby accepts.\<close>

definition rb_define_method :: "bool \<Rightarrow> class_var \<Rightarrow> method_def \<Rightarrow> ruby_vm \<Rightarrow> ruby_vm option" where
  "rb_define_method single v d vm =
     (case d of (name, fn, arity) \<Rightarrow>
        if class_known v vm \<and> - 2 \<le> arity \<and> arity \<le> 15
        then Some (vm\<lparr>vm_methods := (vm_methods vm)(v := (vm_methods vm v)(single :=
               (vm_methods vm v single)(name \<mapsto> (fn, arity))))\<rparr>)
        else None)"

fun define_methods :: "bool \<Rightarrow> class_var \<Rightarrow> method_def list \<Rightarrow> ruby_vm \<Rightarrow> ruby_vm option" where
  "define_methods single v [] vm = Some vm"
| "define_methods single v (d # ds) vm = Option.bind (rb_define_method single v d vm) (define_methods single v ds)"

definition define_symbols :: "(string \<times> string) list \<Rightarrow> ruby_vm \<Rightarrow> ruby_vm" where
  "define_symbols ss vm = vm\<lparr>vm_symbols := vm_symbols vm ++ map_of ss\<rparr>"

section \<open>Constants\<close>

text \<open>
  \<open>DEF_CONST_INT\<close>: the macro's value becomes the argument of \<open>INT2NUM\<close>, an \<open>int\<close>, so it wraps at 32 bits.
  An entry under \<open>#ifdef\<close> is compiled when the headers define the macro.
\<close>

datatype const_def = Always string | Ifdef string

definition int_arg :: "int \<Rightarrow> int" where
  "int_arg v = sint (word_of_int v :: 32 word)"

definition def_const_int :: "(string \<Rightarrow> int) \<Rightarrow> class_var \<Rightarrow> string \<Rightarrow> ruby_vm \<Rightarrow> ruby_vm" where
  "def_const_int macro v n vm =
     vm\<lparr>vm_consts := (vm_consts vm)(v := (vm_consts vm v)(n \<mapsto> int_arg (macro n)))\<rparr>"

fun define_consts :: "(string \<Rightarrow> int) \<Rightarrow> (string \<Rightarrow> bool) \<Rightarrow> class_var \<Rightarrow> const_def list \<Rightarrow> ruby_vm \<Rightarrow> ruby_vm" where
  "define_consts macro defd v [] vm = vm"
| "define_consts macro defd v (Always n # cs) vm = define_consts macro defd v cs (def_const_int macro v n vm)"
| "define_consts macro defd v (Ifdef n # cs) vm =
     define_consts macro defd v cs (if defd n then def_const_int macro v n vm else vm)"

definition file_constants :: "const_def list" where
  "file_constants = [
    Always ''STDIN_FILENO'', Always ''STDOUT_FILENO'', Always ''STDERR_FILENO'', Always ''AT_FDCWD'',
    Always ''AT_EMPTY_PATH'', Always ''AT_NO_AUTOMOUNT'', Always ''AT_SYMLINK_NOFOLLOW'',
    Always ''AT_STATX_SYNC_AS_STAT'', Always ''AT_STATX_FORCE_SYNC'', Always ''AT_STATX_DONT_SYNC'',
    Always ''STATX_TYPE'', Always ''STATX_MODE'', Always ''STATX_NLINK'', Always ''STATX_UID'',
    Always ''STATX_GID'', Always ''STATX_ATIME'', Always ''STATX_MTIME'', Always ''STATX_CTIME'',
    Always ''STATX_INO'', Always ''STATX_SIZE'', Always ''STATX_BLOCKS'', Always ''STATX_BASIC_STATS'',
    Always ''STATX_BTIME'', Always ''STATX_ALL'', Ifdef ''STATX_MNT_ID'', Ifdef ''STATX_DIOALIGN'',
    Ifdef ''STATX_MNT_ID_UNIQUE'', Ifdef ''STATX_SUBVOL'', Ifdef ''STATX_WRITE_ATOMIC'',
    Ifdef ''STATX_DIO_READ_ALIGN'']"

definition message_constants :: "const_def list" where
  "message_constants = [
    Always ''MSG_CONFIRM'', Always ''MSG_DONTROUTE'', Always ''MSG_DONTWAIT'', Always ''MSG_EOR'',
    Always ''MSG_ERRQUEUE'', Always ''MSG_FASTOPEN'', Always ''MSG_MORE'', Always ''MSG_NOSIGNAL'',
    Always ''MSG_OOB'', Always ''MSG_PEEK'', Always ''MSG_TRUNC'', Always ''MSG_WAITALL'',
    Always ''O_APPEND'', Always ''O_CLOEXEC'', Always ''O_CREAT'', Always ''O_DIRECT'',
    Always ''O_DIRECTORY'', Always ''O_DSYNC'', Always ''O_EXCL'', Always ''O_NOCTTY'',
    Always ''O_NOFOLLOW'', Always ''O_PATH'', Always ''O_RDONLY'', Always ''O_RDWR'',
    Always ''O_SYNC'', Always ''O_TMPFILE'', Always ''O_TRUNC'', Always ''O_WRONLY'']"

definition socket_constants :: "const_def list" where
  "socket_constants = [
    Always ''WCONTINUED'', Always ''WEXITED'', Always ''WNOHANG'', Always ''WNOWAIT'',
    Always ''WSTOPPED'', Always ''WUNTRACED'', Always ''SOCK_STREAM'', Always ''SOCK_DGRAM'',
    Always ''SOCK_RAW'', Always ''SOCK_RDM'', Always ''SOCK_SEQPACKET'', Always ''SOCK_PACKET'',
    Always ''SOCK_CLOEXEC'', Always ''AF_UNSPEC'', Always ''PF_UNSPEC'', Always ''AF_INET'',
    Always ''PF_INET'', Always ''AF_INET6'', Always ''PF_INET6'', Always ''AF_UNIX'',
    Always ''PF_UNIX'', Always ''AF_LOCAL'', Always ''PF_LOCAL'', Always ''AF_ROUTE'',
    Always ''PF_ROUTE'', Always ''AF_MAX'', Always ''PF_MAX'', Always ''SOL_SOCKET'',
    Always ''SOL_IP'', Always ''IPPROTO_IP'', Always ''IPPROTO_ICMP'', Always ''IPPROTO_IGMP'',
    Always ''IPPROTO_TCP'', Always ''IPPROTO_EGP'', Always ''IPPROTO_PUP'', Always ''IPPROTO_UDP'',
    Always ''IPPROTO_IDP'', Always ''IPPROTO_IPV6'', Always ''IPPROTO_NONE'',
    Always ''IPPROTO_ROUTING'', Always ''IPPROTO_RAW'', Always ''IPPROTO_MAX'', Always ''INADDR_ANY'',
    Always ''INADDR_BROADCAST'', Always ''INADDR_LOOPBACK'', Always ''INADDR_NONE'']"

definition option_constants :: "const_def list" where
  "option_constants = [
    Always ''IP_OPTIONS'', Always ''IP_HDRINCL'', Always ''IP_TOS'', Always ''IP_TTL'',
    Always ''IP_RECVOPTS'', Always ''IP_MINTTL'', Always ''IP_RECVTTL'', Always ''SO_DEBUG'',
    Always ''SO_REUSEADDR'', Always ''SO_REUSEPORT'', Always ''SO_TYPE'', Always ''SO_ERROR'',
    Always ''SO_DONTROUTE'', Always ''SO_BROADCAST'', Always ''SO_SNDBUF'', Always ''SO_RCVBUF'',
    Always ''SO_SNDBUFFORCE'', Always ''SO_RCVBUFFORCE'', Always ''SO_KEEPALIVE'',
    Always ''SO_OOBINLINE'', Always ''SO_PRIORITY'', Always ''SO_LINGER'', Always ''SO_PASSCRED'',
    Always ''SO_PEERCRED'', Always ''SO_RCVLOWAT'', Always ''SO_SNDLOWAT'', Always ''SO_RCVTIMEO'',
    Always ''SO_SNDTIMEO'', Always ''SO_ACCEPTCONN'', Always ''SO_PEERNAME'', Always ''SO_TIMESTAMP'',
    Always ''SO_MARK'', Always ''SO_PROTOCOL'', Always ''SO_DOMAIN'', Always ''SO_PEEK_OFF'',
    Always ''SO_BUSY_POLL'', Always ''TCP_NODELAY'', Always ''TCP_MAXSEG'', Always ''TCP_CORK'',
    Always ''TCP_DEFER_ACCEPT'', Always ''TCP_INFO'', Always ''TCP_KEEPCNT'', Always ''TCP_KEEPIDLE'',
    Always ''TCP_KEEPINTVL'', Always ''TCP_LINGER2'', Always ''TCP_MD5SIG'', Always ''TCP_QUICKACK'',
    Always ''TCP_SYNCNT'', Always ''TCP_WINDOW_CLAMP'', Always ''TCP_FASTOPEN'',
    Always ''TCP_CONGESTION'', Always ''TCP_QUEUE_SEQ'', Always ''TCP_REPAIR'',
    Always ''TCP_REPAIR_OPTIONS'', Always ''TCP_REPAIR_QUEUE'', Always ''TCP_THIN_LINEAR_TIMEOUTS'',
    Always ''TCP_TIMESTAMP'', Always ''TCP_USER_TIMEOUT'', Always ''UDP_CORK'']"

definition name_constants :: "const_def list" where
  "name_constants = [
    Always ''AI_PASSIVE'', Always ''AI_CANONNAME'', Always ''AI_NUMERICHOST'',
    Always ''AI_NUMERICSERV'', Always ''AI_ALL'', Always ''AI_ADDRCONFIG'', Always ''AI_V4MAPPED'',
    Always ''NI_MAXHOST'', Always ''NI_MAXSERV'', Always ''NI_NOFQDN'', Always ''NI_NUMERICHOST'',
    Always ''NI_NAMEREQD'', Always ''NI_NUMERICSERV'', Always ''NI_DGRAM'', Always ''SHUT_RD'',
    Always ''SHUT_WR'', Always ''SHUT_RDWR'', Always ''IPV6_JOIN_GROUP'', Always ''IPV6_LEAVE_GROUP'',
    Always ''IPV6_MULTICAST_HOPS'', Always ''IPV6_MULTICAST_IF'', Always ''IPV6_MULTICAST_LOOP'',
    Always ''IPV6_UNICAST_HOPS'', Always ''IPV6_V6ONLY'', Always ''IPV6_CHECKSUM'',
    Always ''IPV6_DONTFRAG'', Always ''IPV6_DSTOPTS'', Always ''IPV6_HOPLIMIT'',
    Always ''IPV6_HOPOPTS'', Always ''IPV6_NEXTHOP'', Always ''IPV6_PATHMTU'', Always ''IPV6_PKTINFO'',
    Always ''IPV6_RECVDSTOPTS'', Always ''IPV6_RECVHOPLIMIT'', Always ''IPV6_RECVHOPOPTS'',
    Always ''IPV6_RECVPKTINFO'', Always ''IPV6_RECVRTHDR'', Always ''IPV6_RECVTCLASS'',
    Always ''IPV6_RTHDR'', Always ''IPV6_RTHDRDSTOPTS'', Always ''IPV6_RTHDR_TYPE_0'',
    Always ''IPV6_RECVPATHMTU'', Always ''IPV6_TCLASS'', Always ''INET_ADDRSTRLEN'',
    Always ''INET6_ADDRSTRLEN'', Always ''IF_NAMESIZE'', Always ''SOMAXCONN'', Always ''POLLIN'',
    Always ''POLLOUT'', Always ''POLLERR'']"

definition errno_constants :: "const_def list" where
  "errno_constants = [
    Always ''EPERM'', Always ''ENOENT'', Always ''ESRCH'', Always ''EINTR'', Always ''EIO'',
    Always ''ENXIO'', Always ''E2BIG'', Always ''ENOEXEC'', Always ''EBADF'', Always ''ECHILD'',
    Always ''EAGAIN'', Always ''ENOMEM'', Always ''EACCES'', Always ''EFAULT'', Always ''ENOTBLK'',
    Always ''EBUSY'', Always ''EEXIST'', Always ''EXDEV'', Always ''ENODEV'', Always ''ENOTDIR'',
    Always ''EISDIR'', Always ''EINVAL'', Always ''ENFILE'', Always ''EMFILE'', Always ''ENOTTY'',
    Always ''ETXTBSY'', Always ''EFBIG'', Always ''ENOSPC'', Always ''ESPIPE'', Always ''EROFS'',
    Always ''EMLINK'', Always ''EPIPE'', Always ''EDOM'', Always ''ERANGE'', Always ''EDEADLK'',
    Always ''ENAMETOOLONG'', Always ''ENOLCK'', Always ''ENOSYS'', Always ''ENOTEMPTY'',
    Always ''ELOOP'', Always ''ENOMSG'', Always ''EIDRM'', Always ''ECHRNG'', Always ''EL2NSYNC'',
    Always ''EL3HLT'', Always ''EL3RST'', Always ''ELNRNG'', Always ''EUNATCH'', Always ''ENOCSI'',
    Always ''EL2HLT'', Always ''EBADE'', Always ''EBADR'', Always ''EXFULL'', Always ''ENOANO'',
    Always ''EBADRQC'', Always ''EBADSLT'', Always ''EBFONT'', Always ''ENOSTR'', Always ''ENODATA'',
    Always ''ETIME'', Always ''ENOSR'', Always ''ENONET'', Always ''ENOPKG'', Always ''EREMOTE'',
    Always ''ENOLINK'', Always ''EADV'', Always ''ESRMNT'', Always ''ECOMM'', Always ''EPROTO'',
    Always ''EMULTIHOP'', Always ''EDOTDOT'', Always ''EBADMSG'', Always ''EOVERFLOW'',
    Always ''ENOTUNIQ'', Always ''EBADFD'', Always ''EREMCHG'', Always ''ELIBACC'', Always ''ELIBBAD'',
    Always ''ELIBSCN'', Always ''ELIBMAX'', Always ''ELIBEXEC'', Always ''EILSEQ'',
    Always ''ERESTART'', Always ''ESTRPIPE'', Always ''EUSERS'', Always ''ENOTSOCK'',
    Always ''EDESTADDRREQ'', Always ''EMSGSIZE'', Always ''EPROTOTYPE'', Always ''ENOPROTOOPT'',
    Always ''EPROTONOSUPPORT'', Always ''ESOCKTNOSUPPORT'', Always ''EOPNOTSUPP'',
    Always ''EPFNOSUPPORT'', Always ''EAFNOSUPPORT'', Always ''EADDRINUSE'', Always ''EADDRNOTAVAIL'',
    Always ''ENETDOWN'', Always ''ENETUNREACH'', Always ''ENETRESET'', Always ''ECONNABORTED'',
    Always ''ECONNRESET'', Always ''ENOBUFS'', Always ''EISCONN'', Always ''ENOTCONN'',
    Always ''ESHUTDOWN'', Always ''ETOOMANYREFS'', Always ''ETIMEDOUT'', Always ''ECONNREFUSED'',
    Always ''EHOSTDOWN'', Always ''EHOSTUNREACH'', Always ''EALREADY'', Always ''EINPROGRESS'',
    Always ''ESTALE'', Always ''EUCLEAN'', Always ''ENOTNAM'', Always ''ENAVAIL'', Always ''EISNAM'',
    Always ''EREMOTEIO'', Always ''EDQUOT'', Always ''ENOMEDIUM'', Always ''EMEDIUMTYPE'',
    Always ''ECANCELED'', Always ''ENOKEY'', Always ''EKEYEXPIRED'', Always ''EKEYREVOKED'',
    Always ''EKEYREJECTED'', Always ''EOWNERDEAD'', Always ''ENOTRECOVERABLE'']"

definition signal_constants :: "const_def list" where
  "signal_constants = [
    Always ''P_PID'', Always ''P_PIDFD'', Always ''P_PGID'', Always ''P_ALL'', Always ''CLD_EXITED'',
    Always ''CLD_KILLED'', Always ''CLD_DUMPED'', Always ''CLD_STOPPED'', Always ''CLD_TRAPPED'',
    Always ''CLD_CONTINUED'', Always ''SIGHUP'', Always ''SIGINT'', Always ''SIGQUIT'',
    Always ''SIGILL'', Always ''SIGTRAP'', Always ''SIGABRT'', Always ''SIGIOT'', Always ''SIGFPE'',
    Always ''SIGKILL'', Always ''SIGBUS'', Always ''SIGSEGV'', Always ''SIGSYS'', Always ''SIGPIPE'',
    Always ''SIGALRM'', Always ''SIGTERM'', Always ''SIGURG'', Always ''SIGSTOP'', Always ''SIGTSTP'',
    Always ''SIGCONT'', Always ''SIGCHLD'', Always ''SIGTTIN'', Always ''SIGTTOU'', Always ''SIGIO'',
    Always ''SIGXCPU'', Always ''SIGXFSZ'', Always ''SIGVTALRM'', Always ''SIGPROF'',
    Always ''SIGWINCH'', Always ''SIGUSR1'', Always ''SIGUSR2'', Always ''SIGPWR'', Always ''SIGPOLL'']"

definition inotify_constants :: "const_def list" where
  "inotify_constants = [
    Always ''IN_ACCESS'', Always ''IN_ATTRIB'', Always ''IN_CLOSE_WRITE'', Always ''IN_CLOSE_NOWRITE'',
    Always ''IN_CREATE'', Always ''IN_DELETE'', Always ''IN_DELETE_SELF'', Always ''IN_MODIFY'',
    Always ''IN_MOVE_SELF'', Always ''IN_MOVED_FROM'', Always ''IN_MOVED_TO'', Always ''IN_OPEN'',
    Always ''IN_ALL_EVENTS'', Always ''IN_MOVE'', Always ''IN_CLOSE'', Always ''IN_DONT_FOLLOW'',
    Always ''IN_EXCL_UNLINK'', Always ''IN_MASK_ADD'', Always ''IN_ONESHOT'', Always ''IN_ONLYDIR'',
    Always ''IN_MASK_CREATE'', Always ''IN_IGNORED'', Always ''IN_ISDIR'', Always ''IN_Q_OVERFLOW'',
    Always ''IN_UNMOUNT'']"

definition net_constants :: "const_def list" where
  "net_constants = file_constants @ message_constants @ socket_constants @ option_constants @ name_constants @
     errno_constants @ signal_constants @ inotify_constants"

definition um_define_net_constants ::
  "(string \<Rightarrow> int) \<Rightarrow> (string \<Rightarrow> bool) \<Rightarrow> class_var \<Rightarrow> ruby_vm \<Rightarrow> ruby_vm option" where
  "um_define_net_constants macro defd v vm =
     (if class_known v vm
      then Some (define_consts macro defd v net_constants vm)
      else None)"

section \<open>The classes\<close>

definition UM_singleton_methods :: "method_def list" where
  "UM_singleton_methods = [
    (''pipe'', ''UM_pipe'', 0), (''socketpair'', ''UM_socketpair'', 3),
    (''pidfd_open'', ''UM_pidfd_open'', 1), (''pidfd_send_signal'', ''UM_pidfd_send_signal'', 2),
    (''kernel_version'', ''UM_kernel_version'', 0), (''debug'', ''UM_debug'', 1),
    (''inotify_init'', ''UM_inotify_init'', 0), (''inotify_add_watch'', ''UM_inotify_add_watch'', 3),
    (''pr_set_child_subreaper'', ''UM_pr_set_child_subreaper'', 1)]"

definition UM_methods :: "method_def list" where
  "UM_methods = [
    (''initialize'', ''UM_initialize'', - 1), (''size'', ''UM_size'', 0), (''mark'', ''UM_mark_m'', 1),
    (''metrics'', ''UM_metrics'', 0), (''sqpoll_mode?'', ''UM_sqpoll_mode_p'', 0),
    (''profile_mode?'', ''UM_profile_mode_p'', 0), (''profile_mode='', ''UM_profile_mode_set'', 1),
    (''test_mode='', ''UM_test_mode_set'', 1), (''sidecar_mode?'', ''UM_sidecar_mode_p'', 0),
    (''sidecar_start'', ''UM_sidecar_start'', 0), (''sidecar_stop'', ''UM_sidecar_stop'', 0),
    (''schedule'', ''UM_schedule'', 2), (''snooze'', ''UM_snooze'', 0),
    (''timeout'', ''UM_timeout'', 2), (''yield'', ''UM_yield'', 0), (''switch'', ''UM_switch'', 0),
    (''wakeup'', ''UM_wakeup'', 0), (''submit'', ''UM_submit'', 0),
    (''pending_fibers'', ''UM_pending_fibers'', 0), (''close'', ''UM_close'', 1),
    (''close_async'', ''UM_close_async'', 1), (''open'', ''UM_open'', 2), (''read'', ''UM_read'', - 1),
    (''read_each'', ''UM_read_each'', 1), (''sleep'', ''UM_sleep'', 1),
    (''periodically'', ''UM_periodically'', 1), (''write'', ''UM_write'', - 1),
    (''writev'', ''UM_writev'', - 1), (''write_async'', ''UM_write_async'', - 1),
    (''statx'', ''UM_statx'', 4), (''splice'', ''UM_splice'', 3), (''tee'', ''UM_tee'', 3),
    (''fsync'', ''UM_fsync'', 1), (''poll'', ''UM_poll'', 2), (''select'', ''UM_select'', 3),
    (''waitid'', ''UM_waitid'', 3)]"

definition UM_methods_status :: "method_def list" where
  "UM_methods_status = [
    (''waitid_status'', ''UM_waitid_status'', 3)]"

definition UM_methods_net :: "method_def list" where
  "UM_methods_net = [
    (''accept'', ''UM_accept'', 1), (''accept_each'', ''UM_accept_each'', 1),
    (''accept_into_queue'', ''UM_accept_into_queue'', 2), (''bind'', ''UM_bind'', 3),
    (''connect'', ''UM_connect'', 3), (''getsockopt'', ''UM_getsockopt'', 3),
    (''listen'', ''UM_listen'', 2), (''recv'', ''UM_recv'', 4), (''recv_each'', ''UM_recv_each'', 2),
    (''send'', ''UM_send'', 4), (''sendv'', ''UM_sendv'', - 1), (''setsockopt'', ''UM_setsockopt'', 4),
    (''socket'', ''UM_socket'', 4), (''shutdown'', ''UM_shutdown'', 2),
    (''shutdown_async'', ''UM_shutdown_async'', 2), (''send_fd'', ''UM_send_fd'', 2),
    (''recv_fd'', ''UM_recv_fd'', 1), (''prep_timeout'', ''UM_prep_timeout'', 1),
    (''pop'', ''UM_queue_pop'', 1), (''push'', ''UM_queue_push'', 2),
    (''shift'', ''UM_queue_shift'', 1), (''synchronize'', ''UM_mutex_synchronize'', 1),
    (''unshift'', ''UM_queue_unshift'', 2), (''ssl_set_bio'', ''UM_ssl_set_bio'', 1),
    (''ssl_read'', ''UM_ssl_read'', 3), (''ssl_write'', ''UM_ssl_write'', 3),
    (''inotify_get_events'', ''UM_inotify_get_events'', 1)]"

definition UM_symbols :: "(string \<times> string) list" where
  "UM_symbols = [
    (''SYM_size'', ''size''), (''SYM_total_ops'', ''total_ops''),
    (''SYM_total_switches'', ''total_switches''), (''SYM_total_waits'', ''total_waits''),
    (''SYM_ops_pending'', ''ops_pending''), (''SYM_ops_unsubmitted'', ''ops_unsubmitted''),
    (''SYM_ops_runqueue'', ''ops_runqueue''), (''SYM_ops_free'', ''ops_free''),
    (''SYM_ops_transient'', ''ops_transient''), (''SYM_time_total_cpu'', ''time_total_cpu''),
    (''SYM_time_total_wait'', ''time_total_wait''), (''SYM_buffers_allocated'', ''buffers_allocated''),
    (''SYM_buffers_free'', ''buffers_free''), (''SYM_segments_free'', ''segments_free''),
    (''SYM_buffer_space_allocated'', ''buffer_space_allocated''),
    (''SYM_buffer_space_commited'', ''buffer_space_commited''), (''SYM_wd'', ''wd''),
    (''SYM_mask'', ''mask''), (''SYM_name'', ''name'')]"

text \<open>\<open>status\<close>: whether \<open>HAVE_RB_PROCESS_STATUS_NEW\<close> is defined.\<close>

definition Init_UM :: "(string \<Rightarrow> int) \<Rightarrow> (string \<Rightarrow> bool) \<Rightarrow> bool \<Rightarrow> ruby_vm \<Rightarrow> ruby_vm option" where
  "Init_UM macro defd status vm = do {
     vm \<leftarrow> rb_define_class cUM None ''UringMachine'' rb_cObject (vm\<lparr>vm_ractor_safe := True\<rparr>);
     vm \<leftarrow> rb_define_alloc_func cUM ''UM_allocate'' vm;
     vm \<leftarrow> define_methods True cUM UM_singleton_methods vm;
     vm \<leftarrow> define_methods False cUM (UM_methods @ (if status then UM_methods_status else []) @ UM_methods_net) vm;
     vm \<leftarrow> rb_define_class eUMError (Some cUM) ''Error'' rb_eStandardError vm;
     vm \<leftarrow> um_define_net_constants macro defd cUM vm;
     Some ((define_symbols UM_symbols vm)\<lparr>vm_ids := (vm_ids vm)(''id_fileno'' \<mapsto> ''fileno'')\<rparr>)
   }"

definition Mutex_methods :: "method_def list" where
  "Mutex_methods = [
    (''initialize'', ''Mutex_initialize'', 0)]"

definition Init_Mutex :: "ruby_vm \<Rightarrow> ruby_vm option" where
  "Init_Mutex vm = do {
     vm \<leftarrow> rb_define_class cMutex (Some cUM) ''Mutex'' rb_cObject vm;
     vm \<leftarrow> rb_define_alloc_func cMutex ''Mutex_allocate'' vm;
     define_methods False cMutex Mutex_methods vm
   }"

definition Queue_methods :: "method_def list" where
  "Queue_methods = [
    (''initialize'', ''Queue_initialize'', 0), (''count'', ''Queue_count'', 0)]"

definition Init_Queue :: "ruby_vm \<Rightarrow> ruby_vm option" where
  "Init_Queue vm = do {
     vm \<leftarrow> rb_define_class cQueue (Some cUM) ''Queue'' rb_cObject vm;
     vm \<leftarrow> rb_define_alloc_func cQueue ''Queue_allocate'' vm;
     define_methods False cQueue Queue_methods vm
   }"

definition AsyncOp_methods :: "method_def list" where
  "AsyncOp_methods = [
    (''initialize'', ''AsyncOp_initialize'', 0), (''kind'', ''AsyncOp_kind'', 0),
    (''done?'', ''AsyncOp_done_p'', 0), (''result'', ''AsyncOp_result'', 0),
    (''cancelled?'', ''AsyncOp_cancelled_p'', 0), (''await'', ''AsyncOp_await'', 0),
    (''join'', ''AsyncOp_await'', 0), (''cancel'', ''AsyncOp_cancel'', 0)]"

definition AsyncOp_symbols :: "(string \<times> string) list" where
  "AsyncOp_symbols = [
    (''SYM_timeout'', ''timeout'')]"

definition Init_AsyncOp :: "ruby_vm \<Rightarrow> ruby_vm option" where
  "Init_AsyncOp vm = do {
     vm \<leftarrow> rb_define_class cAsyncOp (Some cUM) ''AsyncOp'' rb_cObject vm;
     vm \<leftarrow> rb_define_alloc_func cAsyncOp ''AsyncOp_allocate'' vm;
     vm \<leftarrow> define_methods False cAsyncOp AsyncOp_methods vm;
     Some (define_symbols AsyncOp_symbols vm)
   }"

definition IO_singleton_methods :: "method_def list" where
  "IO_singleton_methods = [
    (''resp_encode'', ''IO_resp_encode'', 2)]"

definition IO_methods :: "method_def list" where
  "IO_methods = [
    (''initialize'', ''IO_initialize'', - 1), (''mode'', ''IO_mode'', 0),
    (''read_line'', ''IO_read_line'', 1), (''read'', ''IO_read'', 1),
    (''read_to_delim'', ''IO_read_to_delim'', 2), (''skip'', ''IO_skip'', 1),
    (''read_each'', ''IO_read_each'', 0), (''read_int_be'', ''IO_read_int_be'', 1),
    (''read_uint_be'', ''IO_read_uint_be'', 1), (''write'', ''IO_write'', - 1),
    (''resp_read'', ''IO_resp_read'', 0), (''resp_write'', ''IO_resp_write'', 1),
    (''eof?'', ''IO_eof_p'', 0), (''consumed'', ''IO_consumed'', 0), (''pending'', ''IO_pending'', 0),
    (''clear'', ''IO_clear'', 0)]"

definition IO_symbols :: "(string \<times> string) list" where
  "IO_symbols = [
    (''SYM_fd'', ''fd''), (''SYM_file'', ''file''), (''SYM_socket'', ''socket''), (''SYM_ssl'', ''ssl'')]"

text \<open>The singleton method is defined among the others; their tables are separate.\<close>

definition Init_IO :: "ruby_vm \<Rightarrow> ruby_vm option" where
  "Init_IO vm = do {
     vm \<leftarrow> rb_define_class cIO (Some cUM) ''IO'' rb_cObject vm;
     vm \<leftarrow> rb_define_alloc_func cIO ''IO_allocate'' vm;
     vm \<leftarrow> define_methods False cIO IO_methods vm;
     vm \<leftarrow> define_methods True cIO IO_singleton_methods vm;
     vm \<leftarrow> rb_define_class eIORESPError (Some cIO) ''RESPError'' rb_eStandardError vm;
     Some (define_symbols IO_symbols vm)
   }"

definition Init_um_ext :: "(string \<Rightarrow> int) \<Rightarrow> (string \<Rightarrow> bool) \<Rightarrow> bool \<Rightarrow> ruby_vm \<Rightarrow> ruby_vm option" where
  "Init_um_ext macro defd status vm = do {
     vm \<leftarrow> Init_UM macro defd status vm;
     vm \<leftarrow> Init_Mutex vm;
     vm \<leftarrow> Init_Queue vm;
     vm \<leftarrow> Init_AsyncOp vm;
     Init_IO vm
   }"

section \<open>What is registered\<close>

definition arity_ok :: "method_def \<Rightarrow> bool" where
  "arity_ok d \<longleftrightarrow> - 2 \<le> snd (snd d) \<and> snd (snd d) \<le> 15"

lemma define_methods_run:
  assumes "class_known v vm" "\<forall>d \<in> set ds. arity_ok d"
  shows "define_methods s v ds vm = Some (vm\<lparr>vm_methods := (vm_methods vm)(v := (vm_methods vm v)(s :=
    vm_methods vm v s ++ map_of (rev ds)))\<rparr>)"
  using assms
proof (induction ds arbitrary: vm)
  case (Cons d ds)
  obtain n f a where d: "d = (n, f, a)" by (cases d)
  let ?vm = "vm\<lparr>vm_methods := (vm_methods vm)(v := (vm_methods vm v)(s := (vm_methods vm v s)(n \<mapsto> (f, a))))\<rparr>"
  have "rb_define_method s v d vm = Some ?vm"
    using Cons.prems d by (simp add: rb_define_method_def arity_ok_def)
  moreover have "class_known v ?vm" using Cons.prems by (simp add: class_known_def)
  moreover have "vm_methods ?vm v s ++ map_of (rev ds) = vm_methods vm v s ++ map_of (rev (d # ds))"
    by (simp add: d)
  moreover have "(vm_methods ?vm)(v := (vm_methods ?vm v)(s := x)) = (vm_methods vm)(v := (vm_methods vm v)(s := x))" for x
    by simp
  ultimately show ?case using Cons.IH [of ?vm] Cons.prems by (simp del: fun_upd_apply rev.simps)
qed simp

text \<open>When no name occurs twice, no definition replaces another.\<close>

lemma map_of_rev_distinct: "distinct (map fst ds) \<Longrightarrow> map_of (rev ds) = map_of ds"
  by (rule map_of_inject_set [THEN iffD2]) (simp_all add: rev_map [symmetric])

lemma define_consts_run:
  "define_consts macro defd v cs vm = vm\<lparr>vm_consts := (vm_consts vm)(v := \<lambda>n.
     if Always n \<in> set cs \<or> (Ifdef n \<in> set cs \<and> defd n) then Some (int_arg (macro n)) else vm_consts vm v n)\<rparr>"
proof (induction cs arbitrary: vm)
  case (Cons c cs)
  then show ?case by (cases c) (auto simp: def_const_int_def fun_eq_iff)
qed simp

text \<open>The tables: every name occurs once, and Ruby accepts every arity.\<close>

fun method_table :: "bool \<Rightarrow> class_var \<Rightarrow> bool \<Rightarrow> method_def list" where
  "method_table status cUM True = UM_singleton_methods"
| "method_table status cUM False = UM_methods @ (if status then UM_methods_status else []) @ UM_methods_net"
| "method_table status cMutex False = Mutex_methods"
| "method_table status cQueue False = Queue_methods"
| "method_table status cAsyncOp False = AsyncOp_methods"
| "method_table status cIO False = IO_methods"
| "method_table status cIO True = IO_singleton_methods"
| "method_table status _ _ = []"

definition table_ok :: "method_def list \<Rightarrow> bool" where
  "table_ok t \<longleftrightarrow> distinct (map fst t) \<and> (\<forall>d \<in> set t. arity_ok d)"

lemma tables_ok_1:
  "table_ok UM_singleton_methods" "table_ok Mutex_methods" "table_ok Queue_methods" "table_ok AsyncOp_methods"
  "table_ok IO_methods" "table_ok IO_singleton_methods"
  by (simp_all add: table_ok_def arity_ok_def UM_singleton_methods_def Mutex_methods_def Queue_methods_def
      AsyncOp_methods_def IO_methods_def IO_singleton_methods_def)

lemma table_UM: "table_ok (method_table True cUM False)"
  by code_simp

lemma table_ok_tables: "table_ok (method_table status v s)"
proof (cases "v = cUM \<and> \<not> s")
  case True
  then show ?thesis using table_UM by (cases status) (auto simp: table_ok_def)
next
  case False
  then show ?thesis using tables_ok_1 by (cases "(status, v, s)" rule: method_table.cases) (auto simp: table_ok_def)
qed

lemma table_run:
  assumes "class_known v vm" "table_ok t"
  shows "define_methods s v t vm = Some (vm\<lparr>vm_methods := (vm_methods vm)(v := (vm_methods vm v)(s :=
    vm_methods vm v s ++ map_of t))\<rparr>)"
  using define_methods_run [of v vm t s] map_of_rev_distinct [of t] assms by (simp add: table_ok_def)

lemma class_known_methods [simp]: "class_known v (vm\<lparr>vm_methods := x\<rparr>) \<longleftrightarrow> class_known v vm"
  by (simp add: class_known_def)

lemma class_known_classes [simp]:
  "class_known v (vm\<lparr>vm_classes := (vm_classes vm)(w \<mapsto> c)\<rparr>) \<longleftrightarrow> v = w \<or> class_known v vm"
  by (auto simp: class_known_def)

lemma class_known_builtin [simp]: "class_known rb_cObject vm" "class_known rb_eStandardError vm"
  by (simp_all add: class_known_def)

abbreviation nested :: "class_var \<Rightarrow> string \<Rightarrow> class_var \<Rightarrow> string option \<Rightarrow> class_def" where
  "nested outer name super fn \<equiv> \<lparr>class_outer = Some outer, class_name = name, class_super = super, class_alloc = fn\<rparr>"

text \<open>The functions for the nested classes, given the outer one.\<close>

lemma Init_nested:
  assumes "class_known cUM vm"
  shows "\<exists>vm'. Init_Mutex vm = Some vm' \<and> vm_consts vm' = vm_consts vm \<and>
      vm_classes vm' = (vm_classes vm)(cMutex \<mapsto> nested cUM ''Mutex'' rb_cObject (Some ''Mutex_allocate'')) \<and>
      vm_methods vm' = (vm_methods vm)(cMutex := (vm_methods vm cMutex)(False := vm_methods vm cMutex False ++ map_of Mutex_methods))"
    "\<exists>vm'. Init_Queue vm = Some vm' \<and> vm_consts vm' = vm_consts vm \<and>
      vm_classes vm' = (vm_classes vm)(cQueue \<mapsto> nested cUM ''Queue'' rb_cObject (Some ''Queue_allocate'')) \<and>
      vm_methods vm' = (vm_methods vm)(cQueue := (vm_methods vm cQueue)(False := vm_methods vm cQueue False ++ map_of Queue_methods))"
    "\<exists>vm'. Init_AsyncOp vm = Some vm' \<and> vm_consts vm' = vm_consts vm \<and>
      vm_classes vm' = (vm_classes vm)(cAsyncOp \<mapsto> nested cUM ''AsyncOp'' rb_cObject (Some ''AsyncOp_allocate'')) \<and>
      vm_methods vm' = (vm_methods vm)(cAsyncOp := (vm_methods vm cAsyncOp)(False := vm_methods vm cAsyncOp False ++ map_of AsyncOp_methods))"
    "\<exists>vm'. Init_IO vm = Some vm' \<and> vm_consts vm' = vm_consts vm \<and>
      vm_classes vm' = (vm_classes vm)(cIO \<mapsto> nested cUM ''IO'' rb_cObject (Some ''IO_allocate''),
        eIORESPError \<mapsto> nested cIO ''RESPError'' rb_eStandardError None) \<and>
      vm_methods vm' = (vm_methods vm)(cIO := (vm_methods vm cIO)(False := vm_methods vm cIO False ++ map_of IO_methods,
        True := vm_methods vm cIO True ++ map_of IO_singleton_methods))"
  using assms tables_ok_1
  by (simp_all add: Init_Mutex_def Init_Queue_def Init_AsyncOp_def Init_IO_def rb_define_class_def
      rb_define_alloc_func_def table_run define_symbols_def)

lemma Init_UM_run:
  "\<exists>vm. Init_UM macro defd status vm_start = Some vm \<and>
    vm_classes vm = [cUM \<mapsto> \<lparr>class_outer = None, class_name = ''UringMachine'', class_super = rb_cObject,
        class_alloc = Some ''UM_allocate''\<rparr>, eUMError \<mapsto> nested cUM ''Error'' rb_eStandardError None] \<and>
    vm_methods vm = (\<lambda>_ _. Map.empty)(cUM := (\<lambda>_. Map.empty)(True := map_of UM_singleton_methods,
      False := map_of (method_table status cUM False))) \<and>
    vm_consts vm = (\<lambda>_. Map.empty)(cUM := \<lambda>n.
      if Always n \<in> set net_constants \<or> (Ifdef n \<in> set net_constants \<and> defd n) then Some (int_arg (macro n)) else None)"
proof -
  define t where "t = method_table status cUM False"
  have t: "UM_methods @ (if status then UM_methods_status else []) @ UM_methods_net = t" by (simp add: t_def)
  have ok: "table_ok t" unfolding t_def by (rule table_ok_tables)
  show ?thesis
    unfolding Init_UM_def t t_def [symmetric] vm_start_def using ok tables_ok_1(1)
    by (simp add: rb_define_class_def rb_define_alloc_func_def table_run define_symbols_def
        um_define_net_constants_def define_consts_run class_known_def cong: if_cong)
qed



text \<open>A macro beyond the range of \<open>int\<close> changes its value: \<open>INADDR_BROADCAST\<close> and \<open>INADDR_NONE\<close>
  (\<^verbatim>\<open>0xffffffff\<close>) become -1, \<open>IN_ONESHOT\<close> (\<^verbatim>\<open>0x80000000\<close>) a negative number.\<close>

lemma int_arg_range: "- (2 ^ 31) \<le> v \<Longrightarrow> v < 2 ^ 31 \<Longrightarrow> int_arg v = v"
  by (simp add: int_arg_def sint_sbintrunc' signed_take_bit_int_eq_self)

lemma int_arg_wraps: "int_arg 0xffffffff = - 1" "int_arg 0x80000000 = - (2 ^ 31)"
  by (simp_all add: int_arg_def)

end
