(* ===== verification/Spec2Isabelle.thy ===== *)
theory Spec2Isabelle
  imports UM_Pool_Props UM_Resp_Props UM_Io_Class_Props UM_Class_Props UM_Async_Props UM_Select_Props
    UM_Multishot_Props UM_Ring_Props UM_Queue_Sync UM_Object UM_Init
begin

text \<open>
  \<^bold>\<open>UringMachine: the C extension.\<close> UringMachine is a Ruby extension that runs fibers over Linux's
  io_uring. A fiber that does I/O fills an entry of the submission queue and switches to the next fiber
  of the run queue; when the run queue is empty the machine waits for completions, each of which puts
  the fiber of its operation back on the run queue. This development models the C code under
  \<^verbatim>\<open>src/ext/um\<close>, definition by definition under the names of the C functions.

  \<^bold>\<open>The model.\<close> \<open>UM_Machine\<close> has the structs of \<^verbatim>\<open>um.h\<close> as records, its enums as datatypes and its flags as
  words. \<open>struct um\<close> is the state \<open>um\<close>, which also holds the memory: \<open>ops\<close>, \<open>results\<close>, \<open>segments\<close>, \<open>buffers\<close>
  and \<open>heap\<close> map addresses to structs, so that sharing and linked lists are those of the code. A freed
  buffer has no struct; the other structs go to free lists, as they do in the code. Counters keep their
  width (\<open>u32\<close>, \<open>u64\<close>) or have the wrap-around written out (\<open>wrap_add\<close>, \<open>wrap_sub\<close>, \<open>to_ssize\<close>). A function
  of plain memory is a function on \<open>um\<close>, with result \<open>None\<close> for what C leaves undefined: a read of freed
  memory, of a null pointer or past an array. A function that can raise or switch is a computation
  \<open>'a comp\<close> (\<open>UM_Monad\<close>): it faults or does not end (\<open>None\<close>), raises (\<open>Inl\<close>) or returns (\<open>Inr\<close>), and a raise
  keeps the state reached.

  \<^bold>\<open>The environment\<close> is given by parameters. \<open>sw\<close> is what happens between the moment a fiber switches away
  and the moment it is switched back to: other fibers run, completions are processed, and a value or an
  exception is passed to it; where a function switches more than once, \<open>sw\<close> is indexed by the switch.
  Results of liburing, of system calls, of pthread and of OpenSSL, the clocks, and the blocks of
  Ruby methods are parameters too. \<open>sqe_slots\<close> of the machine is how many submission entries the ring will
  still hand out, and \<open>sqes\<close> those filled; the entries the kernel takes are handed out again.

  \<^bold>\<open>Loops.\<close> There is no fuel except where the code's own data bounds a loop. Loops that end by the structure
  of their data are \<open>fun\<close> or \<open>function\<close> with a measure. Loops that follow pointers or wait for other fibers
  are \<open>partial_function (option)\<close>: not ending is \<open>None\<close>, and the theorems about them prove that they return
  (\<open>\<exists>m'. f m = Some m'\<close>).

  \<^bold>\<open>The theories\<close>, in the order of import, with what their lemmas show:

  \<^item> \<open>UM_Prelude\<close>: wrapping arithmetic, linked lists in a map (\<open>chain\<close>), and the two interfaces. \<open>fifo\<close> is a
    list with a push and a shift: what is pushed comes out once, in order. \<open>batch_alloc\<close> is the allocator
    with a free list that is filled by batches: it never hands out what is in use.
  \<^item> \<open>UM_Buffer_Pool\<close> (\<^verbatim>\<open>um_buffer_pool.c\<close>): the ring of buffers shared with the kernel. \<open>UM_Pool_Inv\<close> has the
    invariant \<open>pool_inv\<close> (ids, committed buffers, reference counts and free list agree), \<open>UM_Pool_Ops\<close> its
    preservation, \<open>UM_Pool_Props\<close> the properties, with the search beyond the bitmap when the ids run out.
  \<^item> \<open>UM_Op\<close> (\<^verbatim>\<open>um_op.c\<close>): allocation, reference counts, the transient list, the run queue, results of multishot
    operations, marking and compaction. \<open>UM_Op_Inv\<close> interprets \<open>fifo\<close> for the run queue and \<open>batch_alloc\<close> for
    operations, results and segments; \<open>op_lists\<close> is the invariant of the lists. Properties: \<open>UM_Op_Props\<close>.
  \<^item> \<open>UM_Sidecar\<close> (\<^verbatim>\<open>um_sidecar.c\<close>): the thread that waits for completions. Its handshake with the machine is a
    step relation of the two threads, with spurious interruptions; no signal is lost.
  \<^item> \<open>UM_Loop\<close> (\<^verbatim>\<open>um.c\<close>): set-up and teardown, submission, processing of completions, switching, cancellation,
    timeouts. \<open>UM_Loop_Inv\<close> and \<open>UM_Loop_Props\<close>: what a completion does to each kind of operation, the order of
    switching (\<open>fifo\<close> for scheduled fibers), the outcomes of verifying an operation, the end of a wait for a
    cancelled one, and the double release of discarded ones.
  \<^item> \<open>UM_Utils\<close> (\<^verbatim>\<open>um_utils.c\<close>): times, buffers to read into, iovecs, with their properties.
  \<^item> \<open>UM_Calls\<close> (\<^verbatim>\<open>um.c\<close>): the operations that complete once. \<open>UM_Calls_Props\<close>: a call completed by the kernel
    returns its result or raises and gives its operation back; a full queue leaks it.
  \<^item> \<open>UM_Life\<close>: the whole machine from \<open>um_setup\<close> on as a step relation of calls (those that block, those that
    are forgotten, those with a buffer on the transient list, those behind a handle), wake-ups, completions,
    switches and the collector, with a ghost map from operations to their phase. \<open>UM_Life_Props\<close>: by rule
    induction every operation is free or held by exactly one party, no step that is due faults, and the loop can
    always go on until all operations are free but the stranded ones.
  \<^item> \<open>UM_Ring\<close>: a computation keeps a view of the machine (\<open>keeps\<close>), with one rule for each function of the machine. All but
    \<open>um_get_sqe\<close> and the functions that submit leave the submission queue alone, and these lose no entry.
    \<open>UM_Ring_Props\<close>: so the calls and whole runs of \<open>UM_Life\<close> account for every entry of the ring; and the entries
    that a failed wait leaves behind are forgotten.
  \<^item> \<open>UM_Select\<close> (\<^verbatim>\<open>um.c\<close>): select, waitid, statx and the metrics. \<open>UM_Select_Props\<close>: select collects what is
    ready, in order, and cancels the rest.
  \<^item> \<open>UM_Multishot\<close> (\<^verbatim>\<open>um.c\<close>, \<^verbatim>\<open>um_async_op.c\<close>, \<^verbatim>\<open>um_async_op_class.c\<close>): the operations that complete many times, and
    handles on operations. \<open>UM_Multishot_Props\<close>: every result goes through the handler once, in order; over a
    queue, with the refinement of \<open>UM_Queue_Props\<close>, this appends the connections accepted. \<open>UM_Async_Props\<close>:
    the life of a timeout and its handle, and the release too many when awaiting it fails.
  \<^item> \<open>UM_Sync\<close> (\<^verbatim>\<open>um_sync.c\<close>): futexes, mutexes, queues. \<open>UM_Queue_Props\<close>: a queue emptied from one end refines a
    list (\<open>fifo\<close> again), one emptied from both hands out a value twice. \<open>UM_Mutex_Props\<close>: mutual exclusion as an
    invariant of a step relation of the fibers, what an interruption breaks, and the operation that a wait on a
    futex releases twice. \<open>UM_Queue_Sync\<close>: fibers that push to a queue and shift from it, as a step relation of the
    fibers and the kernel; values come out in order, and no wake-up is lost.
  \<^item> \<open>UM_Io\<close> (\<^verbatim>\<open>um_ssl.c\<close>, \<^verbatim>\<open>um_io.c\<close>, \<^verbatim>\<open>um_io_class.c\<close>): the segments of a stream and how each kind of target
    delivers more of them, and how the BIO of a TLS connection is installed. \<open>UM_Io_Props\<close>: results become
    segments in order; a wake-up without data is taken for the end of the stream.
  \<^item> \<open>UM_Stream\<close> (\<^verbatim>\<open>um_io.c\<close>): reading lines, strings, integers and chunks from the bytes of the segments.
    \<open>UM_Stream_Props\<close>: what is read is a function of the bytes, not of how they are split into segments.
    \<open>UM_Stream_Mem\<close> has the functions that take bytes off a stream over the memory of \<open>UM_Io\<close> and relates them to
    \<open>UM_Stream\<close> by a simulation.
  \<^item> \<open>UM_Resp\<close> (\<^verbatim>\<open>um_io.c\<close>): the RESP codec. The mutually recursive decoders of values, arrays and
    hashes are one recursion over jobs (\<open>resp_job\<close>). \<open>UM_Resp_Props\<close>: the encoder writes the message, what is
    encoded is decoded, and where it is not.
  \<^item> \<open>UM_Io_Class\<close> (\<^verbatim>\<open>um_io_class.c\<close>): the methods of a stream. \<open>UM_Io_Class_Props\<close>: clearing gives every buffer
    reference back and forgets where in the stream it was; the BIO is installed once, or never after a failure.
  \<^item> \<open>UM_Class\<close> (\<^verbatim>\<open>um_class.c\<close>, \<^verbatim>\<open>um_mutex_class.c\<close>, \<^verbatim>\<open>um_queue_class.c\<close>): the methods of the Ruby classes.
    \<open>UM_Class_Props\<close>: what \<open>initialize\<close> makes of its arguments, and the events of inotify.
  \<^item> \<open>UM_Object\<close>: the allocators of the classes, and the rest of \<^verbatim>\<open>um_class.c\<close> and \<^verbatim>\<open>um_utils.c\<close>: the clocks, the version
    of the kernel. What the garbage collector does to objects that are not initialized.
  \<^item> \<open>UM_Init\<close> (\<^verbatim>\<open>um_ext.c\<close>, \<^verbatim>\<open>um_const.c\<close>, the \<^verbatim>\<open>Init_\<close> functions): what loading the extension registers with Ruby. No
    class is used before it is defined, no registration replaces another, and a constant beyond \<open>int\<close> wraps.

  \<^bold>\<open>Abstraction between theories.\<close> \<open>UM_Stream\<close> and \<open>UM_Resp\<close> work on the bytes of the segment list (record
  \<open>stream\<close>: the contents of the segments, the position in the first, what the calls for more will bring),
  while \<open>UM_Io\<close> has the segments as memory without bytes. The relation \<open>io_sim\<close> of \<open>UM_Stream_Mem\<close> connects the
  two, given the bytes of the buffers: the list of segments in memory is that of the stream, the counters
  agree, and the pool's invariant holds with one reference per segment held. Consuming a string keeps it,
  and clearing a stream ends it.

  \<^bold>\<open>Not modelled.\<close> The bytes of buffers in \<open>um\<close> (the kernel writes them); the contents of Ruby objects other than
  strings and the numbers read from them; \<open>um_waitid_status\<close> and its method, which exist only where Ruby has \<open>rb_process_status_new\<close> and
  do not compile there; how Ruby prints and parses floats (a parameter); the code for profiling times, which is
  commented out; the messages of a debug build; \<open>make_segment_io_buffer\<close>, which is not used.
\<close>

end
